(* ===== verification/Prelude.thy ===== *)
theory Prelude
  imports Main "HOL-Library.Word"
begin

text \<open>
  Shared vocabulary of the development: the machine integer types of the C++ sources, the ways a
  run of the program can stop early (\<open>crash\<close>), operations that pass a state and may crash, and the
  generic facts on them that every component uses.

  The collection \<open>op_simps\<close> holds the equations that run an operation whose parts are known;
  \<open>op_dests\<close> holds the equivalences that take a successful run apart.
\<close>

unbundle bit_operations_syntax

named_theorems op_simps "running a sequence of operations"
named_theorems op_dests "taking a successful sequence of operations apart"

section \<open>Machine integers\<close>

type_synonym u8 = "8 word"
type_synonym u16 = "16 word"
type_synonym u32 = "32 word"
type_synonym u64 = "64 word"

section \<open>How a run can stop early\<close>

text \<open>
  \<open>Uncaught\<close> is a C++ exception that no caller handles, which ends the process;
  \<open>Undefined\<close> is an operation to which the language gives no meaning (a read outside a
  \<open>std::vector\<close> with \<open>operator[]\<close>, a call through a null pointer); \<open>Segfault\<close> is an access to an
  address that is not mapped; \<open>Enomem\<close> is the \<open>abort()\<close> after the message \<open>---ENOMEM---\<close>;
  \<open>Hang\<close> is a loop that never ends; \<open>Exited\<close> is \<open>exit(1)\<close> after an error of the system.
\<close>

datatype cxx_exception = out_of_range | domain_error | bad_function_call | invalid_argument | runtime_error

datatype crash =
    Aborted
  | Enomem
  | Segfault
  | Undefined
  | Hang
  | Exited
  | Uncaught cxx_exception

type_synonym 'a result = "crash + 'a"

type_synonym ('s, 'a) op = "'s \<Rightarrow> crash + ('a \<times> 's)"

definition ok :: "'a \<Rightarrow> ('s, 'a) op" where
  "ok x = (\<lambda>s. Inr (x, s))"

definition die :: "crash \<Rightarrow> ('s, 'a) op" where
  "die e = (\<lambda>s. Inl e)"

definition seq :: "('s, 'a) op \<Rightarrow> ('a \<Rightarrow> ('s, 'b) op) \<Rightarrow> ('s, 'b) op" where
  "seq m f = (\<lambda>s. case m s of Inl e \<Rightarrow> Inl e | Inr (x, s') \<Rightarrow> f x s')"

definition modify :: "('s \<Rightarrow> 's) \<Rightarrow> ('s, unit) op" where
  "modify f = (\<lambda>s. Inr ((), f s))"

definition rbind :: "'a result \<Rightarrow> ('a \<Rightarrow> 'b result) \<Rightarrow> 'b result" where
  "rbind m f = (case m of Inl e \<Rightarrow> Inl e | Inr x \<Rightarrow> f x)"

lemma ok_apply [simp, op_simps]: "ok x s = Inr (x, s)"
  by (simp add: ok_def)

lemma die_apply [simp, op_simps]: "die e s = Inl e"
  by (simp add: die_def)

lemma modify_apply [simp, op_simps]: "modify f s = Inr ((), f s)"
  by (simp add: modify_def)

lemma seq_Inr [simp, op_simps]: "m s = Inr (x, s') \<Longrightarrow> seq m f s = f x s'"
  by (simp add: seq_def)

lemma seq_Inl [simp, op_simps]: "m s = Inl e \<Longrightarrow> seq m f s = Inl e"
  by (simp add: seq_def)

lemma seq_eq_Inr [op_dests]:
  "seq m f s = Inr r \<longleftrightarrow> (\<exists>x s'. m s = Inr (x, s') \<and> f x s' = Inr r)"
  by (auto simp: seq_def split: sum.splits prod.splits)

lemma seq_eq_Inl [op_dests]:
  "seq m f s = Inl e \<longleftrightarrow> m s = Inl e \<or> (\<exists>x s'. m s = Inr (x, s') \<and> f x s' = Inl e)"
  by (auto simp: seq_def split: sum.splits prod.splits)

lemma rbind_simps [simp, op_simps]:
  "rbind (Inl e) f = Inl e"
  "rbind (Inr x) f = f x"
  by (simp_all add: rbind_def)

lemma rbind_eq_Inr [op_dests]: "rbind m f = Inr y \<longleftrightarrow> (\<exists>x. m = Inr x \<and> f x = Inr y)"
  by (cases m) auto

section \<open>Unsigned arithmetic without wrap-around\<close>

lemma unat_add_small:
  fixes a b :: "'a::len word"
  shows "unat a + unat b < 2 ^ LENGTH('a) \<Longrightarrow> unat (a + b) = unat a + unat b"
  by (simp add: unat_word_ariths)

lemma unat_sub_le:
  fixes a b :: "'a::len word"
  shows "unat b \<le> unat a \<Longrightarrow> unat (a - b) = unat a - unat b"
  by (simp add: unat_sub word_le_nat_alt)

lemma unat_lt_64: "unat (a :: u64) < 18446744073709551616"
  by (rule order_less_le_trans [OF unsigned_less]) simp

lemma word_eq_unat: "a = b \<longleftrightarrow> unat a = unat b"
  for a b :: "'a::len word"
  by (simp add: word_unat_eq_iff)

section \<open>Rounding up to eight bytes\<close>

text \<open>
  Every \<open>align\<close> of the heap layers is the expression \<open>(sz + (8 - 1)) & ~(8 - 1)\<close> on \<open>size_t\<close>.
\<close>

definition align8 :: "u64 \<Rightarrow> u64" where
  "align8 sz = (sz + 7) AND (NOT 7)"

definition up8 :: "nat \<Rightarrow> nat" where
  "up8 n = (n + 7) div 8 * 8"

lemma and_not_7: "unat (x AND NOT (7 :: u64)) = unat x div 8 * 8"
proof -
  have "x AND NOT (mask 3) = push_bit 3 (drop_bit 3 x)"
    by (rule bit_word_eqI) (auto simp: bit_simps)
  then have "unat (x AND NOT (mask 3)) = unat (push_bit 3 (drop_bit 3 x))"
    by simp
  also have "\<dots> = unat x div 8 * 8"
  proof -
    have lt: "unat x div 8 * 8 < 2 ^ 64"
      using unat_lt_64 [of x] by simp
    have "unat (push_bit 3 (drop_bit 3 x)) = (unat (drop_bit 3 x) * 8) mod 2 ^ 64"
      by (simp add: push_bit_eq_mult unat_word_ariths mult.commute)
    moreover have "unat (drop_bit 3 x) = unat x div 8"
      unfolding unat_drop_bit_eq by (simp add: drop_bit_eq_div)
    ultimately show ?thesis
      using lt by simp
  qed
  also have "mask 3 = (7 :: u64)"
    by (simp add: mask_eq_exp_minus_1)
  finally show ?thesis by simp
qed

lemma unat_align8: "unat sz + 7 < 2 ^ 64 \<Longrightarrow> unat (align8 sz) = up8 (unat sz)"
  unfolding align8_def up8_def and_not_7 by (simp add: unat_add_small)

lemma up8_ge: "n \<le> up8 n"
  by (simp add: up8_def)

lemma up8_lt: "up8 n < n + 8"
  by (simp add: up8_def)

lemma up8_dvd: "8 dvd up8 n"
  by (simp add: up8_def)

lemma up8_mono: "m \<le> n \<Longrightarrow> up8 m \<le> up8 n"
  by (simp add: up8_def div_le_mono)

lemma up8_id: "8 dvd n \<Longrightarrow> up8 n = n"
  by (auto simp: up8_def)

lemma up8_add_8k: "8 dvd k \<Longrightarrow> up8 (n + k) = up8 n + k"
  unfolding up8_def by presburger

end
