(* ===== verification/Memory.thy ===== *)
theory Memory
  imports Prelude
begin

text \<open>
  The address space the heap layers work on: bytes at addresses, the regions that \<open>mmap\<close> has made
  accessible, and the accesses the C++ code makes (\<open>uint64_t\<close> and pointer fields, \<open>memcpy\<close>,
  \<open>memset\<close>). An access outside every mapped region is a \<open>Segfault\<close>. A 64-bit field is stored as
  eight bytes, least significant first, as on the x86-64 targets of the build.
\<close>

section \<open>Bytes\<close>

type_synonym bytes = "nat \<Rightarrow> u8"

definition read_bytes :: "bytes \<Rightarrow> nat \<Rightarrow> nat \<Rightarrow> u8 list" where
  "read_bytes m a n = map (\<lambda>i. m (a + i)) [0..<n]"

definition write_bytes :: "bytes \<Rightarrow> nat \<Rightarrow> u8 list \<Rightarrow> bytes" where
  "write_bytes m a bs = (\<lambda>x. if a \<le> x \<and> x < a + length bs then bs ! (x - a) else m x)"

definition u64_bytes :: "u64 \<Rightarrow> u8 list" where
  "u64_bytes v = map (\<lambda>i. ucast (drop_bit (8 * i) v)) [0..<8]"

definition bytes_u64 :: "u8 list \<Rightarrow> u64" where
  "bytes_u64 bs = foldr (\<lambda>b acc. ucast b OR push_bit 8 acc) bs 0"

section \<open>Mapped memory\<close>

record ram =
  bytes :: "nat \<Rightarrow> u8"
  mapped :: "(nat \<times> nat) list"

definition mapped_range :: "ram \<Rightarrow> nat \<Rightarrow> nat \<Rightarrow> bool" where
  "mapped_range r a n = list_ex (\<lambda>(lo, len). lo \<le> a \<and> a + n \<le> lo + len) (mapped r)"

definition ram_read :: "ram \<Rightarrow> nat \<Rightarrow> nat \<Rightarrow> u8 list result" where
  "ram_read r a n = (if mapped_range r a n then Inr (read_bytes (bytes r) a n) else Inl Segfault)"

definition ram_write :: "ram \<Rightarrow> nat \<Rightarrow> u8 list \<Rightarrow> ram result" where
  "ram_write r a bs =
     (if mapped_range r a (length bs) then Inr (r\<lparr>bytes := write_bytes (bytes r) a bs\<rparr>)
      else Inl Segfault)"

definition get64 :: "ram \<Rightarrow> u64 \<Rightarrow> u64" where
  "get64 r p = bytes_u64 (read_bytes (bytes r) (unat p) 8)"

definition put64 :: "ram \<Rightarrow> u64 \<Rightarrow> u64 \<Rightarrow> ram" where
  "put64 r p v = r\<lparr>bytes := write_bytes (bytes r) (unat p) (u64_bytes v)\<rparr>"

definition load64 :: "ram \<Rightarrow> u64 \<Rightarrow> u64 result" where
  "load64 r p = (if mapped_range r (unat p) 8 then Inr (get64 r p) else Inl Segfault)"

definition store64 :: "ram \<Rightarrow> u64 \<Rightarrow> u64 \<Rightarrow> ram result" where
  "store64 r p v = (if mapped_range r (unat p) 8 then Inr (put64 r p v) else Inl Segfault)"

definition memcpy :: "ram \<Rightarrow> u64 \<Rightarrow> u64 \<Rightarrow> u64 \<Rightarrow> ram result" where
  "memcpy r dst src n =
     rbind (ram_read r (unat src) (unat n)) (\<lambda>bs. ram_write r (unat dst) bs)"

definition memset :: "ram \<Rightarrow> u64 \<Rightarrow> u8 \<Rightarrow> u64 \<Rightarrow> ram result" where
  "memset r dst c n = ram_write r (unat dst) (replicate (unat n) c)"

text \<open>
  \<open>mmap\<close> of anonymous memory: the kernel picks the address, the pages come zero-filled.
\<close>

definition map_zeroed :: "ram \<Rightarrow> nat \<Rightarrow> nat \<Rightarrow> ram" where
  "map_zeroed r a n =
     r\<lparr>bytes := write_bytes (bytes r) a (replicate n 0), mapped := (a, n) # mapped r\<rparr>"

section \<open>Reading what was written\<close>

lemma length_read_bytes [simp]: "length (read_bytes m a n) = n"
  by (simp add: read_bytes_def)

lemma length_u64_bytes [simp]: "length (u64_bytes v) = 8"
  by (simp add: u64_bytes_def)

lemma read_write_same [simp]: "n = length bs \<Longrightarrow> read_bytes (write_bytes m a bs) a n = bs"
  by (rule nth_equalityI) (simp_all add: read_bytes_def write_bytes_def)

lemma write_bytes_outside: "x < a \<or> a + length bs \<le> x \<Longrightarrow> write_bytes m a bs x = m x"
  by (auto simp: write_bytes_def)

lemma read_bytes_cong:
  "(\<And>x. a \<le> x \<Longrightarrow> x < a + n \<Longrightarrow> m x = m' x) \<Longrightarrow> read_bytes m a n = read_bytes m' a n"
  by (simp add: read_bytes_def)

lemma read_write_disjoint:
  "b + n \<le> a \<or> a + length bs \<le> b \<Longrightarrow> read_bytes (write_bytes m a bs) b n = read_bytes m b n"
  by (rule read_bytes_cong) (auto intro: write_bytes_outside)

lemma foldr_bytes_take_bit:
  "foldr (\<lambda>b acc. ucast (b :: u8) OR push_bit 8 acc) (map (\<lambda>i. ucast (drop_bit (8 * i) v)) [0..<n]) 0
    = take_bit (8 * n) (v :: u64)"
proof (induction n arbitrary: v)
  case 0
  then show ?case by simp
next
  case (Suc n)
  have upt: "[0..<Suc n] = 0 # map Suc [0..<n]"
    by (simp add: map_Suc_upt upt_conv_Cons)
  have shift: "map (\<lambda>i. ucast (drop_bit (8 * i) v) :: u8) (map Suc [0..<n])
      = map (\<lambda>i. ucast (drop_bit (8 * i) (drop_bit 8 v))) [0..<n]"
    by (simp add: ac_simps)
  have "ucast (ucast v :: u8) OR push_bit 8 (take_bit (8 * n) (drop_bit 8 v))
      = take_bit (8 * Suc n) v"
    by (rule bit_word_eqI) (auto simp: bit_simps)
  then show ?case
    unfolding upt list.map foldr_Cons o_apply shift Suc.IH by simp
qed

lemma bytes_u64_bytes [simp]: "bytes_u64 (u64_bytes v) = v"
  using foldr_bytes_take_bit [of v 8] by (simp add: bytes_u64_def u64_bytes_def take_bit_word_eq_self)

section \<open>Frames\<close>

lemma put64_mapped [simp]: "mapped (put64 r p v) = mapped r"
  by (simp add: put64_def)

lemma mapped_range_cong: "mapped r' = mapped r \<Longrightarrow> mapped_range r' a n = mapped_range r a n"
  by (simp add: mapped_range_def)

lemma mapped_range_put64 [simp]: "mapped_range (put64 r p v) a n = mapped_range r a n"
  by (simp add: mapped_range_def)

lemma mapped_range_sub:
  assumes "mapped_range r a n" and "a \<le> b" and "b + k \<le> a + n"
  shows "mapped_range r b k"
proof -
  from assms(1) obtain lo len where "(lo, len) \<in> set (mapped r)" "lo \<le> a" "a + n \<le> lo + len"
    by (auto simp: mapped_range_def list_ex_iff)
  with assms(2,3) have "\<exists>(lo, len) \<in> set (mapped r). lo \<le> b \<and> b + k \<le> lo + len"
    by (auto intro!: bexI [of _ "(lo, len)"])
  then show ?thesis
    by (auto simp: mapped_range_def list_ex_iff)
qed

lemma mapped_range_more:
  assumes "mapped_range r a n" and "set (mapped r) \<subseteq> set (mapped r')"
  shows "mapped_range r' a n"
  using assms by (auto simp: mapped_range_def list_ex_iff)

lemma put64_outside:
  "x < unat p \<or> unat p + 8 \<le> x \<Longrightarrow> bytes (put64 r p v) x = bytes r x"
  by (simp add: put64_def write_bytes_outside)

lemma get64_put64_same [simp]: "get64 (put64 r p v) p = v"
  by (simp add: get64_def put64_def)

lemma get64_cong:
  "(\<And>x. unat p \<le> x \<Longrightarrow> x < unat p + 8 \<Longrightarrow> bytes r x = bytes r' x) \<Longrightarrow> get64 r p = get64 r' p"
  unfolding get64_def by (subst read_bytes_cong) auto

lemma get64_put64_apart:
  "unat p + 8 \<le> unat q \<or> unat q + 8 \<le> unat p \<Longrightarrow> get64 (put64 r p v) q = get64 r q"
  by (rule get64_cong) (auto intro: put64_outside)

lemma load64_Inr [simp, op_simps]: "mapped_range r (unat p) 8 \<Longrightarrow> load64 r p = Inr (get64 r p)"
  by (simp add: load64_def)

lemma store64_Inr [simp, op_simps]: "mapped_range r (unat p) 8 \<Longrightarrow> store64 r p v = Inr (put64 r p v)"
  by (simp add: store64_def)

lemma map_zeroed_mapped: "mapped (map_zeroed r a n) = (a, n) # mapped r"
  by (simp add: map_zeroed_def)

lemma mapped_range_map_zeroed: "mapped_range (map_zeroed r a n) a n"
  by (simp add: mapped_range_def map_zeroed_def)

lemma map_zeroed_outside: "x < a \<or> a + n \<le> x \<Longrightarrow> bytes (map_zeroed r a n) x = bytes r x"
  by (simp add: map_zeroed_def write_bytes_outside)

end
