(* ===== verification/Constants.thy ===== *)
theory Constants
  imports Prelude
begin

text \<open>
  \<open>utils/constants.cpp\<close>: where the three heaps are placed. The address of the linker symbol
  \<open>_end\<close> is a parameter.
\<close>

definition PAGE_SZ :: u64 where "PAGE_SZ = 4096"

definition ZONE_SZ :: u64 where "ZONE_SZ = 1024 * 1024 * 32"

definition PURPOSE_DEVELOPMENT_HEAP :: u64 where "PURPOSE_DEVELOPMENT_HEAP = 100"
definition PURPOSE_INTERNAL_HEAP :: u64 where "PURPOSE_INTERNAL_HEAP = 101"
definition PURPOSE_SHARED_HEAP :: u64 where "PURPOSE_SHARED_HEAP = 102"
definition PURPOSE_APPLICATION_HEAP :: u64 where "PURPOSE_APPLICATION_HEAP = 103"

definition global_base :: "u64 \<Rightarrow> u64" where
  "global_base end_sym = (end_sym AND NOT (PAGE_SZ - 1)) + PAGE_SZ"

text \<open>
  \<open>global_base()\<close> is a \<open>uint64_t *\<close>, so adding \<open>ZONE_SZ * k\<close> to it moves by that many
  eight-byte words.
\<close>

definition get_heap_location :: "u64 \<Rightarrow> u64 \<Rightarrow> u64" where
  "get_heap_location end_sym purpose =
     (if purpose = PURPOSE_DEVELOPMENT_HEAP then 0
      else if purpose = PURPOSE_INTERNAL_HEAP then global_base end_sym + 8 * (ZONE_SZ * 0)
      else if purpose = PURPOSE_SHARED_HEAP then global_base end_sym + 8 * (ZONE_SZ * 1)
      else if purpose = PURPOSE_APPLICATION_HEAP then global_base end_sym + 8 * (ZONE_SZ * 2)
      else 0)"

lemmas constants = PAGE_SZ_def ZONE_SZ_def PURPOSE_DEVELOPMENT_HEAP_def PURPOSE_INTERNAL_HEAP_def
  PURPOSE_SHARED_HEAP_def PURPOSE_APPLICATION_HEAP_def

end
