(* ===== verification/SourceHeap.thy ===== *)
theory SourceHeap
  imports Memory Constants
begin

text \<open>
  \<open>heaplayers/source.h\<close>: the bottom layer of every heap, which hands out consecutive pieces of one
  32 MB zone obtained from \<open>mmap\<close>. The layers above extend this record, as the C++ classes extend
  their template parameter \<open>Super\<close>.

  The kernel is a parameter: \<open>os_mmap\<close> is the address it picks for a zone (or \<open>None\<close> for
  \<open>MAP_FAILED\<close>), given the address space, the wanted address and the length, and \<open>os_end\<close> is the
  address of the linker symbol \<open>_end\<close>. What the proofs rely on is \<open>mmap_spec\<close>: the kernel returns
  page-aligned fresh memory that does not wrap around the end of the address space.
\<close>

record os =
  os_mmap :: "ram \<Rightarrow> u64 \<Rightarrow> u64 \<Rightarrow> u64 option"
  os_end :: u64

definition mmap_spec :: "os \<Rightarrow> bool" where
  "mmap_spec os \<longleftrightarrow>
     (\<forall>r hint len a. os_mmap os r hint len = Some a \<longrightarrow>
        a \<noteq> 0 \<and> 4096 dvd unat a \<and> unat a + unat len < 2 ^ 64 \<and>
        (\<forall>(lo, n) \<in> set (mapped r). lo + n \<le> unat a \<or> unat a + unat len \<le> lo))"

record source_heap =
  heap_ram :: ram
  src_purpose :: u64
  src_zone :: u64
  src_next :: u64
  src_bytes_left :: u64

definition heap_load :: "u64 \<Rightarrow> ('a source_heap_scheme, u64) op" where
  "heap_load p = (\<lambda>h. rbind (load64 (heap_ram h) p) (\<lambda>v. Inr (v, h)))"

definition heap_store :: "u64 \<Rightarrow> u64 \<Rightarrow> ('a source_heap_scheme, unit) op" where
  "heap_store p v = (\<lambda>h. rbind (store64 (heap_ram h) p v) (\<lambda>r. Inr ((), h\<lparr>heap_ram := r\<rparr>)))"

definition source_mmap :: "os \<Rightarrow> ('a source_heap_scheme, unit) op" where
  "source_mmap os = (\<lambda>h.
     case os_mmap os (heap_ram h) (get_heap_location (os_end os) (src_purpose h)) ZONE_SZ of
       None \<Rightarrow> Inl Enomem
     | Some z \<Rightarrow>
         Inr ((), h\<lparr>heap_ram := map_zeroed (heap_ram h) (unat z) (unat ZONE_SZ),
                    src_zone := z, src_next := z, src_bytes_left := ZONE_SZ\<rparr>))"

definition source_malloc :: "os \<Rightarrow> u64 \<Rightarrow> ('a source_heap_scheme, u64) op" where
  "source_malloc os sz =
     seq (\<lambda>h. if src_zone h = 0 then source_mmap os h else ok () h)
       (\<lambda>_ h. if src_bytes_left h > sz
              then Inr (src_next h, h\<lparr>src_next := src_next h + sz,
                                      src_bytes_left := src_bytes_left h - sz\<rparr>)
              else Inl Enomem)"

definition source_free :: "u64 \<Rightarrow> ('a source_heap_scheme, unit) op" where
  "source_free ptr = ok ()"

definition source_getSize :: "u64 \<Rightarrow> u64" where
  "source_getSize ptr = - 1"

definition source_reset :: "('a source_heap_scheme, unit) op" where
  "source_reset = modify (\<lambda>h. h\<lparr>src_zone := 0, src_next := 0, src_bytes_left := 0\<rparr>)"

text \<open>A kernel that meets \<open>mmap_spec\<close>: it has one region of memory to give.\<close>

definition demo_os :: os where
  "demo_os =
     \<lparr>os_mmap = (\<lambda>r hint len. if mapped r = [] \<and> unat len < 2 ^ 40 then Some 65536 else None),
      os_end = 4198400\<rparr>"

lemma demo_os_spec: "mmap_spec demo_os"
  by (auto simp: mmap_spec_def demo_os_def)

end
