(* ===== verification/ZoneHeap.thy ===== *)
theory ZoneHeap
  imports SourceHeap
begin

text \<open>
  \<open>heaplayers/zoneheap.h\<close>: arenas of \<open>ChunkSize\<close> bytes taken from the source heap, each with a
  24-byte \<open>Arena\<close> header in memory (\<open>nextArena\<close> at offset 0, \<open>arenaSpace\<close> at offset 8, padding at
  offset 16), and blocks cut from the current arena by moving \<open>arenaSpace\<close>.
\<close>

record zone_heap = source_heap +
  sizeRemaining :: u64
  currentArena :: u64
  pastArenas :: u64

definition ChunkSize :: u64 where "ChunkSize = 16384 - 16"

definition sizeof_Arena :: u64 where "sizeof_Arena = 24"

text \<open>The parameter of \<open>align\<close> is an \<open>int\<close>: the size is cut to 32 bits and sign-extended back.\<close>

definition zone_align :: "u64 \<Rightarrow> u64" where
  "zone_align sz = (scast (ucast sz :: 32 word) + (8 - 1)) AND NOT (8 - 1)"

definition zone_retire :: "('a zone_heap_scheme, unit) op" where
  "zone_retire = (\<lambda>h.
     if currentArena h \<noteq> 0
     then seq (heap_store (currentArena h) (pastArenas h))
            (\<lambda>_. modify (\<lambda>h. h\<lparr>pastArenas := currentArena h\<rparr>)) h
     else ok () h)"

definition zone_newArena :: "os \<Rightarrow> u64 \<Rightarrow> ('a zone_heap_scheme, bool) op" where
  "zone_newArena os sz =
     seq zone_retire
       (\<lambda>_. seq (source_malloc os ((if ChunkSize < sz then sz else ChunkSize) + sizeof_Arena))
         (\<lambda>a. seq (modify (\<lambda>h. h\<lparr>currentArena := a\<rparr>))
           (\<lambda>_. if a = 0 then ok False
                else seq (heap_store (a + 8) (a + sizeof_Arena))
                  (\<lambda>_. seq (heap_store a 0)
                    (\<lambda>_. seq (modify (\<lambda>h. h\<lparr>sizeRemaining := ChunkSize\<rparr>))
                      (\<lambda>_. ok True))))))"

definition zone_bump :: "u64 \<Rightarrow> ('a zone_heap_scheme, u64) op" where
  "zone_bump sz =
     seq (modify (\<lambda>h. h\<lparr>sizeRemaining := sizeRemaining h - sz\<rparr>))
       (\<lambda>_ h. seq (heap_load (currentArena h + 8))
         (\<lambda>p. seq (heap_store (currentArena h + 8) (p + sz))
           (\<lambda>_. if p \<noteq> 0 then ok p else die Aborted)) h)"

definition zoneMalloc :: "os \<Rightarrow> u64 \<Rightarrow> ('a zone_heap_scheme, u64) op" where
  "zoneMalloc os sz0 =
     (let sz = zone_align sz0
      in seq (\<lambda>h. if currentArena h = 0 \<or> sizeRemaining h < sz
                  then zone_newArena os sz h else ok True h)
           (\<lambda>got. if got then zone_bump sz else ok 0))"

definition zone_malloc :: "os \<Rightarrow> u64 \<Rightarrow> ('a zone_heap_scheme, u64) op" where
  "zone_malloc os sz = zoneMalloc os sz"

definition zone_free :: "u64 \<Rightarrow> ('a zone_heap_scheme, unit) op" where
  "zone_free ptr = ok ()"

definition zone_remove :: "u64 \<Rightarrow> ('a zone_heap_scheme, int) op" where
  "zone_remove ptr = ok 0"

text \<open>
  The loop over the past arenas in \<open>__reset\<close>; the state only changes through \<open>Super::free\<close>, which
  does nothing.
\<close>

partial_function (option) zone_freeArenas :: "ram \<Rightarrow> u64 \<Rightarrow> unit result option" where
  "zone_freeArenas r p =
     (if p = 0 then Some (Inr ())
      else case load64 r p of Inl e \<Rightarrow> Some (Inl e) | Inr q \<Rightarrow> zone_freeArenas r q)"

definition zone_reset :: "('a zone_heap_scheme, unit) op" where
  "zone_reset = (\<lambda>h.
     case zone_freeArenas (heap_ram h) (pastArenas h) of
       None \<Rightarrow> Inl Hang
     | Some (Inl e) \<Rightarrow> Inl e
     | Some (Inr _) \<Rightarrow>
         seq (if currentArena h \<noteq> 0 then source_free (currentArena h) else ok ())
           (\<lambda>_. source_reset) h)"

end
