(* ===== verification/SizeHeap.thy ===== *)
theory SizeHeap
  imports ZoneHeap
begin

text \<open>
  \<open>heaplayers/sizeheap.h\<close>: a 16-byte \<open>freeObject\<close> header (padding at offset 0, the size at offset
  8) in front of every block.
\<close>

definition size_malloc :: "os \<Rightarrow> u64 \<Rightarrow> ('a zone_heap_scheme, u64) op" where
  "size_malloc os sz =
     seq (zone_malloc os (sz + 16))
       (\<lambda>p. seq (heap_store (p + 8) sz) (\<lambda>_. ok (p + 16)))"

definition size_free :: "u64 \<Rightarrow> ('a zone_heap_scheme, unit) op" where
  "size_free ptr = zone_free (ptr - 16)"

definition getSize :: "u64 \<Rightarrow> ('a zone_heap_scheme, u64) op" where
  "getSize ptr = heap_load (ptr - 16 + 8)"

definition size_reset :: "('a zone_heap_scheme, unit) op" where
  "size_reset = zone_reset"

end
