(* ===== verification/FirstFitHeap.thy ===== *)
theory FirstFitHeap
  imports SizeHeap
begin

text \<open>
  \<open>heaplayers/firstfitheap.h\<close>: freed blocks are kept in a list that is linked through the first
  eight bytes of each block and ordered by address; \<open>malloc\<close> takes the first one that is large
  enough. The list lives in memory, so a walk over it may fault, and over a list that a double free
  made circular it does not end.
\<close>

record firstfit_heap = zone_heap +
  myFreeList :: u64
  nObjects :: u32

text \<open>The loop of \<open>malloc\<close>: the last cell passed and the first one whose size is at least \<open>sz\<close>.\<close>

partial_function (option) ff_search ::
    "ram \<Rightarrow> u64 \<Rightarrow> u64 \<Rightarrow> u64 \<Rightarrow> (u64 \<times> u64) result option" where
  "ff_search r sz prev p =
     (if p = 0 then Some (Inr (prev, p))
      else case load64 r (p - 16 + 8) of
             Inl e \<Rightarrow> Some (Inl e)
           | Inr n \<Rightarrow>
               if n < sz
               then (case load64 r p of Inl e \<Rightarrow> Some (Inl e) | Inr q \<Rightarrow> ff_search r sz p q)
               else Some (Inr (prev, p)))"

definition ff_malloc :: "os \<Rightarrow> u64 \<Rightarrow> ('a firstfit_heap_scheme, u64) op" where
  "ff_malloc os sz = (\<lambda>h.
     if myFreeList h = 0 then size_malloc os sz h
     else case ff_search (heap_ram h) sz 0 (myFreeList h) of
            None \<Rightarrow> Inl Hang
          | Some (Inl e) \<Rightarrow> Inl e
          | Some (Inr (prev, p)) \<Rightarrow>
              if p = 0 then size_malloc os sz h
              else seq (heap_load p)
                     (\<lambda>q. seq (if prev = 0 then modify (\<lambda>h. h\<lparr>myFreeList := q\<rparr>)
                               else heap_store prev q)
                       (\<lambda>_. seq (modify (\<lambda>h. h\<lparr>nObjects := nObjects h - 1\<rparr>))
                         (\<lambda>_. ok p))) h)"

text \<open>The loop of \<open>free\<close>: the last cell whose address is at most \<open>ptr\<close>.\<close>

partial_function (option) ff_place :: "ram \<Rightarrow> u64 \<Rightarrow> u64 \<Rightarrow> u64 \<Rightarrow> u64 result option" where
  "ff_place r ptr prev p =
     (if p \<noteq> 0 \<and> p \<le> ptr
      then (case load64 r p of Inl e \<Rightarrow> Some (Inl e) | Inr q \<Rightarrow> ff_place r ptr p q)
      else Some (Inr prev))"

definition ff_free :: "u64 \<Rightarrow> ('a firstfit_heap_scheme, unit) op" where
  "ff_free ptr = (\<lambda>h.
     if ptr = 0 then Inr ((), h)
     else
       (let h = h\<lparr>nObjects := nObjects h + 1\<rparr>
        in case ff_place (heap_ram h) ptr 0 (myFreeList h) of
             None \<Rightarrow> Inl Hang
           | Some (Inl e) \<Rightarrow> Inl e
           | Some (Inr prev) \<Rightarrow>
               if prev = 0
               then seq (heap_store ptr (myFreeList h))
                      (\<lambda>_. modify (\<lambda>h. h\<lparr>myFreeList := ptr\<rparr>)) h
               else seq (heap_load prev)
                      (\<lambda>q. seq (heap_store ptr q) (\<lambda>_. heap_store prev ptr)) h))"

partial_function (option) ff_releaseAll :: "ram \<Rightarrow> u64 \<Rightarrow> unit result option" where
  "ff_releaseAll r p =
     (if p = 0 then Some (Inr ())
      else case load64 r p of Inl e \<Rightarrow> Some (Inl e) | Inr q \<Rightarrow> ff_releaseAll r q)"

definition ff_reset :: "('a firstfit_heap_scheme, unit) op" where
  "ff_reset = (\<lambda>h.
     case ff_releaseAll (heap_ram h) (myFreeList h) of
       None \<Rightarrow> Inl Hang
     | Some (Inl e) \<Rightarrow> Inl e
     | Some (Inr _) \<Rightarrow> seq (modify (\<lambda>h. h\<lparr>myFreeList := 0, nObjects := 0\<rparr>)) (\<lambda>_. size_reset) h)"

end
