(* ===== verification/StdlibHeap.thy ===== *)
theory StdlibHeap
  imports FirstFitHeap
begin

text \<open>
  \<open>heaplayers/stdlibheap.h\<close> and \<open>heaplayers/lockedheap.h\<close>: the C library interface on top of the
  first-fit heap, and the mutex around it.
\<close>

definition heap_memcpy :: "u64 \<Rightarrow> u64 \<Rightarrow> u64 \<Rightarrow> ('a source_heap_scheme, unit) op" where
  "heap_memcpy dst src n =
     (\<lambda>h. rbind (memcpy (heap_ram h) dst src n) (\<lambda>r. Inr ((), h\<lparr>heap_ram := r\<rparr>)))"

definition heap_memset :: "u64 \<Rightarrow> u8 \<Rightarrow> u64 \<Rightarrow> ('a source_heap_scheme, unit) op" where
  "heap_memset dst c n =
     (\<lambda>h. rbind (memset (heap_ram h) dst c n) (\<lambda>r. Inr ((), h\<lparr>heap_ram := r\<rparr>)))"

text \<open>\<open>strlen\<close>: bytes up to the first zero byte.\<close>

partial_function (option) c_strlen :: "ram \<Rightarrow> nat \<Rightarrow> nat \<Rightarrow> nat result option" where
  "c_strlen r a n =
     (if \<not> mapped_range r a 1 then Some (Inl Segfault)
      else if bytes r a = 0 then Some (Inr n)
      else c_strlen r (Suc a) (Suc n))"

definition stdlib_round :: "u64 \<Rightarrow> u64" where
  "stdlib_round sz = align8 (if sz < 2 * 8 then 2 * 8 else sz)"

definition stdlib_malloc :: "os \<Rightarrow> u64 \<Rightarrow> ('a firstfit_heap_scheme, u64) op" where
  "stdlib_malloc os sz = ff_malloc os (stdlib_round sz)"

definition stdlib_free :: "u64 \<Rightarrow> ('a firstfit_heap_scheme, unit) op" where
  "stdlib_free ptr = ff_free ptr"

definition stdlib_realloc :: "os \<Rightarrow> u64 \<Rightarrow> u64 \<Rightarrow> ('a firstfit_heap_scheme, u64) op" where
  "stdlib_realloc os ptr sz0 =
     (let sz = stdlib_round sz0
      in if ptr = 0 then ff_malloc os sz
         else seq (getSize ptr)
           (\<lambda>min_size. seq (ff_malloc os sz)
             (\<lambda>buf. if buf \<noteq> 0
                     then seq (heap_memcpy buf ptr min_size)
                            (\<lambda>_. seq (ff_free ptr) (\<lambda>_. ok buf))
                     else ok buf)))"

definition stdlib_strdup :: "os \<Rightarrow> u64 \<Rightarrow> ('a firstfit_heap_scheme, u64) op" where
  "stdlib_strdup os s1 = (\<lambda>h.
     case c_strlen (heap_ram h) (unat s1) 0 of
       None \<Rightarrow> Inl Hang
     | Some (Inl e) \<Rightarrow> Inl e
     | Some (Inr n) \<Rightarrow>
         seq (ff_malloc os (of_nat n + 1))
           (\<lambda>s2. seq (heap_memcpy s2 s1 (of_nat n + 1)) (\<lambda>_. ok s2)) h)"

definition stdlib_calloc :: "os \<Rightarrow> u64 \<Rightarrow> u64 \<Rightarrow> ('a firstfit_heap_scheme, u64) op" where
  "stdlib_calloc os count elsize =
     seq (ff_malloc os (count * elsize))
       (\<lambda>ptr. seq (heap_memset ptr 0 (count * elsize)) (\<lambda>_. ok ptr))"

section \<open>The lock\<close>

text \<open>
  \<open>Guard\<close> takes the (not recursive) mutex in its constructor and gives it back in its destructor; a
  thread that takes a mutex it holds waits forever.
\<close>

record locked_heap = firstfit_heap +
  alock :: bool

definition heap_lock :: "('a locked_heap_scheme, unit) op" where
  "heap_lock = (\<lambda>h. if alock h then Inl Hang else Inr ((), h\<lparr>alock := True\<rparr>))"

definition heap_unlock :: "('a locked_heap_scheme, unit) op" where
  "heap_unlock = modify (\<lambda>h. h\<lparr>alock := False\<rparr>)"

definition guarded :: "('a locked_heap_scheme, 'b) op \<Rightarrow> ('a locked_heap_scheme, 'b) op" where
  "guarded m = seq heap_lock (\<lambda>_. seq m (\<lambda>x. seq heap_unlock (\<lambda>_. ok x)))"

definition locked_malloc :: "os \<Rightarrow> u64 \<Rightarrow> ('a locked_heap_scheme, u64) op" where
  "locked_malloc os sz = guarded (stdlib_malloc os sz)"

definition locked_free :: "u64 \<Rightarrow> ('a locked_heap_scheme, unit) op" where
  "locked_free ptr = guarded (stdlib_free ptr)"

definition locked_realloc :: "os \<Rightarrow> u64 \<Rightarrow> u64 \<Rightarrow> ('a locked_heap_scheme, u64) op" where
  "locked_realloc os ptr sz = guarded (stdlib_realloc os ptr sz)"

definition locked_strdup :: "os \<Rightarrow> u64 \<Rightarrow> ('a locked_heap_scheme, u64) op" where
  "locked_strdup os s1 = guarded (stdlib_strdup os s1)"

definition locked_calloc :: "os \<Rightarrow> u64 \<Rightarrow> u64 \<Rightarrow> ('a locked_heap_scheme, u64) op" where
  "locked_calloc os count elsize = guarded (stdlib_calloc os count elsize)"

definition locked_getSize :: "u64 \<Rightarrow> ('a locked_heap_scheme, u64) op" where
  "locked_getSize ptr = guarded (getSize ptr)"

text \<open>A heap object of static storage duration after its constructors have run.\<close>

definition new_heap :: "u64 \<Rightarrow> locked_heap" where
  "new_heap purpose =
     \<lparr>heap_ram = \<lparr>bytes = (\<lambda>_. 0), mapped = []\<rparr>, src_purpose = purpose,
      src_zone = 0, src_next = 0, src_bytes_left = 0,
      sizeRemaining = - 1, currentArena = 0, pastArenas = 0,
      myFreeList = 0, nObjects = 0, alock = False\<rparr>"

end
