(* ===== verification/Cells.thy ===== *)
theory Cells
  imports Main
begin

text \<open>
  Linked cells: the shape that the free list of \<open>FirstFitHeap\<close>, the arena list of \<open>ZoneHeap\<close> and the
  list of \<open>FreeSLList\<close> share. Each cell holds the address of the next one, the list ends in a null
  address, and a write to one cell leaves the cells apart from it alone. The predicate \<open>chain\<close>
  relates the first address to the list of the cells; the locale states what a store of cells has to
  promise and derives what linking and unlinking a cell do to a chain.
\<close>

fun chain :: "('p \<Rightarrow> 'p) \<Rightarrow> 'p \<Rightarrow> 'p \<Rightarrow> 'p list \<Rightarrow> bool" where
  "chain nxt nul p [] = (p = nul)"
| "chain nxt nul p (x # xs) = (p = x \<and> x \<noteq> nul \<and> chain nxt nul (nxt x) xs)"

lemma chain_unique: "chain nxt nul p xs \<Longrightarrow> chain nxt nul p ys \<Longrightarrow> xs = ys"
proof (induction xs arbitrary: p ys)
  case Nil
  then show ?case by (cases ys) auto
next
  case (Cons x xs)
  then show ?case by (cases ys) auto
qed

lemma chain_null: "chain nxt nul nul xs \<longleftrightarrow> xs = []"
  by (cases xs) auto

lemma chain_not_null: "chain nxt nul p xs \<Longrightarrow> p \<noteq> nul \<Longrightarrow> \<exists>ys. xs = p # ys \<and> chain nxt nul (nxt p) ys"
  by (cases xs) auto

lemma chain_nonnull_elems: "chain nxt nul p xs \<Longrightarrow> x \<in> set xs \<Longrightarrow> x \<noteq> nul"
  by (induction xs arbitrary: p) auto

lemma chain_cong:
  "(\<And>x. x \<in> set xs \<Longrightarrow> nxt x = nxt' x) \<Longrightarrow> chain nxt nul p xs = chain nxt' nul p xs"
  by (induction xs arbitrary: p) auto

lemma chain_append_mid:
  "chain nxt nul p (xs @ y # ys) \<Longrightarrow> y \<noteq> nul \<and> chain nxt nul (nxt y) ys"
  by (induction xs arbitrary: p) auto

locale cell_store =
  fixes get_next :: "'s \<Rightarrow> 'p \<Rightarrow> 'p"
    and set_next :: "'s \<Rightarrow> 'p \<Rightarrow> 'p \<Rightarrow> 's"
    and null :: "'p"
    and apart :: "'p \<Rightarrow> 'p \<Rightarrow> bool"
  assumes get_set_same: "get_next (set_next s p q) p = q"
    and get_set_apart: "apart p p' \<Longrightarrow> get_next (set_next s p q) p' = get_next s p'"
begin

lemma chain_set_apart:
  "(\<And>x. x \<in> set xs \<Longrightarrow> apart p x) \<Longrightarrow>
    chain (get_next (set_next s p q)) null a xs = chain (get_next s) null a xs"
  by (rule chain_cong) (simp add: get_set_apart)

text \<open>A new cell in front.\<close>

lemma chain_push:
  assumes "chain (get_next s) null a xs" and "p \<noteq> null" and "\<And>x. x \<in> set xs \<Longrightarrow> apart p x"
  shows "chain (get_next (set_next s p a)) null p (p # xs)"
  using assms by (simp add: get_set_same chain_set_apart)

text \<open>A cell \<open>p\<close> linked behind the cell \<open>pr\<close>, as two writes.\<close>

lemma chain_link_after:
  assumes "chain (get_next s) null a (xs @ pr # ys)" and "p \<noteq> null"
    and ap: "\<And>x. x \<in> set (xs @ pr # ys) \<Longrightarrow> apart p x"
    and apr: "\<And>x. x \<in> set (xs @ ys) \<Longrightarrow> apart pr x" and "apart pr p"
  shows "chain (get_next (set_next (set_next s p (get_next s pr)) pr p)) null a (xs @ pr # p # ys)"
  using assms(1) ap apr
proof (induction xs arbitrary: a)
  case Nil
  let ?s1 = "set_next s p (get_next s pr)"
  from Nil have a: "a = pr" "pr \<noteq> null" and tail: "chain (get_next s) null (get_next s pr) ys"
    by auto
  have "chain (get_next (set_next ?s1 pr p)) null (get_next s pr) ys"
    using tail Nil by (simp add: chain_set_apart)
  then show ?case
    using a \<open>p \<noteq> null\<close> \<open>apart pr p\<close> by (simp add: get_set_same get_set_apart)
next
  case (Cons x xs)
  then show ?case by (simp add: get_set_apart)
qed

text \<open>The cell behind \<open>pr\<close> taken out, as one write.\<close>

lemma chain_unlink_after:
  assumes "chain (get_next s) null a (xs @ pr # p # ys)"
    and "\<And>x. x \<in> set (xs @ p # ys) \<Longrightarrow> apart pr x"
  shows "chain (get_next (set_next s pr (get_next s p))) null a (xs @ pr # ys)"
  using assms
proof (induction xs arbitrary: a)
  case Nil
  then show ?case by (simp add: get_set_same chain_set_apart)
next
  case (Cons x xs)
  then show ?case by (simp add: get_set_apart)
qed

end

end
