(* ===== verification/HeapInv.thy ===== *)
theory HeapInv
  imports StdlibHeap Cells
begin

text \<open>
  The invariant of the heap layers: which bytes belong to which block, and that the free list, the
  arena and the zone describe them. \<open>heap_wf h live fl\<close> says that the heap object \<open>h\<close> has the
  blocks \<open>live\<close> (in the hands of the program) and \<open>fl\<close> (in the free list, in list order).
\<close>

definition blkSize :: "'a zone_heap_scheme \<Rightarrow> u64 \<Rightarrow> u64" where
  "blkSize h p = get64 (heap_ram h) (p - 8)"

definition blkLo :: "u64 \<Rightarrow> nat" where
  "blkLo p = unat p - 16"

definition blkHi :: "'a zone_heap_scheme \<Rightarrow> u64 \<Rightarrow> nat" where
  "blkHi h p = unat p + up8 (unat (blkSize h p))"

definition block_ok :: "'a zone_heap_scheme \<Rightarrow> u64 \<Rightarrow> bool" where
  "block_ok h p \<longleftrightarrow>
     16 \<le> unat p \<and> 8 dvd unat p \<and> 1 \<le> unat (blkSize h p) \<and> unat (blkSize h p) \<le> 16352 \<and>
     mapped_range (heap_ram h) (blkLo p) (up8 (unat (blkSize h p)) + 16)"

definition blocks_apart :: "'a zone_heap_scheme \<Rightarrow> u64 \<Rightarrow> u64 \<Rightarrow> bool" where
  "blocks_apart h p q \<longleftrightarrow> blkHi h p \<le> blkLo q \<or> blkHi h q \<le> blkLo p"

definition blocks_ok :: "'a zone_heap_scheme \<Rightarrow> u64 set \<Rightarrow> bool" where
  "blocks_ok h B \<longleftrightarrow>
     (\<forall>p \<in> B. block_ok h p) \<and> (\<forall>p \<in> B. \<forall>q \<in> B. p \<noteq> q \<longrightarrow> blocks_apart h p q)"

definition source_ok :: "'a zone_heap_scheme \<Rightarrow> bool" where
  "source_ok h \<longleftrightarrow>
     src_zone h \<noteq> 0 \<and> unat (src_zone h) \<le> unat (src_next h) \<and> 8 dvd unat (src_next h) \<and>
     unat (src_next h) + unat (src_bytes_left h) = unat (src_zone h) + 33554432 \<and>
     unat (src_zone h) + 33554432 < 2 ^ 64 \<and>
     mapped_range (heap_ram h) (unat (src_zone h)) 33554432"

definition arenaSpace :: "'a zone_heap_scheme \<Rightarrow> u64" where
  "arenaSpace h = get64 (heap_ram h) (currentArena h + 8)"

definition arena_ok :: "'a zone_heap_scheme \<Rightarrow> bool" where
  "arena_ok h \<longleftrightarrow>
     source_ok h \<and> currentArena h \<noteq> 0 \<and> unat (src_zone h) \<le> unat (currentArena h) \<and>
     8 dvd unat (currentArena h) \<and> 8 dvd unat (arenaSpace h) \<and>
     unat (currentArena h) + 24 \<le> unat (arenaSpace h) \<and>
     unat (arenaSpace h) + unat (sizeRemaining h) = unat (src_next h)"

definition below_arena :: "'a zone_heap_scheme \<Rightarrow> u64 set \<Rightarrow> bool" where
  "below_arena h B \<longleftrightarrow>
     (\<forall>p \<in> B. blkHi h p \<le> unat (arenaSpace h) \<and>
        (blkHi h p \<le> unat (currentArena h) \<or> unat (currentArena h) + 24 \<le> blkLo p))"

definition arenas_ok :: "'a zone_heap_scheme \<Rightarrow> u64 set \<Rightarrow> bool" where
  "arenas_ok h B \<longleftrightarrow>
     (if currentArena h = 0 then B = {} \<and> src_zone h = 0 else arena_ok h \<and> below_arena h B)"

definition heap_wf :: "'a firstfit_heap_scheme \<Rightarrow> u64 list \<Rightarrow> u64 list \<Rightarrow> bool" where
  "heap_wf h live fl \<longleftrightarrow>
     distinct (live @ fl) \<and> sorted_wrt (<) fl \<and>
     chain (get64 (heap_ram h)) 0 (myFreeList h) fl \<and> nObjects h = of_nat (length fl) \<and>
     blocks_ok h (set live \<union> set fl) \<and> arenas_ok h (set live \<union> set fl)"

section \<open>Frames\<close>

text \<open>\<open>keeps h h' S\<close>: the bytes at the addresses \<open>S\<close> are the same, and nothing was unmapped.\<close>

definition keeps :: "'a source_heap_scheme \<Rightarrow> 'b source_heap_scheme \<Rightarrow> nat set \<Rightarrow> bool" where
  "keeps h h' S \<longleftrightarrow>
     (\<forall>x \<in> S. bytes (heap_ram h') x = bytes (heap_ram h) x) \<and>
     set (mapped (heap_ram h)) \<subseteq> set (mapped (heap_ram h'))"

definition blkRange :: "'a zone_heap_scheme \<Rightarrow> u64 \<Rightarrow> nat set" where
  "blkRange h p = {blkLo p..<blkHi h p}"

lemma keeps_refl [simp]: "keeps h h S"
  by (simp add: keeps_def)

lemma keeps_trans: "keeps h h' S \<Longrightarrow> keeps h' h'' S \<Longrightarrow> keeps h h'' S"
  by (auto simp: keeps_def)

lemma keeps_subset: "keeps h h' S \<Longrightarrow> T \<subseteq> S \<Longrightarrow> keeps h h' T"
  by (auto simp: keeps_def)

lemma keeps_get64:
  assumes "keeps h h' S" and "{unat p..<unat p + 8} \<subseteq> S"
  shows "get64 (heap_ram h') p = get64 (heap_ram h) p"
  using assms by (intro get64_cong) (auto simp: keeps_def)

lemma unat_minus_8: "16 \<le> unat p \<Longrightarrow> unat (p - 8 :: u64) = unat p - 8"
  by (subst unat_sub_le) auto

lemma up8_pos: "1 \<le> n \<Longrightarrow> 8 \<le> up8 n"
  by (simp add: up8_def)

definition hdrRange :: "u64 \<Rightarrow> nat set" where
  "hdrRange p = {blkLo p..<unat p}"

lemma hdrRange_sub: "hdrRange p \<subseteq> blkRange h p"
  by (auto simp: hdrRange_def blkRange_def blkHi_def)

lemma keeps_blkSize:
  assumes "keeps h h' (hdrRange p)" and "16 \<le> unat p"
  shows "blkSize h' p = blkSize h p"
  unfolding blkSize_def
  by (rule keeps_get64 [OF assms(1)])
    (use assms(2) in \<open>auto simp: hdrRange_def blkLo_def unat_minus_8\<close>)

lemma keeps_block:
  assumes "keeps h h' (hdrRange p)" and "block_ok h p"
  shows "blkSize h' p = blkSize h p" and "blkHi h' p = blkHi h p"
    and "blkRange h' p = blkRange h p" and "block_ok h' p"
proof -
  show sz: "blkSize h' p = blkSize h p"
    using keeps_blkSize [OF assms(1)] assms(2) by (simp add: block_ok_def)
  then show hi: "blkHi h' p = blkHi h p"
    by (simp add: blkHi_def)
  then show "blkRange h' p = blkRange h p"
    by (simp add: blkRange_def)
  have "mapped_range (heap_ram h') (blkLo p) (up8 (unat (blkSize h p)) + 16)"
    using assms by (auto simp: keeps_def block_ok_def intro: mapped_range_more)
  then show "block_ok h' p"
    using assms(2) sz by (simp add: block_ok_def)
qed

lemma keeps_headers_blocks_ok:
  assumes "\<And>p. p \<in> B \<Longrightarrow> keeps h h' (hdrRange p)" and "blocks_ok h B"
  shows "blocks_ok h' B" and "\<And>p. p \<in> B \<Longrightarrow> blkSize h' p = blkSize h p"
    and "\<And>p. p \<in> B \<Longrightarrow> blkHi h' p = blkHi h p"
proof -
  have ok: "block_ok h p" if "p \<in> B" for p
    using assms(2) that by (simp add: blocks_ok_def)
  show "blkSize h' p = blkSize h p" if "p \<in> B" for p
    using keeps_block(1) [OF assms(1) ok] that by simp
  show hi: "blkHi h' p = blkHi h p" if "p \<in> B" for p
    using keeps_block(2) [OF assms(1) ok] that by simp
  show "blocks_ok h' B"
    using assms(2) keeps_block(4) [OF assms(1) ok]
    by (simp add: blocks_ok_def blocks_apart_def hi)
qed

lemma keeps_blocks_ok:
  assumes "keeps h h' (\<Union>p \<in> B. blkRange h p)" and "blocks_ok h B"
  shows "blocks_ok h' B" and "\<And>p. p \<in> B \<Longrightarrow> blkHi h' p = blkHi h p"
    and "\<And>p. p \<in> B \<Longrightarrow> blkSize h' p = blkSize h p"
proof -
  have k: "keeps h h' (hdrRange p)" if "p \<in> B" for p
    using keeps_subset [OF assms(1)] hdrRange_sub [of p h] that by blast
  show "blocks_ok h' B" and "\<And>p. p \<in> B \<Longrightarrow> blkHi h' p = blkHi h p"
    and "\<And>p. p \<in> B \<Longrightarrow> blkSize h' p = blkSize h p"
    using keeps_headers_blocks_ok [OF k assms(2)] by blast+
qed

section \<open>Writing into a block\<close>

text \<open>\<open>payload_write h h' p\<close>: the only bytes that differ are those of the block \<open>p\<close> behind its header.\<close>

definition payload_write :: "'a zone_heap_scheme \<Rightarrow> 'a zone_heap_scheme \<Rightarrow> u64 \<Rightarrow> bool" where
  "payload_write h h' p \<longleftrightarrow>
     (\<exists>r'. h' = h\<lparr>heap_ram := r'\<rparr> \<and> mapped r' = mapped (heap_ram h) \<and>
        (\<forall>x. x < unat p \<or> blkHi h p \<le> x \<longrightarrow> bytes r' x = bytes (heap_ram h) x))"

lemma payload_write_ok:
  assumes w: "payload_write h h' p" and B: "blocks_ok h B" "arenas_ok h B" and p: "p \<in> B"
  shows "blocks_ok h' B" and "arenas_ok h' B" and "\<And>q. q \<in> B \<Longrightarrow> blkSize h' q = blkSize h q"
    and "keeps h h' (\<Union>q \<in> B - {p}. blkRange h q)" and "zone_heap.more h' = zone_heap.more h"
proof -
  obtain r' where h': "h' = h\<lparr>heap_ram := r'\<rparr>" and m: "mapped r' = mapped (heap_ram h)"
    and out: "\<And>x. x < unat p \<or> blkHi h p \<le> x \<Longrightarrow> bytes r' x = bytes (heap_ram h) x"
    using w by (auto simp: payload_write_def)
  show "zone_heap.more h' = zone_heap.more h"
    by (simp add: h')
  have ap: "blkHi h p \<le> blkLo q \<or> blkHi h q \<le> blkLo p" if "q \<in> B" "q \<noteq> p" for q
    using B(1) p that by (auto simp: blocks_ok_def blocks_apart_def)
  have lo: "blkLo q \<le> unat q" for q
    by (simp add: blkLo_def)
  show k: "keeps h h' (\<Union>q \<in> B - {p}. blkRange h q)"
    using ap lo [of p] m out by (fastforce simp: keeps_def h' blkRange_def)
  have kh: "keeps h h' (hdrRange q)" if "q \<in> B" for q
  proof (cases "q = p")
    case True
    then show ?thesis using m out by (simp add: keeps_def h' hdrRange_def)
  next
    case False
    then show ?thesis
      using that hdrRange_sub [of q h] by (intro keeps_subset [OF k]) blast
  qed
  note b = keeps_headers_blocks_ok [OF kh B(1)]
  show "blocks_ok h' B" and "\<And>q. q \<in> B \<Longrightarrow> blkSize h' q = blkSize h q"
    using b by blast+
  show "arenas_ok h' B"
  proof (cases "currentArena h = 0")
    case True
    then show ?thesis using B(2) by (simp add: arenas_ok_def h')
  next
    case False
    then have a: "arena_ok h" "below_arena h B"
      using B(2) by (simp_all add: arenas_ok_def)
    have c8: "unat (currentArena h + 8) = unat (currentArena h) + 8"
      using a(1) by (subst unat_add_small) (auto simp: arena_ok_def source_ok_def)
    have sp: "arenaSpace h' = arenaSpace h"
    proof -
      have "bytes r' x = bytes (heap_ram h) x"
        if "x \<in> {unat (currentArena h + 8)..<unat (currentArena h + 8) + 8}" for x
        using that a(2) p lo [of p] by (intro out) (fastforce simp: c8 below_arena_def)
      then have "get64 r' (currentArena h + 8) = get64 (heap_ram h) (currentArena h + 8)"
        by (intro get64_cong) auto
      then show ?thesis
        by (simp add: arenaSpace_def h')
    qed
    have mr: "mapped_range r' x n = mapped_range (heap_ram h) x n" for x n
      by (rule mapped_range_cong [OF m])
    have "arena_ok h'"
      using a(1) by (simp add: arena_ok_def source_ok_def sp) (simp add: h' mr)
    moreover have "below_arena h' B"
      using a(2) b(3) by (simp add: below_arena_def sp) (simp add: h')
    ultimately show ?thesis
      by (simp add: arenas_ok_def arena_ok_def)
  qed
qed

lemma put64_payload_write:
  assumes "blocks_ok h B" and "p \<in> B"
  shows "payload_write h (h\<lparr>heap_ram := put64 (heap_ram h) p v\<rparr>) p"
    and "mapped_range (heap_ram h) (unat p) 8"
    and "mapped_range (heap_ram h) (unat (p - 8)) 8"
proof -
  have ok: "block_ok h p"
    using assms by (simp add: blocks_ok_def)
  then have n: "8 \<le> up8 (unat (blkSize h p))"
    by (intro up8_pos) (simp add: block_ok_def)
  then show "payload_write h (h\<lparr>heap_ram := put64 (heap_ram h) p v\<rparr>) p"
    by (auto simp: payload_write_def blkHi_def intro!: put64_outside)
  have m: "mapped_range (heap_ram h) (blkLo p) (up8 (unat (blkSize h p)) + 16)" "16 \<le> unat p"
    using ok by (simp_all add: block_ok_def)
  show "mapped_range (heap_ram h) (unat p) 8" "mapped_range (heap_ram h) (unat (p - 8)) 8"
    by (rule mapped_range_sub [OF m(1)]; use m(2) n in \<open>simp add: blkLo_def unat_minus_8\<close>)+
qed

section \<open>The free list as linked cells\<close>

definition apart64 :: "u64 \<Rightarrow> u64 \<Rightarrow> bool" where
  "apart64 p q \<longleftrightarrow> unat p + 8 \<le> unat q \<or> unat q + 8 \<le> unat p"

interpretation cells: cell_store get64 put64 "0 :: u64" apart64
  by unfold_locales (auto simp: apart64_def intro: get64_put64_apart)

lemma blocks_apart64:
  assumes "blocks_ok h B" and "p \<in> B" and "q \<in> B" and "p \<noteq> q"
  shows "apart64 p q"
proof -
  have "8 \<le> up8 (unat (blkSize h x))" if "x \<in> B" for x
    using assms(1) that by (intro up8_pos) (auto simp: blocks_ok_def block_ok_def)
  then show ?thesis
    using assms by (fastforce simp: blocks_ok_def blocks_apart_def apart64_def blkHi_def blkLo_def)
qed

end
