(* ===== verification/ZoneInv.thy ===== *)
theory ZoneInv
  imports HeapInv
begin

text \<open>
  What the source and zone layers do on a well-formed heap when a request fits into one chunk: they
  return fresh memory inside the zone, or stop with \<open>Enomem\<close>, and they touch no block.
\<close>

lemma scast_ucast_small: "unat (sz :: u64) < 2 ^ 31 \<Longrightarrow> scast (ucast sz :: 32 word) = sz"
proof -
  assume a: "unat sz < 2 ^ 31"
  have "int (unat sz) < int (2 ^ 31)"
    using a by (simp only: of_nat_less_iff)
  then have lt: "uint sz < 2 ^ 31"
    by simp
  have "sint (ucast sz :: 32 word) = signed_take_bit 31 (uint sz)"
    by (simp add: signed_ucast_eq)
  also have "\<dots> = uint sz"
    by (rule signed_take_bit_int_eq_self) (rule order_trans [OF _ uint_ge_0], simp, rule lt)
  finally have "word_of_int (sint (ucast sz :: 32 word)) = (word_of_int (uint sz) :: u64)"
    by (rule arg_cong)
  then show ?thesis
    by simp
qed

lemma unat_zone_align: "unat sz < 2 ^ 31 - 8 \<Longrightarrow> unat (zone_align sz) = up8 (unat sz)"
proof -
  assume a: "unat sz < 2 ^ 31 - 8"
  then have "scast (ucast sz :: 32 word) = sz"
    by (intro scast_ucast_small) simp
  then have "zone_align sz = align8 sz"
    by (simp add: zone_align_def align8_def)
  with a show ?thesis
    by (simp add: unat_align8)
qed


section \<open>Running loads and stores\<close>

lemma heap_load_ok [simp, op_simps]:
  "mapped_range (heap_ram h) (unat p) 8 \<Longrightarrow> heap_load p h = Inr (get64 (heap_ram h) p, h)"
  by (simp add: heap_load_def)

lemma heap_store_ok [simp, op_simps]:
  "mapped_range (heap_ram h) (unat p) 8 \<Longrightarrow>
    heap_store p v h = Inr ((), h\<lparr>heap_ram := put64 (heap_ram h) p v\<rparr>)"
  by (simp add: heap_store_def)

section \<open>The arena\<close>

lemma arena_addrs:
  assumes "arena_ok h"
  shows "unat (currentArena h + 8) = unat (currentArena h) + 8"
    and "mapped_range (heap_ram h) (unat (currentArena h)) 24"
    and "unat (arenaSpace h) \<le> unat (src_zone h) + 33554432"
proof -
  show le: "unat (arenaSpace h) \<le> unat (src_zone h) + 33554432"
    using assms by (simp add: arena_ok_def source_ok_def)
  then show "unat (currentArena h + 8) = unat (currentArena h) + 8"
    using assms by (subst unat_add_small) (auto simp: arena_ok_def source_ok_def)
  have "mapped_range (heap_ram h) (unat (src_zone h)) 33554432"
    using assms by (simp add: arena_ok_def source_ok_def)
  then show "mapped_range (heap_ram h) (unat (currentArena h)) 24"
    by (rule mapped_range_sub) (use le assms in \<open>auto simp: arena_ok_def\<close>)
qed

definition bumped :: "'a zone_heap_scheme \<Rightarrow> u64 \<Rightarrow> 'a zone_heap_scheme" where
  "bumped h sz =
     h\<lparr>heap_ram := put64 (heap_ram h) (currentArena h + 8) (arenaSpace h + sz),
       sizeRemaining := sizeRemaining h - sz\<rparr>"

lemma zone_bump_mapped:
  assumes "mapped_range (heap_ram h) (unat (currentArena h + 8)) 8" and "arenaSpace h \<noteq> 0"
  shows "zone_bump sz h = Inr (arenaSpace h, bumped h sz)"
  using assms by (simp add: zone_bump_def bumped_def arenaSpace_def)

lemma zone_bump_run:
  assumes "arena_ok h"
  shows "zone_bump sz h = Inr (arenaSpace h, bumped h sz)"
proof -
  have "mapped_range (heap_ram h) (unat (currentArena h + 8)) 8"
    unfolding arena_addrs(1) [OF assms]
    by (rule mapped_range_sub [OF arena_addrs(2) [OF assms]]) auto
  moreover have "arenaSpace h \<noteq> 0"
    using assms by (auto simp: arena_ok_def)
  ultimately show ?thesis
    by (rule zone_bump_mapped)
qed

lemma bumped_sel [simp]:
  "currentArena (bumped h sz) = currentArena h" "arenaSpace (bumped h sz) = arenaSpace h + sz"
  "src_zone (bumped h sz) = src_zone h" "src_next (bumped h sz) = src_next h"
  "src_bytes_left (bumped h sz) = src_bytes_left h"
  "sizeRemaining (bumped h sz) = sizeRemaining h - sz"
  "mapped_range (heap_ram (bumped h sz)) = mapped_range (heap_ram h)"
  by (simp_all add: bumped_def arenaSpace_def fun_eq_iff)

lemma bumped_keeps:
  assumes "arena_ok h" and "\<And>x. x \<in> S \<Longrightarrow> x < unat (currentArena h) \<or> unat (currentArena h) + 24 \<le> x"
  shows "keeps h (bumped h sz) S"
  using assms(2)
  by (auto simp: keeps_def bumped_def put64_outside arena_addrs(1) [OF assms(1)] dest!: assms(2))

lemma bumped_ok:
  assumes "arena_ok h" and "unat sz \<le> unat (sizeRemaining h)" and "8 dvd unat sz"
  shows "arena_ok (bumped h sz)" and "unat (arenaSpace h + sz) = unat (arenaSpace h) + unat sz"
proof -
  have lt: "unat (arenaSpace h) + unat sz < 2 ^ 64"
    using assms by (simp add: arena_ok_def source_ok_def)
  then show *: "unat (arenaSpace h + sz) = unat (arenaSpace h) + unat sz"
    by (simp add: unat_add_small)
  have "unat (sizeRemaining h - sz) = unat (sizeRemaining h) - unat sz"
    using assms(2) by (rule unat_sub_le)
  then show "arena_ok (bumped h sz)"
    using assms by (simp add: arena_ok_def source_ok_def *)
qed


section \<open>Getting an arena\<close>

text \<open>The state after the source layer has given \<open>n\<close> bytes.\<close>

lemma source_malloc_zone:
  assumes "source_ok h"
  shows "source_malloc os n h =
    (if unat n < unat (src_bytes_left h)
     then Inr (src_next h, h\<lparr>src_next := src_next h + n, src_bytes_left := src_bytes_left h - n\<rparr>)
     else Inl Enomem)"
  using assms by (simp add: source_malloc_def seq_def source_ok_def word_less_nat_alt)

lemma source_mmap_ok:
  assumes "mmap_spec os" and "source_mmap os h = Inr ((), h')"
  shows "source_ok h'" and "src_next h' = src_zone h'" and "src_bytes_left h' = ZONE_SZ"
    and "mapped (heap_ram h') = (unat (src_zone h'), 33554432) # mapped (heap_ram h)"
    and "currentArena h' = currentArena h" and "pastArenas h' = pastArenas h"
proof -
  from assms(2) obtain z where z: "os_mmap os (heap_ram h) (get_heap_location (os_end os) (src_purpose h)) ZONE_SZ = Some z"
    and h': "h' = h\<lparr>heap_ram := map_zeroed (heap_ram h) (unat z) (unat ZONE_SZ),
                    src_zone := z, src_next := z, src_bytes_left := ZONE_SZ\<rparr>"
    by (auto simp: source_mmap_def split: option.splits)
  have zsz: "unat ZONE_SZ = 33554432"
    by (simp add: ZONE_SZ_def)
  from assms(1) z have a: "z \<noteq> 0" "4096 dvd unat z" "unat z + 33554432 < 2 ^ 64"
    unfolding mmap_spec_def zsz [symmetric] by blast+
  have "8 dvd unat z"
    by (rule dvd_trans [OF _ a(2)]) simp
  then show "source_ok h'"
    using a by (simp add: h' source_ok_def zsz mapped_range_map_zeroed)
  show "src_next h' = src_zone h'" "src_bytes_left h' = ZONE_SZ"
    "mapped (heap_ram h') = (unat (src_zone h'), 33554432) # mapped (heap_ram h)"
    "currentArena h' = currentArena h" "pastArenas h' = pastArenas h"
    by (simp_all add: h' zsz map_zeroed_mapped)
qed

lemma source_mmap_result: "source_mmap os h = Inl e \<Longrightarrow> e = Enomem"
  by (simp add: source_mmap_def split: option.splits)


definition with_arena :: "'a zone_heap_scheme \<Rightarrow> 'a zone_heap_scheme" where
  "with_arena h =
     (let a = src_next h
      in h\<lparr>heap_ram := put64 (put64 (heap_ram h) (a + 8) (a + 24)) a 0,
           src_next := a + 16392, src_bytes_left := src_bytes_left h - 16392,
           sizeRemaining := ChunkSize, currentArena := a\<rparr>)"

lemma src_next_addrs:
  assumes "source_ok h" and "16392 < unat (src_bytes_left h)"
  shows "k \<le> 16392 \<Longrightarrow> unat (src_next h + of_nat k) = unat (src_next h) + k"
    and "mapped_range (heap_ram h) (unat (src_next h)) 16392"
    and "src_next h \<noteq> 0"
proof -
  show "unat (src_next h + of_nat k) = unat (src_next h) + k" if "k \<le> 16392"
  proof -
    have "unat (of_nat k :: u64) = k"
      by (rule of_nat_inverse [OF refl]) (use that in simp)
    then show ?thesis
      using assms that by (subst unat_add_small) (auto simp: source_ok_def)
  qed
  have "mapped_range (heap_ram h) (unat (src_zone h)) 33554432"
    using assms by (simp add: source_ok_def)
  then show "mapped_range (heap_ram h) (unat (src_next h)) 16392"
    by (rule mapped_range_sub) (use assms in \<open>auto simp: source_ok_def\<close>)
  have "unat (src_zone h) \<noteq> 0"
    using assms by (simp add: source_ok_def unat_eq_zero)
  then show "src_next h \<noteq> 0"
    using assms(1) by (auto simp: source_ok_def)
qed

lemmas src_next_8_24 = src_next_addrs(1) [of _ 8, simplified] src_next_addrs(1) [of _ 24, simplified]
  src_next_addrs(1) [of _ 16392, simplified]

lemma with_arena_ok:
  assumes "source_ok h" and "16392 < unat (src_bytes_left h)"
  shows "arena_ok (with_arena h)" and "currentArena (with_arena h) = src_next h"
    and "sizeRemaining (with_arena h) = ChunkSize"
    and "unat (arenaSpace (with_arena h)) = unat (src_next h) + 24"
    and "(\<And>x. x \<in> S \<Longrightarrow> x < unat (src_next h)) \<Longrightarrow> keeps h (with_arena h) S"
proof -
  note a = src_next_8_24 [OF assms]
  have sp: "arenaSpace (with_arena h) = src_next h + 24"
    by (simp add: arenaSpace_def with_arena_def Let_def get64_put64_apart a)
  then show sp': "unat (arenaSpace (with_arena h)) = unat (src_next h) + 24"
    by (simp add: a)
  show cur: "currentArena (with_arena h) = src_next h"
    and rem: "sizeRemaining (with_arena h) = ChunkSize"
    by (simp_all add: with_arena_def Let_def)
  have zn: "src_zone (with_arena h) = src_zone h"
    by (simp add: with_arena_def Let_def)
  have bl: "unat (src_bytes_left h - 16392) = unat (src_bytes_left h) - 16392"
    using assms(2) by (subst unat_sub_le) auto
  have "source_ok (with_arena h)"
    using assms by (simp add: source_ok_def with_arena_def Let_def a bl)
  moreover have "unat (src_next h) + 24 + unat ChunkSize = unat (src_next (with_arena h))"
    by (simp add: with_arena_def Let_def a ChunkSize_def)
  moreover have "8 dvd unat (src_next h)" and "unat (src_zone h) \<le> unat (src_next h)"
    using assms(1) by (auto simp: source_ok_def)
  ultimately show "arena_ok (with_arena h)"
    using src_next_addrs(3) [OF assms]
    by (simp add: arena_ok_def cur rem sp' zn)
  show "keeps h (with_arena h) S" if "\<And>x. x \<in> S \<Longrightarrow> x < unat (src_next h)"
    using that by (auto simp: keeps_def with_arena_def Let_def put64_outside a dest!: that)
qed

definition retired :: "'a zone_heap_scheme \<Rightarrow> 'a zone_heap_scheme" where
  "retired h =
     (if currentArena h \<noteq> 0
      then h\<lparr>heap_ram := put64 (heap_ram h) (currentArena h) (pastArenas h),
             pastArenas := currentArena h\<rparr>
      else h)"

lemma zone_newArena_run:
  assumes "currentArena h \<noteq> 0 \<Longrightarrow> arena_ok h" and "unat sz \<le> 16368"
    and "(if src_zone h = 0 then source_mmap os else ok ()) (retired h) = Inr ((), h1)"
    and "source_ok h1"
  shows "zone_newArena os sz h =
    (if 16392 < unat (src_bytes_left h1) then Inr (True, with_arena h1) else Inl Enomem)"
proof -
  have first: "zone_retire h = Inr ((), retired h)"
  proof (cases "currentArena h = 0")
    case True
    then show ?thesis by (simp add: retired_def zone_retire_def)
  next
    case False
    have "mapped_range (heap_ram h) (unat (currentArena h)) 8"
      by (rule mapped_range_sub [OF arena_addrs(2) [OF assms(1) [OF False]]]) auto
    with False show ?thesis by (simp add: retired_def zone_retire_def)
  qed
  have z: "src_zone (retired h) = src_zone h"
    by (simp add: retired_def)
  have n: "(if ChunkSize < sz then sz else ChunkSize) + sizeof_Arena = 16392"
    using assms(2) by (auto simp: ChunkSize_def sizeof_Arena_def word_less_nat_alt)
  have src: "source_malloc os 16392 (retired h) =
      (if 16392 < unat (src_bytes_left h1)
       then Inr (src_next h1, h1\<lparr>src_next := src_next h1 + 16392, src_bytes_left := src_bytes_left h1 - 16392\<rparr>)
       else Inl Enomem)"
    using assms(3) z
    by (auto simp: source_malloc_def word_less_nat_alt split: if_splits intro!: seq_Inr)
  show ?thesis
  proof (cases "16392 < unat (src_bytes_left h1)")
    case False
    then show ?thesis
      unfolding zone_newArena_def n
      by (simp add: first src)
  next
    case True
    note a = src_next_8_24 [OF assms(4) True]
    have m: "mapped_range (heap_ram h1) (unat (src_next h1)) 8"
      "mapped_range (heap_ram h1) (unat (src_next h1) + 8) 8"
      by (rule mapped_range_sub [OF src_next_addrs(2) [OF assms(4) True]]; simp)+
    show ?thesis
      unfolding zone_newArena_def n
      using True src_next_addrs(3) [OF assms(4) True]
      by (simp add: first src a m with_arena_def Let_def sizeof_Arena_def)
  qed
qed


lemma more_same [simp]:
  "zone_heap.more (bumped h sz) = zone_heap.more h"
  "zone_heap.more (with_arena h) = zone_heap.more h"
  "zone_heap.more (retired h) = zone_heap.more h"
  by (simp_all add: bumped_def with_arena_def retired_def Let_def)

lemma source_mmap_more: "source_mmap os h = Inr ((), h') \<Longrightarrow> zone_heap.more h' = zone_heap.more h"
  by (auto simp: source_mmap_def split: option.splits)

section \<open>Cutting a piece from the arena\<close>

text \<open>
  \<open>carved h h' B p n\<close>: \<open>n\<close> fresh bytes at \<open>p\<close> were taken out of the current arena of \<open>h'\<close>, above
  every block of \<open>B\<close>, and no byte of these blocks changed.
\<close>

definition carved :: "'a zone_heap_scheme \<Rightarrow> 'a zone_heap_scheme \<Rightarrow> u64 set \<Rightarrow> u64 \<Rightarrow> nat \<Rightarrow> bool" where
  "carved h h' B p n \<longleftrightarrow>
     arena_ok h' \<and> keeps h h' (\<Union>q \<in> B. blkRange h q) \<and> zone_heap.more h' = zone_heap.more h \<and>
     unat (arenaSpace h') = unat p + n \<and> unat (currentArena h') + 24 \<le> unat p \<and> 8 dvd unat p \<and>
     (\<forall>q \<in> B. blkHi h q \<le> unat p \<and>
        (blkHi h q \<le> unat (currentArena h') \<or> unat (currentArena h') + 24 \<le> blkLo q))"

lemma bump_carved:
  assumes "arena_ok h" and "below_arena h B" and "unat sz \<le> unat (sizeRemaining h)" and "8 dvd unat sz"
  shows "carved h (bumped h sz) B (arenaSpace h) (unat sz)"
proof -
  have "keeps h (bumped h sz) (\<Union>q \<in> B. blkRange h q)"
    by (rule bumped_keeps [OF assms(1)])
      (use assms(2) in \<open>fastforce simp: below_arena_def blkRange_def\<close>)
  then show ?thesis
    using bumped_ok [OF assms(1,3,4)] assms(1,2)
    by (simp add: carved_def below_arena_def arena_ok_def)
qed

lemma carved_after_keeps:
  assumes "carved h1 h' B p n" and "keeps h h1 (\<Union>q \<in> B. blkRange h q)" and "blocks_ok h B"
    and "zone_heap.more h1 = zone_heap.more h"
  shows "carved h h' B p n"
proof -
  note b = keeps_blocks_ok [OF assms(2,3)]
  have "blkRange h1 q = blkRange h q" if "q \<in> B" for q
    using b(2) [OF that] by (simp add: blkRange_def)
  then have "(\<Union>q \<in> B. blkRange h1 q) = (\<Union>q \<in> B. blkRange h q)"
    by simp
  then show ?thesis
    using assms b(2) by (auto simp: carved_def intro: keeps_trans)
qed

lemma newArena_carvable:
  assumes os: "mmap_spec os" and B: "blocks_ok h B" "arenas_ok h B" and sz: "unat sz \<le> 16368"
  shows "zone_newArena os sz h = Inl Enomem \<or>
    (\<exists>h'. zone_newArena os sz h = Inr (True, h') \<and> arena_ok h' \<and> below_arena h' B \<and>
       keeps h h' (\<Union>q \<in> B. blkRange h q) \<and> sizeRemaining h' = ChunkSize \<and>
       zone_heap.more h' = zone_heap.more h)"
proof (cases "currentArena h = 0")
  case True
  then have z: "src_zone h = 0" and e: "B = {}" and r: "retired h = h"
    using B(2) by (simp_all add: arenas_ok_def retired_def)
  show ?thesis
  proof (cases "source_mmap os h")
    case (Inl e)
    then have "e = Enomem" by (rule source_mmap_result)
    with Inl z show ?thesis
      by (simp add: zone_newArena_def zone_retire_def source_malloc_def True)
  next
    case (Inr u)
    then obtain h1 where h1: "source_mmap os h = Inr ((), h1)"
      by (cases u) auto
    note ok = source_mmap_ok [OF os h1]
    have big: "16392 < unat (src_bytes_left h1)"
      by (simp add: ok(3) ZONE_SZ_def)
    have "zone_newArena os sz h = Inr (True, with_arena h1)"
      using zone_newArena_run [of h sz os h1] True h1 z r ok(1) sz big by simp
    moreover have "keeps h (with_arena h1) {}"
      using ok(4) by (auto simp: keeps_def with_arena_def Let_def)
    ultimately show ?thesis
      using with_arena_ok [OF ok(1) big] e
      by (simp add: below_arena_def source_mmap_more [OF h1])
  qed
next
  case False
  then have a: "arena_ok h" "below_arena h B"
    using B(2) by (simp_all add: arenas_ok_def)
  define h1 where "h1 = retired h"
  have s1: "source_ok h1" and z: "src_zone h \<noteq> 0" and nx: "src_next h1 = src_next h"
    using a(1) False by (auto simp: arena_ok_def source_ok_def h1_def retired_def)
  have run: "zone_newArena os sz h =
      (if 16392 < unat (src_bytes_left h1) then Inr (True, with_arena h1) else Inl Enomem)"
    by (rule zone_newArena_run) (use a s1 z sz in \<open>simp_all add: h1_def\<close>)
  show ?thesis
  proof (cases "16392 < unat (src_bytes_left h1)")
    case True
    note w = with_arena_ok [OF s1 True]
    have k1: "keeps h h1 (\<Union>q \<in> B. blkRange h q)"
      using a(2) by (fastforce simp: keeps_def h1_def retired_def below_arena_def blkRange_def
          intro!: put64_outside)
    have top: "blkHi h q \<le> unat (src_next h)" if "q \<in> B" for q
      using a that by (fastforce simp: below_arena_def arena_ok_def)
    have k2: "keeps h1 (with_arena h1) (\<Union>q \<in> B. blkRange h q)"
      by (rule w(5)) (use top in \<open>fastforce simp: blkRange_def nx\<close>)
    note k = keeps_trans [OF k1 k2]
    have "below_arena (with_arena h1) B"
      using top keeps_blocks_ok(2) [OF k B(1)] w(2,4) nx by (fastforce simp: below_arena_def)
    then show ?thesis
      using run True w(1,3) k by (simp add: h1_def)
  qed (use run in simp)
qed

lemma zone_malloc_spec:
  assumes os: "mmap_spec os" and B: "blocks_ok h B" "arenas_ok h B" and sz: "unat sz \<le> 16368"
  shows "zone_malloc os sz h = Inl Enomem \<or>
    (\<exists>p h'. zone_malloc os sz h = Inr (p, h') \<and> carved h h' B p (up8 (unat sz)))"
proof -
  let ?sz = "zone_align sz"
  have n: "unat ?sz = up8 (unat sz)"
    using sz by (intro unat_zone_align) simp
  have le: "unat ?sz \<le> 16368"
    using up8_mono [OF sz] by (simp add: n up8_def)
  show ?thesis
  proof (cases "currentArena h = 0 \<or> sizeRemaining h < ?sz")
    case True
    then have run: "zone_malloc os sz h =
        seq (zone_newArena os ?sz) (\<lambda>got. if got then zone_bump ?sz else ok 0) h"
      by (simp add: zone_malloc_def zoneMalloc_def Let_def seq_def)
    from newArena_carvable [OF os B le] show ?thesis
    proof (elim disjE exE conjE)
      assume "zone_newArena os ?sz h = Inl Enomem"
      then show ?thesis by (simp add: run)
    next
      fix h1
      assume h1: "zone_newArena os ?sz h = Inr (True, h1)" "arena_ok h1" "below_arena h1 B"
        "keeps h h1 (\<Union>q \<in> B. blkRange h q)" "sizeRemaining h1 = ChunkSize"
        "zone_heap.more h1 = zone_heap.more h"
      have "carved h1 (bumped h1 ?sz) B (arenaSpace h1) (unat ?sz)"
        by (rule bump_carved) (use h1 le in \<open>simp_all add: ChunkSize_def n up8_dvd\<close>)
      then have "carved h (bumped h1 ?sz) B (arenaSpace h1) (unat ?sz)"
        by (rule carved_after_keeps) (use h1 B in auto)
      then show ?thesis
        using h1 zone_bump_run [OF h1(2)] by (simp add: run n)
    qed
  next
    case False
    then have a: "arena_ok h" "below_arena h B" and fits: "unat ?sz \<le> unat (sizeRemaining h)"
      using B(2) by (simp_all add: arenas_ok_def word_less_nat_alt)
    have "carved h (bumped h ?sz) B (arenaSpace h) (unat ?sz)"
      by (rule bump_carved [OF a fits]) (simp add: n up8_dvd)
    then show ?thesis
      using False zone_bump_run [OF a(1)] by (simp add: zone_malloc_def zoneMalloc_def Let_def n)
  qed
qed


section \<open>When memory runs out\<close>

text \<open>
  The process ends with \<open>ENOMEM\<close> only when the kernel gives no zone, or when the current arena is
  too small for the request and the zone has no room for another arena.
\<close>

definition exhausted :: "os \<Rightarrow> 'a zone_heap_scheme \<Rightarrow> nat \<Rightarrow> bool" where
  "exhausted os h n \<longleftrightarrow>
     (if currentArena h = 0
      then os_mmap os (heap_ram h) (get_heap_location (os_end os) (src_purpose h)) ZONE_SZ = None
      else unat (sizeRemaining h) < n \<and> unat (src_bytes_left h) \<le> 16392)"

lemma newArena_enomem:
  assumes os: "mmap_spec os" and B: "arenas_ok h B" and sz: "unat sz \<le> 16368"
    and e: "zone_newArena os sz h = Inl Enomem"
  shows "if currentArena h = 0
    then os_mmap os (heap_ram h) (get_heap_location (os_end os) (src_purpose h)) ZONE_SZ = None
    else unat (src_bytes_left h) \<le> 16392"
proof (cases "currentArena h = 0")
  case True
  then have z: "src_zone h = 0" and r: "retired h = h"
    using B by (simp_all add: arenas_ok_def retired_def)
  have False if h1: "source_mmap os h = Inr ((), h1)" for h1
  proof -
    note ok = source_mmap_ok [OF os h1]
    have "16392 < unat (src_bytes_left h1)"
      by (simp add: ok(3) ZONE_SZ_def)
    then show False
      using zone_newArena_run [of h sz os h1] True h1 z r ok(1) sz e by simp
  qed
  then show ?thesis
    using True
    by (cases "os_mmap os (heap_ram h) (get_heap_location (os_end os) (src_purpose h)) ZONE_SZ")
      (simp_all add: source_mmap_def)
next
  case False
  then have a: "arena_ok h"
    using B by (simp add: arenas_ok_def)
  have s: "source_ok (retired h)" "src_bytes_left (retired h) = src_bytes_left h"
    and z: "src_zone h \<noteq> 0"
    using a False by (auto simp: arena_ok_def source_ok_def retired_def)
  have "zone_newArena os sz h =
      (if 16392 < unat (src_bytes_left (retired h)) then Inr (True, with_arena (retired h)) else Inl Enomem)"
    by (rule zone_newArena_run) (use a s z sz in simp_all)
  then show ?thesis
    using e False s(2) by (simp split: if_splits)
qed

lemma zone_malloc_enomem:
  assumes os: "mmap_spec os" and B: "blocks_ok h B" "arenas_ok h B" and sz: "unat sz \<le> 16368"
    and e: "zone_malloc os sz h = Inl Enomem"
  shows "exhausted os h (up8 (unat sz))"
proof -
  let ?sz = "zone_align sz"
  have n: "unat ?sz = up8 (unat sz)"
    using sz by (intro unat_zone_align) simp
  have le: "unat ?sz \<le> 16368"
    using up8_mono [OF sz] by (simp add: n up8_def)
  have full: "currentArena h = 0 \<or> sizeRemaining h < ?sz"
  proof (rule ccontr)
    assume c: "\<not> ?thesis"
    then have "arena_ok h"
      using B(2) by (simp add: arenas_ok_def)
    from zone_bump_run [OF this] show False
      using c e by (simp add: zone_malloc_def zoneMalloc_def Let_def)
  qed
  have "zone_newArena os ?sz h = Inl Enomem"
    using newArena_carvable [OF os B le]
  proof (elim disjE exE conjE)
    fix h1
    assume h1: "zone_newArena os ?sz h = Inr (True, h1)" "arena_ok h1"
    show ?thesis
      using e full h1(1) zone_bump_run [OF h1(2)]
      by (simp add: zone_malloc_def zoneMalloc_def Let_def seq_def)
  qed
  from newArena_enomem [OF os B(2) le this] show ?thesis
    using full by (auto simp: exhausted_def word_less_nat_alt n split: if_splits)
qed

end
