(* ===== verification/SizeInv.thy ===== *)
theory SizeInv
  imports ZoneInv
begin

text \<open>
  What the size layer adds: a block with its header, apart from every block there was, and the
  invariant with it.
\<close>

lemma insert_block:
  assumes "carved h h1 B p0 (up8 (unat sz) + 16)" and B: "blocks_ok h B"
    and sz: "1 \<le> unat sz" "unat sz \<le> 16352"
  defines "h' \<equiv> h1\<lparr>heap_ram := put64 (heap_ram h1) (p0 + 8) sz\<rparr>"
  shows "heap_store (p0 + 8) sz h1 = Inr ((), h')"
    and "blkSize h' (p0 + 16) = sz" and "blocks_ok h' (insert (p0 + 16) B)"
    and "arenas_ok h' (insert (p0 + 16) B)" and "p0 + 16 \<notin> B" and "p0 + 16 \<noteq> 0"
    and "keeps h h' (\<Union>q \<in> B. blkRange h q)" and "zone_heap.more h' = zone_heap.more h"
proof -
  let ?n = "up8 (unat sz)"
  note c = assms(1) [unfolded carved_def]
  have n: "8 \<le> ?n"
    using sz(1) by (rule up8_pos)
  have ok1: "arena_ok h1" and sp: "unat (arenaSpace h1) = unat p0 + (?n + 16)"
    and cur: "unat (currentArena h1) + 24 \<le> unat p0" and k1: "keeps h h1 (\<Union>q \<in> B. blkRange h q)"
    and top: "\<And>q. q \<in> B \<Longrightarrow> blkHi h q \<le> unat p0"
    using c by auto
  have lt: "unat p0 + (?n + 16) < 2 ^ 64"
    using unat_lt_64 [of "arenaSpace h1"] sp by simp
  have p8: "unat (p0 + 8) = unat p0 + 8" and p16: "unat (p0 + 16) = unat p0 + 16"
    using lt by (subst unat_add_small; simp)+
  have zone: "unat (src_zone h1) \<le> unat p0"
    using ok1 cur by (simp add: arena_ok_def)
  have "mapped_range (heap_ram h1) (unat (src_zone h1)) 33554432"
    using ok1 by (simp add: arena_ok_def source_ok_def)
  then have m: "mapped_range (heap_ram h1) (unat p0) (?n + 16)"
    by (rule mapped_range_sub) (use zone sp arena_addrs(3) [OF ok1] in simp_all)
  show "heap_store (p0 + 8) sz h1 = Inr ((), h')"
    unfolding h'_def by (rule heap_store_ok) (rule mapped_range_sub [OF m], use n p8 in auto)
  have k2: "keeps h1 h' (\<Union>q \<in> B. blkRange h q)"
    using top by (fastforce simp: keeps_def h'_def blkRange_def p8 intro!: put64_outside)
  show k: "keeps h h' (\<Union>q \<in> B. blkRange h q)"
    by (rule keeps_trans [OF k1 k2])
  note b = keeps_blocks_ok [OF k B]
  have hd: "p0 + 16 - 8 = p0 + (8 :: u64)"
    by (simp add: algebra_simps)
  show size: "blkSize h' (p0 + 16) = sz"
    unfolding blkSize_def h'_def hd by simp
  have lo: "blkLo (p0 + 16) = unat p0" and hi: "blkHi h' (p0 + 16) = unat p0 + (?n + 16)"
    by (simp_all add: blkLo_def blkHi_def size p16)
  have new: "block_ok h' (p0 + 16)"
  proof -
    have "mapped_range (heap_ram h') (unat p0) (?n + 16)"
      using m by (simp add: h'_def)
    then show ?thesis
      using c sz by (simp add: block_ok_def size lo p16)
  qed
  have "blkLo q < blkHi h q" if "q \<in> B" for q
    using B that up8_pos [of "unat (blkSize h q)"]
    by (fastforce simp: blocks_ok_def block_ok_def blkLo_def blkHi_def)
  then show notin: "p0 + 16 \<notin> B"
    using top [of "p0 + 16"] by (fastforce simp: lo)
  show "p0 + 16 \<noteq> 0"
    using p16 by auto
  have "blocks_apart h' q (p0 + 16)" if "q \<in> B" for q
    using top [OF that] b(2) [OF that] by (simp add: blocks_apart_def lo)
  then show "blocks_ok h' (insert (p0 + 16) B)"
    using b(1) new by (auto simp: blocks_ok_def blocks_apart_def)
  have sp': "arenaSpace h' = arenaSpace h1"
    using cur by (simp add: arenaSpace_def h'_def get64_put64_apart p8 arena_addrs(1) [OF ok1])
  have "arena_ok h'"
    using ok1 sp' by (simp add: arena_ok_def source_ok_def h'_def)
  moreover have "below_arena h' (insert (p0 + 16) B)"
  proof -
    have "currentArena h' = currentArena h1"
      by (simp add: h'_def)
    then show ?thesis
      using c b(2) cur by (fastforce simp: below_arena_def sp' sp hi lo)
  qed
  ultimately show "arenas_ok h' (insert (p0 + 16) B)"
    by (simp add: arenas_ok_def arena_ok_def)
  show "zone_heap.more h' = zone_heap.more h"
    using c by (simp add: h'_def)
qed

lemma size_malloc_spec:
  assumes os: "mmap_spec os" and B: "blocks_ok h B" "arenas_ok h B"
    and sz: "1 \<le> unat sz" "unat sz \<le> 16352"
  shows "size_malloc os sz h = Inl Enomem \<or>
    (\<exists>p h'. size_malloc os sz h = Inr (p, h') \<and> p \<noteq> 0 \<and> p \<notin> B \<and> blkSize h' p = sz \<and>
       blocks_ok h' (insert p B) \<and> arenas_ok h' (insert p B) \<and>
       keeps h h' (\<Union>q \<in> B. blkRange h q) \<and> zone_heap.more h' = zone_heap.more h)"
proof -
  have s16: "unat (sz + 16) = unat sz + 16"
    using sz by (subst unat_add_small) auto
  have n: "up8 (unat (sz + 16)) = up8 (unat sz) + 16"
    unfolding s16 by (rule up8_add_8k) simp
  have "unat (sz + 16) \<le> 16368"
    using sz by (simp add: s16)
  from zone_malloc_spec [OF os B this] show ?thesis
    unfolding n
  proof (elim disjE exE conjE)
    assume "zone_malloc os (sz + 16) h = Inl Enomem"
    then show ?thesis by (simp add: size_malloc_def)
  next
    fix p0 h1
    assume z: "zone_malloc os (sz + 16) h = Inr (p0, h1)"
      and c: "carved h h1 B p0 (up8 (unat sz) + 16)"
    note i = insert_block [OF c B(1) sz]
    show ?thesis
      using i z by (auto simp: size_malloc_def)
  qed
qed


lemma size_malloc_enomem:
  assumes os: "mmap_spec os" and B: "blocks_ok h B" "arenas_ok h B"
    and sz: "1 \<le> unat sz" "unat sz \<le> 16352" and e: "size_malloc os sz h = Inl Enomem"
  shows "exhausted os h (up8 (unat sz) + 16)"
proof -
  have s16: "unat (sz + 16) = unat sz + 16"
    using sz by (subst unat_add_small) auto
  have n: "up8 (unat (sz + 16)) = up8 (unat sz) + 16"
    unfolding s16 by (rule up8_add_8k) simp
  have le: "unat (sz + 16) \<le> 16368"
    using sz by (simp add: s16)
  have "zone_malloc os (sz + 16) h = Inl Enomem"
    using zone_malloc_spec [OF os B le]
  proof (elim disjE exE conjE)
    fix p0 h1
    assume "zone_malloc os (sz + 16) h = Inr (p0, h1)"
      and c: "carved h h1 B p0 (up8 (unat (sz + 16)))"
    then show ?thesis
      using e insert_block(1) [OF c [unfolded n] B(1) sz] by (simp add: size_malloc_def)
  qed
  from zone_malloc_enomem [OF os B le this] show ?thesis
    by (simp add: n)
qed

end
