(* ===== verification/FirstFitInv.thy ===== *)
theory FirstFitInv
  imports SizeInv
begin

text \<open>
  The first-fit layer: what its two list walks find on a well-formed free list, and that \<open>malloc\<close>
  and \<open>free\<close> keep the heap well-formed and the contents of every other block.
\<close>

section \<open>The two walks\<close>

definition head_or_null :: "u64 list \<Rightarrow> u64" where
  "head_or_null xs = (case xs of [] \<Rightarrow> 0 | x # _ \<Rightarrow> x)"

lemma chain_head: "chain nxt 0 p fl \<Longrightarrow> p = head_or_null fl"
  by (cases fl) (auto simp: head_or_null_def)

lemma ff_search_chain:
  fixes r :: ram and sz prev p :: u64
  assumes "chain (get64 r) 0 p fl"
    and "\<And>x. x \<in> set fl \<Longrightarrow> mapped_range r (unat x) 8 \<and> mapped_range r (unat (x - 8)) 8"
  defines "small \<equiv> \<lambda>x. get64 r (x - 8) < sz"
  shows "ff_search r sz prev p =
    Some (Inr (last (prev # takeWhile small fl), head_or_null (dropWhile small fl)))"
  using assms(1,2)
proof (induction fl arbitrary: p prev)
  case Nil
  then show ?case by (simp add: ff_search.simps head_or_null_def)
next
  case (Cons x xs)
  have at: "x - 16 + 8 = x - (8 :: u64)"
    by (simp add: algebra_simps)
  have x: "p = x" "x \<noteq> 0" "chain (get64 r) 0 (get64 r x) xs"
    using Cons.prems(1) by simp_all
  show ?case
  proof (cases "small x")
    case True
    then show ?thesis
      using x Cons.prems Cons.IH [OF x(3), of x]
      by (subst ff_search.simps) (simp add: small_def at)
  next
    case False
    then show ?thesis
      using x Cons.prems by (subst ff_search.simps) (simp add: small_def at head_or_null_def)
  qed
qed

lemma ff_place_chain:
  assumes "chain (get64 r) 0 p fl" and "\<And>x. x \<in> set fl \<Longrightarrow> mapped_range r (unat x) 8"
  shows "ff_place r ptr prev p = Some (Inr (last (prev # takeWhile (\<lambda>x. x \<le> ptr) fl)))"
  using assms
proof (induction fl arbitrary: p prev)
  case Nil
  then show ?case by (simp add: ff_place.simps)
next
  case (Cons x xs)
  have x: "p = x" "x \<noteq> 0" "chain (get64 r) 0 (get64 r x) xs"
    using Cons.prems(1) by simp_all
  show ?case
    using x Cons.prems Cons.IH [OF x(3), of x]
    by (cases "x \<le> ptr") (subst ff_place.simps, simp)+
qed

lemma ff_releaseAll_chain:
  assumes "chain (get64 r) 0 p fl" and "\<And>x. x \<in> set fl \<Longrightarrow> mapped_range r (unat x) 8"
  shows "ff_releaseAll r p = Some (Inr ())"
  using assms
proof (induction fl arbitrary: p)
  case Nil
  then show ?case by (simp add: ff_releaseAll.simps)
next
  case (Cons x xs)
  then show ?case by (subst ff_releaseAll.simps) simp
qed

section \<open>Fields above the zone\<close>

text \<open>The lower layers do not look at the fields of the first-fit layer and the lock.\<close>

lemma upper_fields [simp]:
  "blkSize (myFreeList_update f h) p = blkSize h p"
  "blkSize (nObjects_update g h) p = blkSize h p"
  "blkHi (myFreeList_update f h) p = blkHi h p"
  "blkHi (nObjects_update g h) p = blkHi h p"
  "blkRange (myFreeList_update f h) p = blkRange h p"
  "blkRange (nObjects_update g h) p = blkRange h p"
  "blocks_ok (myFreeList_update f h) B = blocks_ok h B"
  "blocks_ok (nObjects_update g h) B = blocks_ok h B"
  "arenas_ok (myFreeList_update f h) B = arenas_ok h B"
  "arenas_ok (nObjects_update g h) B = arenas_ok h B"
  "keeps h' (myFreeList_update f h) S = keeps h' h S"
  "keeps h' (nObjects_update g h) S = keeps h' h S"
  "keeps (nObjects_update g h) h' S = keeps h h' S"
  by (simp_all add: blkSize_def blkHi_def blkRange_def blocks_ok_def block_ok_def blocks_apart_def
      arenas_ok_def arena_ok_def source_ok_def below_arena_def arenaSpace_def keeps_def)

lemma zone_more_fields:
  fixes h h' :: "'a firstfit_heap_scheme"
  assumes "zone_heap.more h' = zone_heap.more h"
  shows "myFreeList h' = myFreeList h" and "nObjects h' = nObjects h"
    and "firstfit_heap.more h' = firstfit_heap.more h"
  using assms by (cases h; cases h'; simp)+

section \<open>Facts about well-formed heaps\<close>

lemma heap_wf_cells:
  assumes "heap_wf h live fl"
  shows "\<And>x. x \<in> set live \<union> set fl \<Longrightarrow> mapped_range (heap_ram h) (unat x) 8"
    and "\<And>x. x \<in> set live \<union> set fl \<Longrightarrow> mapped_range (heap_ram h) (unat (x - 8)) 8"
    and "\<And>x y. x \<in> set live \<union> set fl \<Longrightarrow> y \<in> set live \<union> set fl \<Longrightarrow> x \<noteq> y \<Longrightarrow> apart64 x y"
    and "\<And>x. x \<in> set live \<union> set fl \<Longrightarrow> x \<noteq> 0"
proof -
  have b: "blocks_ok h (set live \<union> set fl)"
    using assms by (simp add: heap_wf_def)
  show "mapped_range (heap_ram h) (unat x) 8" "mapped_range (heap_ram h) (unat (x - 8)) 8"
    if "x \<in> set live \<union> set fl" for x
    using put64_payload_write(2,3) [OF b that] by simp_all
  show "apart64 x y" if "x \<in> set live \<union> set fl" "y \<in> set live \<union> set fl" "x \<noteq> y" for x y
    by (rule blocks_apart64 [OF b that])
  show "x \<noteq> 0" if "x \<in> set live \<union> set fl" for x
  proof -
    have "16 \<le> unat x"
      using b that by (simp add: blocks_ok_def block_ok_def)
    then show ?thesis by auto
  qed
qed

text \<open>A write into one block of a well-formed heap, with the list it leaves.\<close>

lemma heap_wf_write:
  fixes h :: "'a firstfit_heap_scheme" and p v :: u64
  assumes wf: "heap_wf h live fl" and p: "p \<in> set live \<union> set fl"
  defines "h' \<equiv> h\<lparr>heap_ram := put64 (heap_ram h) p v\<rparr>"
  shows "heap_store p v h = Inr ((), h')"
    and "blocks_ok h' (set live \<union> set fl)" and "arenas_ok h' (set live \<union> set fl)"
    and "\<And>q. q \<in> set live \<union> set fl \<Longrightarrow> blkSize h' q = blkSize h q"
    and "keeps h h' (\<Union>q \<in> (set live \<union> set fl) - {p}. blkRange h q)"
proof -
  have b: "blocks_ok h (set live \<union> set fl)" "arenas_ok h (set live \<union> set fl)"
    using wf by (simp_all add: heap_wf_def)
  note w = payload_write_ok [OF put64_payload_write(1) [OF b(1) p, of v, folded h'_def] b p]
  show "heap_store p v h = Inr ((), h')"
    unfolding h'_def by (rule heap_store_ok) (rule heap_wf_cells(1) [OF wf p])
  show "blocks_ok h' (set live \<union> set fl)" "arenas_ok h' (set live \<union> set fl)"
    "\<And>q. q \<in> set live \<union> set fl \<Longrightarrow> blkSize h' q = blkSize h q"
    "keeps h h' (\<Union>q \<in> (set live \<union> set fl) - {p}. blkRange h q)"
    using w(1-4) by blast+
qed


text \<open>A write into a block of the program leaves the heap well-formed.\<close>

lemma cell_in_blkRange:
  assumes "block_ok h x"
  shows "{unat x..<unat x + 8} \<subseteq> blkRange h x"
proof -
  have "8 \<le> up8 (unat (blkSize h x))"
    using assms by (intro up8_pos) (simp add: block_ok_def)
  then show ?thesis
    by (auto simp: blkRange_def blkLo_def blkHi_def)
qed

lemma heap_wf_payload:
  fixes h h' :: "'a firstfit_heap_scheme"
  assumes wf: "heap_wf h live fl" and w: "payload_write h h' p" and p: "p \<in> set live"
  shows "heap_wf h' live fl"
    and "\<And>q. q \<in> set live \<union> set fl \<Longrightarrow> blkSize h' q = blkSize h q"
    and "keeps h h' (\<Union>q \<in> (set live \<union> set fl) - {p}. blkRange h q)"
    and "firstfit_heap.more h' = firstfit_heap.more h"
proof -
  have b: "blocks_ok h (set live \<union> set fl)" "arenas_ok h (set live \<union> set fl)"
    and pB: "p \<in> set live \<union> set fl" "p \<notin> set fl"
    using wf p by (auto simp: heap_wf_def)
  note o = payload_write_ok [OF w b pB(1)]
  show "\<And>q. q \<in> set live \<union> set fl \<Longrightarrow> blkSize h' q = blkSize h q"
    and k: "keeps h h' (\<Union>q \<in> (set live \<union> set fl) - {p}. blkRange h q)"
    using o(3,4) by blast+
  show "firstfit_heap.more h' = firstfit_heap.more h"
    by (rule zone_more_fields(3) [OF o(5)])
  have "get64 (heap_ram h) x = get64 (heap_ram h') x" if "x \<in> set fl" for x
  proof -
    have "{unat x..<unat x + 8} \<subseteq> blkRange h x"
      using b(1) that by (intro cell_in_blkRange) (simp add: blocks_ok_def)
    then show ?thesis
      using that pB(2) by (intro keeps_get64 [OF k, symmetric]) blast
  qed
  then have "chain (get64 (heap_ram h')) 0 (myFreeList h) fl"
    using wf chain_cong [of fl "get64 (heap_ram h)" "get64 (heap_ram h')"] by (simp add: heap_wf_def)
  then show "heap_wf h' live fl"
    using wf o(1,2) zone_more_fields [OF o(5)] by (simp add: heap_wf_def)
qed

section \<open>Taking a block out of the free list\<close>

lemma sorted_wrt_skip: "sorted_wrt R (xs @ y # ys) \<Longrightarrow> sorted_wrt R (xs @ ys)"
  by (auto simp: sorted_wrt_append)

text \<open>The state after the block behind \<open>xs\<close> is unlinked.\<close>

definition unlinked :: "'a firstfit_heap_scheme \<Rightarrow> u64 list \<Rightarrow> u64 \<Rightarrow> 'a firstfit_heap_scheme" where
  "unlinked h xs p =
     (if xs = [] then h\<lparr>myFreeList := get64 (heap_ram h) p, nObjects := nObjects h - 1\<rparr>
      else h\<lparr>heap_ram := put64 (heap_ram h) (last xs) (get64 (heap_ram h) p),
             nObjects := nObjects h - 1\<rparr>)"

lemma unlinked_ok:
  assumes wf: "heap_wf h live (xs @ p # ys)"
  defines "h' \<equiv> unlinked h xs p"
  shows "heap_wf h' (p # live) (xs @ ys)"
    and "\<And>q. q \<in> set live \<union> set (xs @ p # ys) \<Longrightarrow> blkSize h' q = blkSize h q"
    and "keeps h h' (\<Union>q \<in> set live. blkRange h q)"
    and "firstfit_heap.more h' = firstfit_heap.more h"
proof -
  let ?B = "set live \<union> set (xs @ p # ys)"
  have ch: "chain (get64 (heap_ram h)) 0 (myFreeList h) (xs @ p # ys)"
    and n: "nObjects h = of_nat (length (xs @ p # ys))"
    and d: "distinct (live @ xs @ p # ys)" and s: "sorted_wrt (<) (xs @ ys)"
    and b: "blocks_ok h ?B" "arenas_ok h ?B"
    using wf by (auto simp: heap_wf_def intro: sorted_wrt_skip)
  have B: "set (p # live) \<union> set (xs @ ys) = ?B"
    by auto
  have n': "nObjects h' = of_nat (length (xs @ ys))"
    using n by (simp add: h'_def unlinked_def)
  have main: "chain (get64 (heap_ram h')) 0 (myFreeList h') (xs @ ys) \<and> blocks_ok h' ?B \<and>
      arenas_ok h' ?B \<and> (\<forall>q \<in> ?B. blkSize h' q = blkSize h q) \<and> keeps h h' (\<Union>q \<in> set live. blkRange h q)"
  proof (cases "xs = []")
    case True
    then show ?thesis
      using ch b by (simp add: h'_def unlinked_def)
  next
    case False
    define pr where "pr = last xs"
    let ?v = "get64 (heap_ram h) p"
    have xs: "xs = butlast xs @ [pr]"
      using False by (simp add: pr_def)
    have pr: "pr \<in> ?B" "pr \<notin> set live"
      using d xs by (metis UnCI append_is_Nil_conv in_set_conv_decomp set_append)
        (use d False in \<open>auto simp: pr_def\<close>)
    note w = heap_wf_write [OF wf pr(1), where v = ?v]
    have dis: "distinct (butlast xs @ pr # p # ys)"
      using d xs by (metis append.assoc append_Cons append_Nil distinct_append)
    have "chain (get64 (put64 (heap_ram h) pr ?v)) 0 (myFreeList h) (butlast xs @ pr # ys)"
    proof (rule cells.chain_unlink_after)
      show "chain (get64 (heap_ram h)) 0 (myFreeList h) (butlast xs @ pr # p # ys)"
        using ch xs by (metis append.assoc append_Cons append_Nil)
      show "apart64 pr x" if "x \<in> set (butlast xs @ p # ys)" for x
        using that dis by (intro heap_wf_cells(3) [OF wf pr(1)]) (auto dest: in_set_butlastD)
    qed
    then have "chain (get64 (put64 (heap_ram h) pr ?v)) 0 (myFreeList h) (xs @ ys)"
      using xs by (metis append.assoc append_Cons append_Nil)
    moreover have "keeps h (h\<lparr>heap_ram := put64 (heap_ram h) pr ?v\<rparr>) (\<Union>q \<in> set live. blkRange h q)"
      using pr(2) by (intro keeps_subset [OF w(5)]) auto
    ultimately show ?thesis
      using w(2-4) False by (simp add: h'_def unlinked_def pr_def)
  qed
  show "heap_wf h' (p # live) (xs @ ys)"
    unfolding heap_wf_def B using main n' d s by auto
  show "blkSize h' q = blkSize h q" if "q \<in> ?B" for q
    using main that by blast
  show "keeps h h' (\<Union>q \<in> set live. blkRange h q)"
    using main by simp
  show "firstfit_heap.more h' = firstfit_heap.more h"
    by (simp add: h'_def unlinked_def)
qed


section \<open>malloc\<close>

lemma heap_wf_grow:
  fixes h h' :: "'a firstfit_heap_scheme"
  assumes wf: "heap_wf h live fl" and new: "p \<notin> set live \<union> set fl"
    and b: "blocks_ok h' (insert p (set live \<union> set fl))"
      "arenas_ok h' (insert p (set live \<union> set fl))"
    and k: "keeps h h' (\<Union>q \<in> set live \<union> set fl. blkRange h q)"
    and m: "zone_heap.more h' = zone_heap.more h"
  shows "heap_wf h' (p # live) fl"
proof -
  have "get64 (heap_ram h) x = get64 (heap_ram h') x" if "x \<in> set fl" for x
  proof (rule sym, rule keeps_get64 [OF k])
    have "{unat x..<unat x + 8} \<subseteq> blkRange h x"
      using wf that by (intro cell_in_blkRange) (simp add: heap_wf_def blocks_ok_def)
    then show "{unat x..<unat x + 8} \<subseteq> (\<Union>q \<in> set live \<union> set fl. blkRange h q)"
      using that by blast
  qed
  then have "chain (get64 (heap_ram h')) 0 (myFreeList h) fl"
    using wf chain_cong [of fl "get64 (heap_ram h)" "get64 (heap_ram h')"] by (simp add: heap_wf_def)
  then show ?thesis
    using wf new b zone_more_fields [OF m] by (simp add: heap_wf_def)
qed

text \<open>
  What the first fit is: the first block of the free list that is large enough, and a new block if
  there is none.
\<close>

definition fits :: "'a zone_heap_scheme \<Rightarrow> u64 \<Rightarrow> u64 \<Rightarrow> bool" where
  "fits h sz p \<longleftrightarrow> sz \<le> blkSize h p"

definition got_block ::
  "'a firstfit_heap_scheme \<Rightarrow> 'a firstfit_heap_scheme \<Rightarrow> u64 list \<Rightarrow> u64 list \<Rightarrow> u64 \<Rightarrow> u64 \<Rightarrow>
     u64 list \<Rightarrow> bool" where
  "got_block h h' live fl sz p fl' \<longleftrightarrow>
     heap_wf h' (p # live) fl' \<and> sz \<le> blkSize h' p \<and>
     keeps h h' (\<Union>q \<in> set live. blkRange h q) \<and>
     firstfit_heap.more h' = firstfit_heap.more h \<and>
     (\<forall>q \<in> set live \<union> set fl. blkSize h' q = blkSize h q) \<and>
     (case find (fits h sz) fl of
        None \<Rightarrow> p \<notin> set fl \<and> fl' = fl \<and> blkSize h' p = sz
      | Some q \<Rightarrow> p = q \<and> fl' = remove1 q fl \<and> blkSize h' p = blkSize h p)"

lemma find_dropWhile: "find P xs = (case dropWhile (\<lambda>x. \<not> P x) xs of [] \<Rightarrow> None | x # _ \<Rightarrow> Some x)"
  by (induction xs) auto

lemma remove1_mid: "y \<notin> set xs \<Longrightarrow> remove1 y (xs @ y # ys) = xs @ ys"
  by (simp add: remove1_append)

lemma size_malloc_got_block:
  assumes os: "mmap_spec os" and wf: "heap_wf h live fl"
    and sz: "1 \<le> unat sz" "unat sz \<le> 16352" and none: "find (fits h sz) fl = None"
  shows "size_malloc os sz h = Inl Enomem \<or>
    (\<exists>p h'. size_malloc os sz h = Inr (p, h') \<and> got_block h h' live fl sz p fl)"
proof -
  have b: "blocks_ok h (set live \<union> set fl)" "arenas_ok h (set live \<union> set fl)"
    using wf by (simp_all add: heap_wf_def)
  from size_malloc_spec [OF os b sz] show ?thesis
  proof (elim disjE exE conjE)
    fix p h'
    assume r: "size_malloc os sz h = Inr (p, h')" and n: "p \<notin> set live \<union> set fl"
      and e: "blkSize h' p = sz" "blocks_ok h' (insert p (set live \<union> set fl))"
        "arenas_ok h' (insert p (set live \<union> set fl))"
      and k: "keeps h h' (\<Union>q \<in> set live \<union> set fl. blkRange h q)"
      and m: "zone_heap.more h' = zone_heap.more h"
    have "heap_wf h' (p # live) fl"
      by (rule heap_wf_grow [OF wf n e(2,3) k m])
    moreover have "keeps h h' (\<Union>q \<in> set live. blkRange h q)"
      by (rule keeps_subset [OF k]) auto
    moreover have "\<forall>q \<in> set live \<union> set fl. blkSize h' q = blkSize h q"
      using keeps_blocks_ok [OF k b(1)] by blast
    ultimately have "got_block h h' live fl sz p fl"
      using e(1) n none zone_more_fields(3) [OF m] by (simp add: got_block_def)
    then show ?thesis
      using r by blast
  qed simp
qed

lemma ff_malloc_hit:
  assumes wf: "heap_wf h live (xs @ p # ys)"
    and s: "ff_search (heap_ram h) sz 0 (myFreeList h) = Some (Inr (last (0 # xs), p))"
    and nz: "myFreeList h \<noteq> 0" "p \<noteq> 0"
  shows "ff_malloc os sz h = Inr (p, unlinked h xs p)"
proof -
  have ld: "heap_load p h = Inr (get64 (heap_ram h) p, h)"
    by (rule heap_load_ok) (rule heap_wf_cells(1) [OF wf], simp)
  show ?thesis
  proof (cases "xs = []")
    case True
    then show ?thesis
      using s nz ld by (simp add: ff_malloc_def unlinked_def)
  next
    case False
    then have "last xs \<in> set live \<union> set (xs @ p # ys)"
      by simp
    note w = heap_wf_write(1) [OF wf this] heap_wf_cells(4) [OF wf this]
    show ?thesis
      using s nz ld False w by (simp add: ff_malloc_def unlinked_def)
  qed
qed

text \<open>The walk over the whole list.\<close>

lemma ff_search_wf:
  assumes "heap_wf h live fl"
  shows "ff_search (heap_ram h) sz 0 (myFreeList h) =
    Some (Inr (last (0 # takeWhile (\<lambda>x. \<not> fits h sz x) fl),
               head_or_null (dropWhile (\<lambda>x. \<not> fits h sz x) fl)))"
proof -
  have small: "(\<lambda>x. get64 (heap_ram h) (x - 8) < sz) = (\<lambda>x. \<not> fits h sz x)"
    by (auto simp: fits_def blkSize_def not_le)
  have ch: "chain (get64 (heap_ram h)) 0 (myFreeList h) fl"
    using assms by (simp add: heap_wf_def)
  show ?thesis
    unfolding small [symmetric]
    by (rule ff_search_chain [OF ch]) (use heap_wf_cells [OF assms] in auto)
qed

lemma ff_search_malloc_none:
  assumes "heap_wf h live fl" and "dropWhile (\<lambda>x. \<not> fits h sz x) fl = []"
  shows "ff_malloc os sz h = size_malloc os sz h"
  unfolding ff_malloc_def ff_search_wf [OF assms(1)] assms(2) by (simp add: head_or_null_def)

lemma ff_malloc_spec:
  assumes os: "mmap_spec os" and wf: "heap_wf h live fl"
    and sz: "1 \<le> unat sz" "unat sz \<le> 16352"
  shows "ff_malloc os sz h = Inl Enomem \<and> find (fits h sz) fl = None \<or>
    (\<exists>p h' fl'. ff_malloc os sz h = Inr (p, h') \<and> got_block h h' live fl sz p fl')"
proof -
  let ?small = "\<lambda>x. \<not> fits h sz x"
  let ?xs = "takeWhile ?small fl"
  note search = ff_search_wf [OF wf, of sz]
  have ch: "chain (get64 (heap_ram h)) 0 (myFreeList h) fl"
    using wf by (simp add: heap_wf_def)
  show ?thesis
  proof (cases "dropWhile ?small fl")
    case Nil
    then have none: "find (fits h sz) fl = None"
      unfolding find_dropWhile by (simp only: list.case)
    from ff_search_malloc_none [OF wf Nil] show ?thesis
      using size_malloc_got_block [OF os wf sz none] none by auto
  next
    case (Cons p ys)
    then have fl: "fl = ?xs @ p # ys"
      by (metis takeWhile_dropWhile_id)
    have p: "p \<in> set fl" "fits h sz p"
      using fl Cons hd_dropWhile [of ?small fl] by (auto simp: in_set_conv_decomp)
    have some: "find (fits h sz) fl = Some p"
      using Cons unfolding find_dropWhile by (simp only: list.case)
    have d: "distinct fl" "myFreeList h \<noteq> 0" "p \<noteq> 0"
      using wf fl chain_head [OF ch] heap_wf_cells(4) [OF wf]
      by (auto simp: heap_wf_def head_or_null_def split: list.splits)
    have "p \<notin> set ?xs"
      using p(2) by (auto dest: set_takeWhileD)
    then have rm: "remove1 p fl = ?xs @ ys"
      by (subst fl) (rule remove1_mid)
    note wf' = wf [unfolded arg_cong [where f = "heap_wf h live", OF fl]]
    note u = unlinked_ok [OF wf']
    have "ff_malloc os sz h = Inr (p, unlinked h ?xs p)"
      using ff_malloc_hit [OF wf' _ d(2,3)] search Cons by (simp add: head_or_null_def)
    moreover have "\<forall>q \<in> set live \<union> set fl. blkSize (unlinked h ?xs p) q = blkSize h q"
      using u(2) arg_cong [where f = set, OF fl] by blast
    then have "got_block h (unlinked h ?xs p) live fl sz p (?xs @ ys)"
      using u(1,3,4) p by (simp add: got_block_def some rm fits_def)
    ultimately show ?thesis
      by blast
  qed
qed


text \<open>Memory runs out only when no free block is large enough either.\<close>

lemma ff_malloc_enomem:
  assumes os: "mmap_spec os" and wf: "heap_wf h live fl"
    and sz: "1 \<le> unat sz" "unat sz \<le> 16352" and e: "ff_malloc os sz h = Inl Enomem"
  shows "find (fits h sz) fl = None" and "exhausted os h (up8 (unat sz) + 16)"
proof -
  show none: "find (fits h sz) fl = None"
    using ff_malloc_spec [OF os wf sz] e by auto
  have b: "blocks_ok h (set live \<union> set fl)" "arenas_ok h (set live \<union> set fl)"
    using wf by (simp_all add: heap_wf_def)
  have "dropWhile (\<lambda>x. \<not> fits h sz x) fl = []"
    using none by (simp add: find_None_iff)
  then have "size_malloc os sz h = Inl Enomem"
    using e ff_search_malloc_none [OF wf] by simp
  then show "exhausted os h (up8 (unat sz) + 16)"
    by (rule size_malloc_enomem [OF os b sz])
qed

section \<open>free\<close>

lemma insort_split:
  fixes xs :: "u64 list"
  assumes "sorted_wrt (<) xs" and "p \<notin> set xs"
  shows "insort p xs = takeWhile (\<lambda>x. x \<le> p) xs @ p # dropWhile (\<lambda>x. x \<le> p) xs"
  using assms by (induction xs) (auto simp: takeWhile_eq_Nil_iff dropWhile_eq_self_iff
      dest: order_less_le_trans)

lemma sorted_wrt_insort:
  fixes xs :: "u64 list"
  shows "sorted_wrt (<) xs \<Longrightarrow> p \<notin> set xs \<Longrightarrow> sorted_wrt (<) (insort p xs)"
  by (induction xs) (auto simp: set_insort_key)

text \<open>The state after \<open>p\<close> is linked behind \<open>xs\<close>.\<close>

definition linked :: "'a firstfit_heap_scheme \<Rightarrow> u64 list \<Rightarrow> u64 \<Rightarrow> 'a firstfit_heap_scheme" where
  "linked h xs p =
     (if xs = []
      then h\<lparr>heap_ram := put64 (heap_ram h) p (myFreeList h), myFreeList := p,
             nObjects := nObjects h + 1\<rparr>
      else h\<lparr>heap_ram := put64 (put64 (heap_ram h) p (get64 (heap_ram h) (last xs))) (last xs) p,
             nObjects := nObjects h + 1\<rparr>)"

text \<open>What freeing leaves alone: every other block of the program.\<close>

lemma linked_ok:
  assumes wf: "heap_wf h live (xs @ ys)" and p: "p \<in> set live"
    and s: "sorted_wrt (<) (xs @ p # ys)"
  defines "h' \<equiv> linked h xs p"
  shows "heap_wf h' (remove1 p live) (xs @ p # ys)"
    and "keeps h h' (\<Union>q \<in> set live - {p}. blkRange h q)"
    and "firstfit_heap.more h' = firstfit_heap.more h"
    and "\<And>q. q \<in> set live \<union> set (xs @ ys) \<Longrightarrow> blkSize h' q = blkSize h q"
proof -
  let ?B = "set live \<union> set (xs @ ys)"
  have ch: "chain (get64 (heap_ram h)) 0 (myFreeList h) (xs @ ys)"
    and n: "nObjects h = of_nat (length (xs @ ys))"
    and d: "distinct (live @ xs @ ys)"
    using wf by (auto simp: heap_wf_def)
  have B: "set (remove1 p live) \<union> set (xs @ p # ys) = ?B"
    using p d by (auto simp: set_remove1_eq)
  have pB: "p \<in> ?B" "p \<noteq> 0"
    using p heap_wf_cells(4) [OF wf] by auto
  have pn: "p \<notin> set (xs @ ys)"
    using d p by auto
  have n': "nObjects h' = of_nat (length (xs @ p # ys))"
    using n by (simp add: h'_def linked_def)
  have ap: "apart64 p x" if "x \<in> set (xs @ ys)" for x
    using that pn by (intro heap_wf_cells(3) [OF wf pB(1)]) auto
  have main: "chain (get64 (heap_ram h')) 0 (myFreeList h') (xs @ p # ys) \<and> blocks_ok h' ?B \<and>
      arenas_ok h' ?B \<and> (\<forall>q \<in> ?B. blkSize h' q = blkSize h q) \<and>
      keeps h h' (\<Union>q \<in> set live - {p}. blkRange h q)"
  proof (cases "xs = []")
    case True
    note w = heap_wf_write [OF wf pB(1), where v = "myFreeList h"]
    have "chain (get64 (put64 (heap_ram h) p (myFreeList h))) 0 p (p # ys)"
      by (rule cells.chain_push) (use True ch pB ap in auto)
    moreover have "keeps h (h\<lparr>heap_ram := put64 (heap_ram h) p (myFreeList h)\<rparr>)
        (\<Union>q \<in> set live - {p}. blkRange h q)"
      by (rule keeps_subset [OF w(5)]) auto
    ultimately show ?thesis
      using True w(2-4) by (simp add: h'_def linked_def)
  next
    case False
    define pr where "pr = last xs"
    let ?v = "get64 (heap_ram h) pr"
    define h1 where "h1 = h\<lparr>heap_ram := put64 (heap_ram h) p ?v\<rparr>"
    have xs: "xs = butlast xs @ [pr]"
      using False by (simp add: pr_def)
    then have prB: "pr \<in> ?B" "pr \<in> set (xs @ ys)" "pr \<notin> set live"
      using d by (auto simp: pr_def False)
    have w1: "payload_write h h1 p"
      unfolding h1_def using wf pB(1) by (intro put64_payload_write(1)) (auto simp: heap_wf_def)
    note p1 = heap_wf_payload [OF wf w1 p]
    note w = heap_wf_write [OF p1(1) prB(1), where v = p]
    have h2: "heap_ram (h1\<lparr>heap_ram := put64 (heap_ram h1) pr p\<rparr>) =
        put64 (put64 (heap_ram h) p ?v) pr p"
      by (simp add: h1_def)
    have "distinct (butlast xs @ pr # ys)"
      using d xs by (metis append.assoc append_Cons append_Nil distinct_append)
    then have "chain (get64 (put64 (put64 (heap_ram h) p ?v) pr p)) 0 (myFreeList h)
        (butlast xs @ pr # p # ys)"
      using ch xs ap prB pB pn
      by (intro cells.chain_link_after)
        (metis append.assoc append_Cons append_Nil, auto intro!: heap_wf_cells(3) [OF wf] dest: in_set_butlastD)
    then have "chain (get64 (put64 (put64 (heap_ram h) p ?v) pr p)) 0 (myFreeList h) (xs @ p # ys)"
      using xs by (metis append.assoc append_Cons append_Nil)
    moreover have "keeps h (h1\<lparr>heap_ram := put64 (heap_ram h1) pr p\<rparr>)
        (\<Union>q \<in> set live - {p}. blkRange h q)"
    proof (rule keeps_trans)
      show "keeps h h1 (\<Union>q \<in> set live - {p}. blkRange h q)"
        by (rule keeps_subset [OF p1(3)]) auto
      show "keeps h1 (h1\<lparr>heap_ram := put64 (heap_ram h1) pr p\<rparr>) (\<Union>q \<in> set live - {p}. blkRange h q)"
        by (rule keeps_subset [OF w(5)])
          (use prB(3) p1(2) in \<open>auto simp: blkRange_def blkHi_def\<close>)
    qed
    ultimately show ?thesis
      using w(2-4) p1(2) False by (simp add: h'_def linked_def pr_def h1_def)
  qed
  show "heap_wf h' (remove1 p live) (xs @ p # ys)"
    unfolding heap_wf_def B using main n' d s p by (auto simp: distinct_remove1 set_remove1_eq)
  show "keeps h h' (\<Union>q \<in> set live - {p}. blkRange h q)"
    "\<And>q. q \<in> set live \<union> set (xs @ ys) \<Longrightarrow> blkSize h' q = blkSize h q"
    using main by blast+
  show "firstfit_heap.more h' = firstfit_heap.more h"
    by (simp add: h'_def linked_def)
qed


definition gave_block ::
  "'a firstfit_heap_scheme \<Rightarrow> 'a firstfit_heap_scheme \<Rightarrow> u64 list \<Rightarrow> u64 list \<Rightarrow> u64 \<Rightarrow> bool" where
  "gave_block h h' live fl p \<longleftrightarrow>
     heap_wf h' (remove1 p live) (insort p fl) \<and>
     keeps h h' (\<Union>q \<in> set live - {p}. blkRange h q) \<and>
     firstfit_heap.more h' = firstfit_heap.more h \<and>
     (\<forall>q \<in> set live \<union> set fl. blkSize h' q = blkSize h q)"

lemma ff_free_run:
  fixes h :: "'a firstfit_heap_scheme"
  assumes wf: "heap_wf h live (xs @ ys)" and p: "p \<in> set live"
    and place: "ff_place (heap_ram h) p 0 (myFreeList h) = Some (Inr (last (0 # xs)))"
  shows "ff_free p h = Inr ((), linked h xs p)"
proof -
  have pB: "p \<in> set live \<union> set (xs @ ys)"
    using p by simp
  have p0: "p \<noteq> 0"
    by (rule heap_wf_cells(4) [OF wf pB])
  let ?h = "h\<lparr>nObjects := nObjects h + 1\<rparr>"
  have st: "heap_store q v k = Inr ((), k\<lparr>heap_ram := put64 (heap_ram k) q v\<rparr>)"
    if "mapped (heap_ram k) = mapped (heap_ram h)" "q \<in> set live \<union> set (xs @ ys)"
    for q v and k :: "'a firstfit_heap_scheme"
    by (rule heap_store_ok) (use heap_wf_cells(1) [OF wf that(2)] that(1) mapped_range_cong in blast)
  show ?thesis
  proof (cases "xs = []")
    case True
    then show ?thesis
      using place p0 st [of ?h p] pB by (simp add: ff_free_def linked_def)
  next
    case False
    then have l: "last xs \<in> set live \<union> set (xs @ ys)"
      by simp
    have nz: "last xs \<noteq> 0"
      by (rule heap_wf_cells(4) [OF wf l])
    have ld: "heap_load (last xs) ?h = Inr (get64 (heap_ram h) (last xs), ?h)"
      using heap_load_ok [of ?h "last xs"] heap_wf_cells(1) [OF wf l] by simp
    show ?thesis
      using False nz ld place p0 st [of ?h p] st [of "?h\<lparr>heap_ram := put64 (heap_ram h) p v\<rparr>" "last xs" for v] pB l
      by (simp add: ff_free_def linked_def)
  qed
qed

lemma ff_free_spec:
  assumes wf: "heap_wf h live fl" and p: "p \<in> set live"
  shows "\<exists>h'. ff_free p h = Inr ((), h') \<and> gave_block h h' live fl p"
proof -
  define xs where "xs = takeWhile (\<lambda>x. x \<le> p) fl"
  define ys where "ys = dropWhile (\<lambda>x. x \<le> p) fl"
  have fl: "fl = xs @ ys"
    by (simp add: xs_def ys_def)
  have s: "sorted_wrt (<) fl" "p \<notin> set fl" and ch: "chain (get64 (heap_ram h)) 0 (myFreeList h) fl"
    using wf p by (auto simp: heap_wf_def)
  have ins: "insort p fl = xs @ p # ys"
    unfolding xs_def ys_def by (rule insort_split [OF s])
  have wf': "heap_wf h live (xs @ ys)"
    using wf fl by simp
  have "ff_place (heap_ram h) p 0 (myFreeList h) = Some (Inr (last (0 # xs)))"
    unfolding xs_def by (rule ff_place_chain [OF ch]) (use heap_wf_cells(1) [OF wf] in auto)
  note r = ff_free_run [OF wf' p this]
  have "sorted_wrt (<) (xs @ p # ys)"
    using sorted_wrt_insort [OF s] ins by simp
  note l = linked_ok [OF wf' p this]
  have "gave_block h (linked h xs p) live fl p"
    unfolding gave_block_def ins using l fl by simp
  then show ?thesis
    using r by blast
qed

lemma ff_free_null: "ff_free 0 h = Inr ((), h)"
  by (simp add: ff_free_def)

end
