(* ===== verification/AllocatorSpec.thy ===== *)
theory AllocatorSpec
  imports Prelude
begin

text \<open>
  What a program may rely on when it calls an allocator, independent of how the allocator works: a
  partial map from the pointers the program holds to the bytes behind them. The locale
  \<open>allocator\<close> is the interface between the heap layers and the code above them (the entry points of
  \<open>allocators/internal.cpp\<close>, \<open>allocators/shared.cpp\<close> and \<open>libgallocy.cpp\<close>): its laws are what
  each call promises, its lemmas are what follows for a program that makes a sequence of calls.
\<close>

type_synonym view = "u64 \<rightharpoonup> u8 list"

definition overwrite :: "'a list \<Rightarrow> nat \<Rightarrow> 'a list \<Rightarrow> 'a list" where
  "overwrite xs i ys = take i xs @ ys @ drop (i + length ys) xs"

lemma length_overwrite [simp]: "i + length ys \<le> length xs \<Longrightarrow> length (overwrite xs i ys) = length xs"
  by (simp add: overwrite_def)

lemma nth_overwrite:
  assumes "i + length ys \<le> length xs" and "j < length xs"
  shows "overwrite xs i ys ! j = (if i \<le> j \<and> j < i + length ys then ys ! (j - i) else xs ! j)"
  using assms by (auto simp: overwrite_def nth_append min_def)

text \<open>The calls of a program, and its own writes into its blocks.\<close>

datatype heap_call =
    Malloc u64
  | Calloc u64 u64
  | Realloc u64 u64
  | Free u64
  | Store u64 nat "u8 list"

text \<open>The largest request that the layers serve from one arena.\<close>

definition max_request :: nat where "max_request = 16352"

text \<open>What a correct program does; a \<open>realloc\<close> must not shrink.\<close>

fun legal :: "view \<Rightarrow> heap_call \<Rightarrow> bool" where
  "legal m (Malloc sz) = (unat sz \<le> max_request)"
| "legal m (Calloc n sz) =
     (1 \<le> unat n * unat sz \<and> unat n * unat sz \<le> max_request)"
| "legal m (Realloc p sz) =
     (unat sz \<le> max_request \<and>
      (p = 0 \<or> (case m p of None \<Rightarrow> False | Some bs \<Rightarrow> length bs \<le> unat sz)))"
| "legal m (Free p) = (p = 0 \<or> m p \<noteq> None)"
| "legal m (Store p i bs) = (case m p of None \<Rightarrow> False | Some old \<Rightarrow> i + length bs \<le> length old)"

text \<open>The effect each call may have on the view, with the value it returns.\<close>

inductive spec_step :: "view \<Rightarrow> heap_call \<Rightarrow> u64 \<Rightarrow> view \<Rightarrow> bool" where
  malloc: "p \<noteq> 0 \<Longrightarrow> m p = None \<Longrightarrow> unat sz \<le> length bs \<Longrightarrow> spec_step m (Malloc sz) p (m(p \<mapsto> bs))"
| calloc: "p \<noteq> 0 \<Longrightarrow> m p = None \<Longrightarrow> unat n * unat sz \<le> length bs \<Longrightarrow>
     take (unat n * unat sz) bs = replicate (unat n * unat sz) 0 \<Longrightarrow>
     spec_step m (Calloc n sz) p (m(p \<mapsto> bs))"
| realloc_null: "p \<noteq> 0 \<Longrightarrow> m p = None \<Longrightarrow> unat sz \<le> length bs \<Longrightarrow>
     spec_step m (Realloc 0 sz) p (m(p \<mapsto> bs))"
| realloc: "p \<noteq> 0 \<Longrightarrow> m p = Some old \<Longrightarrow> q \<noteq> 0 \<Longrightarrow> m q = None \<Longrightarrow> unat sz \<le> length bs \<Longrightarrow>
     take (length old) bs = old \<Longrightarrow> spec_step m (Realloc p sz) q ((m(p := None))(q \<mapsto> bs))"
| free_null: "spec_step m (Free 0) 0 m"
| free: "p \<noteq> 0 \<Longrightarrow> spec_step m (Free p) 0 (m(p := None))"
| store: "m p = Some old \<Longrightarrow> spec_step m (Store p i bs) 0 (m(p \<mapsto> overwrite old i bs))"

inductive_cases spec_stepE: "spec_step m c p m'"

text \<open>A block that a call neither frees, moves nor writes keeps its bytes.\<close>

fun names :: "heap_call \<Rightarrow> u64 set" where
  "names (Malloc sz) = {}"
| "names (Calloc n sz) = {}"
| "names (Realloc p sz) = {p}"
| "names (Free p) = {p}"
| "names (Store p i bs) = {p}"

lemma spec_step_frame: "spec_step m c p m' \<Longrightarrow> m q = Some bs \<Longrightarrow> q \<notin> names c \<Longrightarrow> m' q = Some bs"
  by (induction rule: spec_step.induct) auto

section \<open>Programs\<close>

text \<open>
  A program chooses its next call from the values the earlier ones returned. \<open>spec_reach\<close> are the
  points it can reach when every call behaves as specified; it is \<open>safe\<close> when its calls are legal
  there. \<open>run_prog\<close> runs it for \<open>n\<close> calls on an implementation.
\<close>

type_synonym prog = "u64 list \<Rightarrow> heap_call"

inductive spec_reach :: "prog \<Rightarrow> u64 list \<Rightarrow> view \<Rightarrow> bool" for prog :: prog where
  start: "spec_reach prog [] Map.empty"
| step: "spec_reach prog rs m \<Longrightarrow> spec_step m (prog rs) p m' \<Longrightarrow> spec_reach prog (rs @ [p]) m'"

definition safe :: "prog \<Rightarrow> bool" where
  "safe prog \<longleftrightarrow> (\<forall>rs m. spec_reach prog rs m \<longrightarrow> legal m (prog rs))"

fun run_prog :: "(heap_call \<Rightarrow> ('h, u64) op) \<Rightarrow> prog \<Rightarrow> nat \<Rightarrow> u64 list \<Rightarrow> ('h, u64 list) op" where
  "run_prog call prog 0 rs h = Inr (rs, h)"
| "run_prog call prog (Suc n) rs h =
     (case call (prog rs) h of Inl e \<Rightarrow> Inl e | Inr (p, h') \<Rightarrow> run_prog call prog n (rs @ [p]) h')"

text \<open>The call a program makes, on the operations of an implementation.\<close>

fun dispatch ::
  "(u64 \<Rightarrow> ('h, u64) op) \<Rightarrow> (u64 \<Rightarrow> u64 \<Rightarrow> ('h, u64) op) \<Rightarrow> (u64 \<Rightarrow> u64 \<Rightarrow> ('h, u64) op) \<Rightarrow>
     (u64 \<Rightarrow> ('h, unit) op) \<Rightarrow> (u64 \<Rightarrow> nat \<Rightarrow> u8 list \<Rightarrow> ('h, unit) op) \<Rightarrow> heap_call \<Rightarrow> ('h, u64) op" where
  "dispatch mal cal rea fre sto (Malloc sz) = mal sz"
| "dispatch mal cal rea fre sto (Calloc n sz) = cal n sz"
| "dispatch mal cal rea fre sto (Realloc p sz) = rea p sz"
| "dispatch mal cal rea fre sto (Free p) = seq (fre p) (\<lambda>_. ok 0)"
| "dispatch mal cal rea fre sto (Store p i bs) = seq (sto p i bs) (\<lambda>_. ok 0)"

section \<open>The interface\<close>

text \<open>An allocation either ends the process with \<open>ENOMEM\<close> or gives a block the program does not hold.\<close>

definition allocates ::
  "('h \<Rightarrow> view \<Rightarrow> bool) \<Rightarrow> ('h, u64) op \<Rightarrow> 'h \<Rightarrow> view \<Rightarrow> (u8 list \<Rightarrow> bool) \<Rightarrow> bool" where
  "allocates rel f h m P \<longleftrightarrow>
     f h = Inl Enomem \<or>
     (\<exists>p h' bs. f h = Inr (p, h') \<and> p \<noteq> 0 \<and> m p = None \<and> P bs \<and> rel h' (m(p \<mapsto> bs)))"

locale heap_interface =
  fixes rel :: "'h \<Rightarrow> view \<Rightarrow> bool"
    and a_malloc :: "u64 \<Rightarrow> ('h, u64) op"
    and a_realloc :: "u64 \<Rightarrow> u64 \<Rightarrow> ('h, u64) op"
    and a_free :: "u64 \<Rightarrow> ('h, unit) op"
    and a_store :: "u64 \<Rightarrow> nat \<Rightarrow> u8 list \<Rightarrow> ('h, unit) op"
  assumes malloc_law: "rel h m \<Longrightarrow> unat sz \<le> max_request \<Longrightarrow>
      allocates rel (a_malloc sz) h m (\<lambda>bs. unat sz \<le> length bs)"
    and realloc_null_law: "rel h m \<Longrightarrow> unat sz \<le> max_request \<Longrightarrow>
      allocates rel (a_realloc 0 sz) h m (\<lambda>bs. unat sz \<le> length bs)"
    and realloc_law: "rel h m \<Longrightarrow> m p = Some old \<Longrightarrow> length old \<le> unat sz \<Longrightarrow> unat sz \<le> max_request \<Longrightarrow>
      a_realloc p sz h = Inl Enomem \<or>
      (\<exists>q h' bs. a_realloc p sz h = Inr (q, h') \<and> q \<noteq> 0 \<and> m q = None \<and> unat sz \<le> length bs \<and>
         take (length old) bs = old \<and> rel h' ((m(p := None))(q \<mapsto> bs)))"
    and free_null_law: "rel h m \<Longrightarrow> \<exists>h'. a_free 0 h = Inr ((), h') \<and> rel h' m"
    and free_law: "rel h m \<Longrightarrow> m p \<noteq> None \<Longrightarrow> \<exists>h'. a_free p h = Inr ((), h') \<and> rel h' (m(p := None))"
    and store_law: "rel h m \<Longrightarrow> m p = Some old \<Longrightarrow> i + length bs \<le> length old \<Longrightarrow>
      \<exists>h'. a_store p i bs h = Inr ((), h') \<and> rel h' (m(p \<mapsto> overwrite old i bs))"
begin

text \<open>A scratch buffer: allocate, fill, give back. Nothing the program holds has changed.\<close>

lemma scratch_buffer:
  assumes r: "rel h m" and sz: "unat sz \<le> max_request" and len: "length bs \<le> unat sz"
  shows "seq (a_malloc sz) (\<lambda>p. seq (a_store p 0 bs) (\<lambda>_. a_free p)) h = Inl Enomem \<or>
    (\<exists>h'. seq (a_malloc sz) (\<lambda>p. seq (a_store p 0 bs) (\<lambda>_. a_free p)) h = Inr ((), h') \<and> rel h' m)"
  using malloc_law [OF r sz] unfolding allocates_def
proof (elim disjE exE conjE)
  fix p h1 old
  assume mal: "a_malloc sz h = Inr (p, h1)" and p: "m p = None" "unat sz \<le> length old"
    and r1: "rel h1 (m(p \<mapsto> old))"
  obtain h2 where st: "a_store p 0 bs h1 = Inr ((), h2)"
    and r2: "rel h2 (m(p \<mapsto> old, p \<mapsto> overwrite old 0 bs))"
    using store_law [OF r1, of p old 0 bs] len p by auto
  obtain h3 where fr: "a_free p h2 = Inr ((), h3)"
    and r3: "rel h3 ((m(p \<mapsto> old, p \<mapsto> overwrite old 0 bs))(p := None))"
    using free_law [OF r2, of p] by auto
  have "(m(p \<mapsto> old, p \<mapsto> overwrite old 0 bs))(p := None) = m"
    using p by auto
  then show ?thesis
    using mal st fr r3 by simp
qed simp

end

locale allocator = heap_interface rel a_malloc a_realloc a_free a_store
  for rel :: "'h \<Rightarrow> view \<Rightarrow> bool"
    and a_malloc :: "u64 \<Rightarrow> ('h, u64) op"
    and a_realloc :: "u64 \<Rightarrow> u64 \<Rightarrow> ('h, u64) op"
    and a_free :: "u64 \<Rightarrow> ('h, unit) op"
    and a_store :: "u64 \<Rightarrow> nat \<Rightarrow> u8 list \<Rightarrow> ('h, unit) op" +
  fixes a_calloc :: "u64 \<Rightarrow> u64 \<Rightarrow> ('h, u64) op"
  assumes calloc_law: "rel h m \<Longrightarrow> 1 \<le> unat n * unat sz \<Longrightarrow> unat n * unat sz \<le> max_request \<Longrightarrow>
      allocates rel (a_calloc n sz) h m (\<lambda>bs. unat n * unat sz \<le> length bs \<and>
        take (unat n * unat sz) bs = replicate (unat n * unat sz) 0)"
begin

abbreviation a_call :: "heap_call \<Rightarrow> ('h, u64) op" where
  "a_call \<equiv> dispatch a_malloc a_calloc a_realloc a_free a_store"

lemma step_simulation:
  assumes r: "rel h m" and l: "legal m c"
  shows "a_call c h = Inl Enomem \<or> (\<exists>p h' m'. a_call c h = Inr (p, h') \<and> spec_step m c p m' \<and> rel h' m')"
proof (cases c)
  case (Malloc sz)
  then show ?thesis
    using malloc_law [OF r, of sz] l by (fastforce simp: allocates_def intro: spec_step.malloc)
next
  case (Calloc n sz)
  then show ?thesis
    using calloc_law [OF r, of n sz] l by (fastforce simp: allocates_def intro: spec_step.calloc)
next
  case (Realloc p sz)
  show ?thesis
  proof (cases "p = 0")
    case True
    then show ?thesis
      using Realloc realloc_null_law [OF r, of sz] l
      by (fastforce simp: allocates_def intro: spec_step.realloc_null)
  next
    case False
    then obtain old where old: "m p = Some old" "length old \<le> unat sz" "unat sz \<le> max_request"
      using Realloc l by (auto split: option.splits)
    show ?thesis
      using Realloc realloc_law [OF r old] False old by (fastforce intro: spec_step.realloc)
  qed
next
  case (Free p)
  then show ?thesis
    using free_null_law [OF r] free_law [OF r, of p] l
    by (cases "p = 0") (fastforce intro: spec_step.free_null spec_step.free)+
next
  case (Store p i bs)
  then obtain old where old: "m p = Some old" "i + length bs \<le> length old"
    using l by (auto split: option.splits)
  show ?thesis
    using Store store_law [OF r old] old by (fastforce intro: spec_step.store)
qed

lemma prog_from:
  assumes "safe prog" and "spec_reach prog rs m" and "rel h m"
  shows "run_prog a_call prog n rs h = Inl Enomem \<or>
    (\<exists>rs' h' m'. run_prog a_call prog n rs h = Inr (rs', h') \<and> length rs' = length rs + n \<and>
       spec_reach prog rs' m' \<and> rel h' m')"
  using assms(2,3)
proof (induction n arbitrary: rs m h)
  case (Suc n)
  have "legal m (prog rs)"
    using assms(1) Suc.prems by (simp add: safe_def)
  from step_simulation [OF Suc.prems(2) this] show ?case
  proof (elim disjE exE conjE)
    fix p h1 m1
    assume c: "a_call (prog rs) h = Inr (p, h1)" and s: "spec_step m (prog rs) p m1" and r: "rel h1 m1"
    have "spec_reach prog (rs @ [p]) m1"
      by (rule spec_reach.step [OF Suc.prems(1) s])
    from Suc.IH [OF this r] show ?thesis
      using c by simp
  qed simp
qed auto

end


section \<open>A heap inside a larger state\<close>

text \<open>The operations of a component on the state it is a part of.\<close>

definition lift_op :: "('s \<Rightarrow> 'h) \<Rightarrow> ('h \<Rightarrow> 's \<Rightarrow> 's) \<Rightarrow> ('h, 'a) op \<Rightarrow> ('s, 'a) op" where
  "lift_op get put f = (\<lambda>s. case f (get s) of Inl e \<Rightarrow> Inl e | Inr (x, h) \<Rightarrow> Inr (x, put h s))"

lemma lift_op_Inr: "f (get s) = Inr (x, h) \<Longrightarrow> lift_op get put f s = Inr (x, put h s)"
  by (simp add: lift_op_def)

lemma lift_op_Inl: "f (get s) = Inl e \<Longrightarrow> lift_op get put f s = Inl e"
  by (simp add: lift_op_def)

locale embedded_heap = allocator rel a_malloc a_realloc a_free a_store a_calloc
  for rel :: "'h \<Rightarrow> view \<Rightarrow> bool"
    and a_malloc :: "u64 \<Rightarrow> ('h, u64) op"
    and a_realloc :: "u64 \<Rightarrow> u64 \<Rightarrow> ('h, u64) op"
    and a_free :: "u64 \<Rightarrow> ('h, unit) op"
    and a_store :: "u64 \<Rightarrow> nat \<Rightarrow> u8 list \<Rightarrow> ('h, unit) op"
    and a_calloc :: "u64 \<Rightarrow> u64 \<Rightarrow> ('h, u64) op" +
  fixes get :: "'s \<Rightarrow> 'h" and put :: "'h \<Rightarrow> 's \<Rightarrow> 's"
  assumes get_put: "get (put h s) = h"
begin

lemma lift_allocates:
  "allocates rel f (get s) m P \<Longrightarrow> allocates (\<lambda>s. rel (get s)) (lift_op get put f) s m P"
  unfolding allocates_def by (auto simp: get_put lift_op_def)

end

sublocale embedded_heap \<subseteq> lifted: allocator "\<lambda>s. rel (get s)"
    "\<lambda>sz. lift_op get put (a_malloc sz)" "\<lambda>p sz. lift_op get put (a_realloc p sz)"
    "\<lambda>p. lift_op get put (a_free p)" "\<lambda>p i bs. lift_op get put (a_store p i bs)"
    "\<lambda>n sz. lift_op get put (a_calloc n sz)"
proof unfold_locales
  fix s m sz n p old i bs
  assume r: "rel (get s) m"
  show "allocates (\<lambda>s. rel (get s)) (lift_op get put (a_malloc sz)) s m (\<lambda>bs. unat sz \<le> length bs)"
    "allocates (\<lambda>s. rel (get s)) (lift_op get put (a_realloc 0 sz)) s m (\<lambda>bs. unat sz \<le> length bs)"
    if "unat sz \<le> max_request"
    using malloc_law [OF r that] realloc_null_law [OF r that] by (simp_all add: lift_allocates)
  show "allocates (\<lambda>s. rel (get s)) (lift_op get put (a_calloc n sz)) s m
      (\<lambda>bs. unat n * unat sz \<le> length bs \<and> take (unat n * unat sz) bs = replicate (unat n * unat sz) 0)"
    if "1 \<le> unat n * unat sz" "unat n * unat sz \<le> max_request"
    using calloc_law [OF r that] by (rule lift_allocates)
  show "lift_op get put (a_realloc p sz) s = Inl Enomem \<or>
    (\<exists>q s' bs. lift_op get put (a_realloc p sz) s = Inr (q, s') \<and> q \<noteq> 0 \<and> m q = None \<and>
       unat sz \<le> length bs \<and> take (length old) bs = old \<and> rel (get s') ((m(p := None))(q \<mapsto> bs)))"
    if "m p = Some old" "length old \<le> unat sz" "unat sz \<le> max_request"
    using realloc_law [OF r that] by (auto simp: lift_op_def get_put)
  show "\<exists>s'. lift_op get put (a_free 0) s = Inr ((), s') \<and> rel (get s') m"
    using free_null_law [OF r] by (auto simp: lift_op_def get_put)
  show "\<exists>s'. lift_op get put (a_free p) s = Inr ((), s') \<and> rel (get s') (m(p := None))" if "m p \<noteq> None"
    using free_law [OF r that] by (auto simp: lift_op_def get_put)
  show "\<exists>s'. lift_op get put (a_store p i bs) s = Inr ((), s') \<and>
      rel (get s') (m(p \<mapsto> overwrite old i bs))"
    if "m p = Some old" "i + length bs \<le> length old"
    using store_law [OF r that] by (auto simp: lift_op_def get_put)
qed

end
