(* ===== verification/StdlibInv.thy ===== *)
theory StdlibInv
  imports FirstFitInv AllocatorSpec
begin

text \<open>
  The C library layer: rounding of requests, contents of blocks, and \<open>malloc\<close>, \<open>free\<close>, \<open>calloc\<close>
  and \<open>realloc\<close> on a well-formed heap.
\<close>

section \<open>Rounding\<close>

lemma unat_stdlib_round:
  assumes "unat sz + 7 < 2 ^ 64"
  shows "unat (stdlib_round sz) = up8 (max 16 (unat sz))"
proof -
  have "unat (if sz < 2 * 8 then 2 * 8 else sz) = max 16 (unat sz)"
    by (simp add: word_less_nat_alt)
  then show ?thesis
    using assms unat_align8 [of "if sz < 2 * 8 then 2 * 8 else sz"] by (simp add: stdlib_round_def)
qed

lemma stdlib_round_small:
  assumes "unat sz \<le> 16352"
  shows "16 \<le> unat (stdlib_round sz)" and "unat sz \<le> unat (stdlib_round sz)"
    and "unat (stdlib_round sz) \<le> 16352" and "8 dvd unat (stdlib_round sz)"
proof -
  have r: "unat (stdlib_round sz) = up8 (max 16 (unat sz))"
    using assms by (intro unat_stdlib_round) simp
  show "16 \<le> unat (stdlib_round sz)" "unat sz \<le> unat (stdlib_round sz)"
    unfolding r using up8_ge [of "max 16 (unat sz)"] by simp_all
  have "up8 (max 16 (unat sz)) \<le> up8 16352"
    using assms by (intro up8_mono) simp
  then show "unat (stdlib_round sz) \<le> 16352"
    unfolding r by (simp add: up8_def)
  show "8 dvd unat (stdlib_round sz)"
    unfolding r by (rule up8_dvd)
qed

section \<open>Contents\<close>

definition contents :: "'a zone_heap_scheme \<Rightarrow> u64 \<Rightarrow> u8 list" where
  "contents h p = read_bytes (bytes (heap_ram h)) (unat p) (unat (blkSize h p))"

lemma length_contents [simp]: "length (contents h p) = unat (blkSize h p)"
  by (simp add: contents_def)

lemma keeps_contents:
  assumes k: "keeps h h' (blkRange h p)" and ok: "block_ok h p"
  shows "contents h' p = contents h p" and "blkSize h' p = blkSize h p"
proof -
  have "keeps h h' (hdrRange p)"
    by (rule keeps_subset [OF k hdrRange_sub])
  then show sz: "blkSize h' p = blkSize h p"
    using keeps_block(1) ok by blast
  have "unat (blkSize h p) \<le> up8 (unat (blkSize h p))"
    by (rule up8_ge)
  then show "contents h' p = contents h p"
    unfolding contents_def sz using k
    by (intro read_bytes_cong) (auto simp: keeps_def blkRange_def blkHi_def blkLo_def)
qed

lemma heap_wf_block_ok: "heap_wf h live fl \<Longrightarrow> p \<in> set live \<union> set fl \<Longrightarrow> block_ok h p"
  by (auto simp: heap_wf_def blocks_ok_def)

lemma keeps_live_contents:
  assumes "heap_wf h live fl" and "keeps h h' (\<Union>q \<in> S. blkRange h q)" and "S \<subseteq> set live" and "p \<in> S"
  shows "contents h' p = contents h p" and "blkSize h' p = blkSize h p"
proof -
  have "keeps h h' (blkRange h p)"
    by (rule keeps_subset [OF assms(2)]) (use assms(4) in blast)
  moreover have "block_ok h p"
    using assms by (intro heap_wf_block_ok [OF assms(1)]) auto
  ultimately show "contents h' p = contents h p" and "blkSize h' p = blkSize h p"
    using keeps_contents by blast+
qed

text \<open>The blocks \<open>S\<close> have the sizes and the bytes they had.\<close>

definition untouched :: "'a zone_heap_scheme \<Rightarrow> 'a zone_heap_scheme \<Rightarrow> u64 set \<Rightarrow> bool" where
  "untouched h h' S \<longleftrightarrow> (\<forall>q \<in> S. blkSize h' q = blkSize h q \<and> contents h' q = contents h q)"

lemma untouched_trans: "untouched h h' S \<Longrightarrow> untouched h' h'' T \<Longrightarrow> untouched h h'' (S \<inter> T)"
  by (simp add: untouched_def)

lemma untouched_mono: "untouched h h' S \<Longrightarrow> T \<subseteq> S \<Longrightarrow> untouched h h' T"
  by (auto simp: untouched_def)

lemma keeps_untouched:
  assumes "heap_wf h live fl" and "keeps h h' (\<Union>q \<in> S. blkRange h q)" and "S \<subseteq> set live"
  shows "untouched h h' S"
  using keeps_live_contents [OF assms] by (simp add: untouched_def)

section \<open>Writing bytes into a block\<close>

definition poke :: "'a zone_heap_scheme \<Rightarrow> nat \<Rightarrow> u8 list \<Rightarrow> 'a zone_heap_scheme" where
  "poke h a bs = h\<lparr>heap_ram := (heap_ram h)\<lparr>bytes := write_bytes (bytes (heap_ram h)) a bs\<rparr>\<rparr>"

lemma block_mapped:
  assumes "block_ok h p" and "i + n \<le> up8 (unat (blkSize h p))"
  shows "mapped_range (heap_ram h) (unat p + i) n"
  by (rule mapped_range_sub [where a = "blkLo p" and n = "up8 (unat (blkSize h p)) + 16"])
    (use assms in \<open>auto simp: block_ok_def blkLo_def\<close>)

lemma poke_block:
  assumes "i + length bs \<le> unat (blkSize h p)"
  shows "payload_write h (poke h (unat p + i) bs) p"
proof -
  have "i + length bs \<le> up8 (unat (blkSize h p))"
    using assms up8_ge order_trans by blast
  then show ?thesis
    unfolding payload_write_def poke_def
    by (intro exI [of _ "(heap_ram h)\<lparr>bytes := write_bytes (bytes (heap_ram h)) (unat p + i) bs\<rparr>"])
      (auto simp: blkHi_def intro!: write_bytes_outside)
qed

lemma poke_contents:
  assumes "i + length bs \<le> unat (blkSize h p)" and "blkSize (poke h (unat p + i) bs) p = blkSize h p"
  shows "contents (poke h (unat p + i) bs) p = overwrite (contents h p) i bs"
proof (rule nth_equalityI)
  show "length (contents (poke h (unat p + i) bs) p) = length (overwrite (contents h p) i bs)"
    using assms by simp
  fix j
  assume "j < length (contents (poke h (unat p + i) bs) p)"
  then have "j < unat (blkSize h p)"
    using assms(2) by simp
  then show "contents (poke h (unat p + i) bs) p ! j = overwrite (contents h p) i bs ! j"
    using assms by (simp add: nth_overwrite) (auto simp: contents_def read_bytes_def poke_def write_bytes_def)
qed


lemma heap_wf_poke:
  fixes h :: "'a firstfit_heap_scheme"
  assumes wf: "heap_wf h live fl" and p: "p \<in> set live" and b: "i + length bs \<le> unat (blkSize h p)"
  shows "heap_wf (poke h (unat p + i) bs) live fl"
    and "\<And>q. q \<in> set live \<union> set fl \<Longrightarrow> blkSize (poke h (unat p + i) bs) q = blkSize h q"
    and "untouched h (poke h (unat p + i) bs) (set live - {p})"
    and "firstfit_heap.more (poke h (unat p + i) bs) = firstfit_heap.more h"
    and "contents (poke h (unat p + i) bs) p = overwrite (contents h p) i bs"
proof -
  note w = heap_wf_payload [OF wf poke_block [OF b] p]
  show "heap_wf (poke h (unat p + i) bs) live fl"
    "\<And>q. q \<in> set live \<union> set fl \<Longrightarrow> blkSize (poke h (unat p + i) bs) q = blkSize h q"
    "firstfit_heap.more (poke h (unat p + i) bs) = firstfit_heap.more h"
    using w by blast+
  have "keeps h (poke h (unat p + i) bs) (\<Union>q \<in> set live - {p}. blkRange h q)"
    by (rule keeps_subset [OF w(3)]) auto
  then show "untouched h (poke h (unat p + i) bs) (set live - {p})"
    by (rule keeps_untouched [OF wf]) auto
  show "contents (poke h (unat p + i) bs) p = overwrite (contents h p) i bs"
    using p by (intro poke_contents [OF b] w(2)) auto
qed

lemma heap_memset_run:
  "mapped_range (heap_ram h) (unat p) (unat n) \<Longrightarrow>
    heap_memset p c n h = Inr ((), poke h (unat p) (replicate (unat n) c))"
  by (simp add: heap_memset_def memset_def ram_write_def poke_def)

lemma heap_memcpy_run:
  "mapped_range (heap_ram h) (unat dst) (unat n) \<Longrightarrow> mapped_range (heap_ram h) (unat src) (unat n) \<Longrightarrow>
    heap_memcpy dst src n h =
      Inr ((), poke h (unat dst) (read_bytes (bytes (heap_ram h)) (unat src) (unat n)))"
  by (simp add: heap_memcpy_def memcpy_def ram_read_def ram_write_def poke_def)

section \<open>calloc and realloc\<close>

lemma getSize_run: "heap_wf h live fl \<Longrightarrow> p \<in> set live \<union> set fl \<Longrightarrow> getSize p h = Inr (blkSize h p, h)"
  unfolding getSize_def blkSize_def
  using heap_wf_cells(2) heap_load_ok [of h "p - 8"] by (fastforce simp: algebra_simps)

text \<open>What a successful allocation of \<open>n\<close> bytes gives the program.\<close>

definition allocated ::
  "'a firstfit_heap_scheme \<Rightarrow> 'a firstfit_heap_scheme \<Rightarrow> u64 list \<Rightarrow> u64 \<Rightarrow> u64 \<Rightarrow> bool" where
  "allocated h h' live n p \<longleftrightarrow>
     (\<exists>fl'. heap_wf h' (p # live) fl') \<and> n \<le> blkSize h' p \<and> untouched h h' (set live) \<and>
     firstfit_heap.more h' = firstfit_heap.more h"

lemma got_block_allocated: "heap_wf h live fl \<Longrightarrow> got_block h h' live fl n p fl' \<Longrightarrow> allocated h h' live n p"
  using keeps_untouched [of h live fl h' "set live"] by (auto simp: got_block_def allocated_def)

lemma allocated_fresh: "allocated h h' live n p \<Longrightarrow> p \<notin> set live \<and> p \<noteq> 0"
proof -
  assume "allocated h h' live n p"
  then obtain fl' where wf: "heap_wf h' (p # live) fl'"
    by (auto simp: allocated_def)
  show ?thesis
    using heap_wf_cells(4) [OF wf, of p] wf by (simp add: heap_wf_def)
qed

text \<open>Filling the first bytes of a fresh block.\<close>

lemma allocated_poke:
  assumes a: "allocated h h1 live n p" and len: "length bs \<le> unat n"
  shows "allocated h (poke h1 (unat p) bs) live n p"
    and "take (length bs) (contents (poke h1 (unat p) bs) p) = bs"
    and "mapped_range (heap_ram h1) (unat p) (length bs)"
proof -
  obtain fl' where wf1: "heap_wf h1 (p # live) fl'"
    using a by (auto simp: allocated_def)
  have fit: "0 + length bs \<le> unat (blkSize h1 p)"
    using a len by (simp add: allocated_def word_le_nat_alt)
  have pl: "p \<in> set (p # live)" by simp
  note w = heap_wf_poke [OF wf1 pl fit, simplified add_0_right]
  have "untouched h (poke h1 (unat p) bs) (set live \<inter> (set (p # live) - {p}))"
    by (rule untouched_trans [OF _ w(3)]) (use a in \<open>simp add: allocated_def\<close>)
  then have "untouched h (poke h1 (unat p) bs) (set live)"
    by (rule untouched_mono) (use allocated_fresh [OF a] in auto)
  then show "allocated h (poke h1 (unat p) bs) live n p"
    using a w(1,4) w(2) [of p] by (auto simp: allocated_def)
  show "take (length bs) (contents (poke h1 (unat p) bs) p) = bs"
    by (simp add: w(5) overwrite_def)
  have "mapped_range (heap_ram h1) (unat p + 0) (length bs)"
    by (rule block_mapped) (use wf1 fit up8_ge [of "unat (blkSize h1 p)"] in
        \<open>auto intro: heap_wf_block_ok\<close>)
  then show "mapped_range (heap_ram h1) (unat p) (length bs)"
    by simp
qed

lemma ff_malloc_allocated:
  assumes "mmap_spec os" and "heap_wf h live fl" and "1 \<le> unat sz" and "unat sz \<le> 16352"
  shows "ff_malloc os sz h = Inl Enomem \<or>
    (\<exists>p h'. ff_malloc os sz h = Inr (p, h') \<and> allocated h h' live sz p)"
  using ff_malloc_spec [OF assms] got_block_allocated [OF assms(2)] by blast

lemma stdlib_calloc_spec:
  assumes os: "mmap_spec os" and wf: "heap_wf h live fl"
    and sz: "1 \<le> unat (count * elsize)" "unat (count * elsize) \<le> 16352"
  defines "n \<equiv> count * elsize"
  shows "stdlib_calloc os count elsize h = Inl Enomem \<or>
    (\<exists>p h'. stdlib_calloc os count elsize h = Inr (p, h') \<and> allocated h h' live n p \<and>
       take (unat n) (contents h' p) = replicate (unat n) 0)"
  using ff_malloc_allocated [OF os wf sz, folded n_def]
proof (elim disjE exE conjE)
  fix p h1
  assume r: "ff_malloc os n h = Inr (p, h1)" and a: "allocated h h1 live n p"
  note w = allocated_poke [OF a, of "replicate (unat n) 0", simplified]
  have "stdlib_calloc os count elsize h = Inr (p, poke h1 (unat p) (replicate (unat n) 0))"
    using r w(3) by (simp add: stdlib_calloc_def heap_memset_run flip: n_def)
  then show ?thesis
    using w(1,2) by blast
qed (simp add: stdlib_calloc_def flip: n_def)

lemma stdlib_malloc_spec:
  assumes os: "mmap_spec os" and wf: "heap_wf h live fl" and sz: "unat sz \<le> 16352"
  shows "stdlib_malloc os sz h = Inl Enomem \<or>
    (\<exists>p h'. stdlib_malloc os sz h = Inr (p, h') \<and> allocated h h' live (stdlib_round sz) p)"
  unfolding stdlib_malloc_def
  using stdlib_round_small [OF sz] by (intro ff_malloc_allocated [OF os wf]) auto

lemma stdlib_free_spec:
  assumes wf: "heap_wf h live fl" and p: "p \<in> set live"
  shows "\<exists>h'. stdlib_free p h = Inr ((), h') \<and> heap_wf h' (remove1 p live) (insort p fl) \<and>
    untouched h h' (set live - {p}) \<and> firstfit_heap.more h' = firstfit_heap.more h"
  using ff_free_spec [OF wf p] keeps_untouched [OF wf, of _ "set live - {p}"]
  by (auto simp: stdlib_free_def gave_block_def)


text \<open>
  \<open>realloc\<close> of a block that does not shrink: a block with the old bytes in front, and the old block
  given back.
\<close>

lemma stdlib_realloc_spec:
  assumes os: "mmap_spec os" and wf: "heap_wf h live fl" and p: "p \<in> set live"
    and sz: "unat sz \<le> 16352" and grow: "blkSize h p \<le> stdlib_round sz"
  shows "stdlib_realloc os p sz h = Inl Enomem \<or>
    (\<exists>q h' fl'. stdlib_realloc os p sz h = Inr (q, h') \<and> q \<notin> set live \<and>
       heap_wf h' (q # remove1 p live) fl' \<and> stdlib_round sz \<le> blkSize h' q \<and>
       take (unat (blkSize h p)) (contents h' q) = contents h p \<and>
       untouched h h' (set live - {p}) \<and> firstfit_heap.more h' = firstfit_heap.more h)"
proof -
  let ?n = "stdlib_round sz"
  have p0: "p \<noteq> 0" and size: "getSize p h = Inr (blkSize h p, h)"
    using heap_wf_cells(4) [OF wf, of p] getSize_run [OF wf, of p] p by auto
  have n: "1 \<le> unat ?n" "unat ?n \<le> 16352"
    using stdlib_round_small [OF sz] by simp_all
  from ff_malloc_allocated [OF os wf n] show ?thesis
  proof (elim disjE exE conjE)
    assume "ff_malloc os ?n h = Inl Enomem"
    then show ?thesis
      using p0 size by (simp add: stdlib_realloc_def Let_def)
  next
    fix q h1
    assume r: "ff_malloc os ?n h = Inr (q, h1)" and a: "allocated h h1 live ?n q"
    let ?h2 = "poke h1 (unat q) (contents h p)"
    note fresh = allocated_fresh [OF a]
    have old: "contents h1 p = contents h p" "blkSize h1 p = blkSize h p"
      using a p by (simp_all add: allocated_def untouched_def)
    have len: "length (contents h p) \<le> unat ?n"
      using grow by (simp add: word_le_nat_alt)
    note w = allocated_poke [OF a len]
    obtain fl1 fl2 where wf1: "heap_wf h1 (q # live) fl1" and wf2: "heap_wf ?h2 (q # live) fl2"
      using a w(1) by (auto simp: allocated_def)
    have "mapped_range (heap_ram h1) (unat p + 0) (unat (blkSize h p))"
      by (rule block_mapped)
        (use heap_wf_block_ok [OF wf1, of p] p old up8_ge [of "unat (blkSize h p)"] in auto)
    then have cpy: "heap_memcpy q p (blkSize h p) h1 = Inr ((), ?h2)"
      using w(3) old by (simp add: heap_memcpy_run contents_def)
    have pq: "p \<in> set (q # live)"
      using p by simp
    obtain h3 where f: "ff_free p ?h2 = Inr ((), h3)"
      and wf3: "heap_wf h3 (remove1 p (q # live)) (insort p fl2)"
      and u3: "untouched ?h2 h3 (set (q # live) - {p})"
      and m3: "firstfit_heap.more h3 = firstfit_heap.more ?h2"
      using stdlib_free_spec [OF wf2 pq] by (auto simp: stdlib_free_def)
    have run: "stdlib_realloc os p sz h = Inr (q, h3)"
      using p0 size r cpy f fresh by (simp add: stdlib_realloc_def Let_def)
    have ne: "q \<noteq> p"
      using fresh p by auto
    then have q3: "blkSize h3 q = blkSize ?h2 q" "contents h3 q = contents ?h2 q"
      using u3 by (simp_all add: untouched_def)
    have "untouched h h3 (set live \<inter> (set (q # live) - {p}))"
      by (rule untouched_trans [OF _ u3]) (use w(1) in \<open>simp add: allocated_def\<close>)
    then have u: "untouched h h3 (set live - {p})"
      by (rule untouched_mono) auto
    have "heap_wf h3 (q # remove1 p live) (insort p fl2)"
      using wf3 ne by simp
    moreover have "?n \<le> blkSize h3 q" "firstfit_heap.more h3 = firstfit_heap.more h"
      using w(1) q3 m3 by (simp_all add: allocated_def)
    moreover have "take (unat (blkSize h p)) (contents h3 q) = contents h p"
      using w(2) q3 by simp
    ultimately show ?thesis
      using run fresh u by blast
  qed
qed


section \<open>strdup\<close>

lemma c_strlen_string:
  assumes "\<And>i. i \<le> length str \<Longrightarrow> mapped_range r (a + i) 1"
    and "read_bytes (bytes r) a (Suc (length str)) = str @ [0]" and "0 \<notin> set str"
  shows "c_strlen r a n = Some (Inr (n + length str))"
  using assms
proof (induction str arbitrary: a n)
  case Nil
  then show ?case
    using Nil(1) [of 0] by (subst c_strlen.simps) (simp add: read_bytes_def)
next
  case (Cons c str)
  have bs: "bytes r a = c" "read_bytes (bytes r) (Suc a) (Suc (length str)) = str @ [0]"
  proof -
    have "read_bytes (bytes r) a (Suc (length (c # str))) =
        bytes r a # read_bytes (bytes r) (Suc a) (Suc (length str))"
      by (simp add: read_bytes_def upt_conv_Cons map_Suc_upt [symmetric] del: upt_Suc)
    then show "bytes r a = c" "read_bytes (bytes r) (Suc a) (Suc (length str)) = str @ [0]"
      using Cons.prems(2) by simp_all
  qed
  have "c_strlen r (Suc a) (Suc n) = Some (Inr (Suc n + length str))"
    by (rule Cons.IH) (use Cons.prems(1) [of "Suc i" for i] Cons.prems(3) bs in auto)
  then show ?case
    using Cons.prems(1) [of 0] Cons.prems(3) bs(1) by (subst c_strlen.simps) auto
qed

lemma read_prefix:
  "n \<le> unat (blkSize h p) \<Longrightarrow> read_bytes (bytes (heap_ram h)) (unat p) n = take n (contents h p)"
  by (simp add: contents_def read_bytes_def take_map)

lemma stdlib_strdup_spec:
  assumes os: "mmap_spec os" and wf: "heap_wf h live fl" and p: "p \<in> set live"
    and str: "contents h p = str @ 0 # rest" "0 \<notin> set str" and len: "length str < 16352"
  shows "stdlib_strdup os p h = Inl Enomem \<or>
    (\<exists>q h'. stdlib_strdup os p h = Inr (q, h') \<and>
       allocated h h' live (of_nat (length str) + 1) q \<and>
       take (Suc (length str)) (contents h' q) = str @ [0])"
proof -
  let ?n = "of_nat (length str) + 1 :: u64"
  have fit: "Suc (length str) \<le> unat (blkSize h p)"
    using arg_cong [OF str(1), of length] by simp
  have ok: "block_ok h p"
    using wf p by (simp add: heap_wf_block_ok)
  have map: "mapped_range (heap_ram h) (unat p + i) k" if "i + k \<le> unat (blkSize h p)" for i k
    using block_mapped [OF ok] that up8_ge [of "unat (blkSize h p)"] by simp
  have rd: "read_bytes (bytes (heap_ram h)) (unat p) (Suc (length str)) = str @ [0]"
    unfolding read_prefix [OF fit] by (simp add: str(1))
  have "c_strlen (heap_ram h) (unat p) 0 = Some (Inr (length str))"
    using c_strlen_string [of str "heap_ram h" "unat p" 0] map fit rd str(2) by auto
  then have run: "stdlib_strdup os p h =
      seq (ff_malloc os ?n) (\<lambda>s2. seq (heap_memcpy s2 p ?n) (\<lambda>_. ok s2)) h"
    by (simp add: stdlib_strdup_def)
  have n: "unat ?n = Suc (length str)"
  proof -
    have "unat (of_nat (length str) :: u64) = length str"
      by (rule of_nat_inverse [OF refl]) (use len in simp)
    then show ?thesis
      using len by (subst unat_add_small) auto
  qed
  have nb: "1 \<le> unat ?n" "unat ?n \<le> 16352"
    using len by (simp_all add: n)
  from ff_malloc_allocated [OF os wf nb] show ?thesis
  proof (elim disjE exE conjE)
    fix q h1
    assume r: "ff_malloc os ?n h = Inr (q, h1)" and a: "allocated h h1 live ?n q"
    note w = allocated_poke [OF a, of "str @ [0]", simplified n, simplified]
    have p1: "blkSize h1 p = blkSize h p" "contents h1 p = contents h p"
      using a p by (simp_all add: allocated_def untouched_def)
    obtain fl1 where wf1: "heap_wf h1 (q # live) fl1"
      using a by (auto simp: allocated_def)
    have m1: "mapped_range (heap_ram h1) (unat p + 0) (Suc (length str))"
      by (rule block_mapped) (use heap_wf_block_ok [OF wf1, of p] p p1 fit up8_ge [of "unat (blkSize h p)"] in auto)
    have rd1: "read_bytes (bytes (heap_ram h1)) (unat p) (Suc (length str)) = str @ [0]"
      using fit by (simp add: read_prefix p1 str(1))
    have "heap_memcpy q p ?n h1 = Inr ((), poke h1 (unat q) (str @ [0]))"
      using heap_memcpy_run [of h1 q ?n p] w(3) m1 rd1 by (simp add: n)
    then show ?thesis
      using run r w(1,2) by simp
  qed (simp add: run)
qed

end
