(* ===== verification/LockedInv.thy ===== *)
theory LockedInv
  imports StdlibInv
begin

text \<open>
  The locked layer implements the allocator interface: \<open>heap_rel h m\<close> relates a heap object whose
  mutex is free to the view \<open>m\<close> of a program, and every operation keeps the relation.
\<close>

lemma lock_field [simp]:
  "blkSize (alock_update f h) p = blkSize h p"
  "blkRange (alock_update f h) p = blkRange h p"
  "contents (alock_update f h) p = contents h p"
  "heap_wf (alock_update f h) live fl = heap_wf h live fl"
  "fits (alock_update f h) sz p = fits h sz p"
  "untouched h' (alock_update f h) S = untouched h' h S"
  "untouched (alock_update f h) h' S = untouched h h' S"
  by (simp_all add: blkSize_def blkHi_def blkRange_def contents_def blocks_ok_def block_ok_def
      blocks_apart_def arenas_ok_def arena_ok_def source_ok_def below_arena_def arenaSpace_def
      heap_wf_def untouched_def fits_def)

lemma guarded_ok:
  assumes "\<not> alock h" and "m (h\<lparr>alock := True\<rparr>) = Inr (x, h')"
  shows "guarded m h = Inr (x, h'\<lparr>alock := False\<rparr>)"
  using assms by (simp add: guarded_def heap_lock_def heap_unlock_def)

lemma guarded_crash:
  assumes "\<not> alock h" and "m (h\<lparr>alock := True\<rparr>) = Inl e"
  shows "guarded m h = Inl e"
  using assms by (simp add: guarded_def heap_lock_def)

text \<open>A second operation while the mutex is held never returns.\<close>

lemma guarded_held: "alock h \<Longrightarrow> guarded m h = Inl Hang"
  by (simp add: guarded_def heap_lock_def)

definition heap_rel :: "locked_heap \<Rightarrow> view \<Rightarrow> bool" where
  "heap_rel h m \<longleftrightarrow>
     \<not> alock h \<and>
     (\<exists>live fl. heap_wf h live fl \<and> (\<forall>p. m p = (if p \<in> set live then Some (contents h p) else None)))"

lemma heap_rel_intro:
  assumes "heap_wf h live fl" and "\<not> alock h"
    and "\<And>p. m p = (if p \<in> set live then Some (contents h p) else None)"
  shows "heap_rel h m"
  using assms by (auto simp: heap_rel_def)

lemma new_heap_rel: "heap_rel (new_heap purpose) Map.empty"
  by (rule heap_rel_intro [of _ "[]" "[]"])
    (simp_all add: new_heap_def heap_wf_def blocks_ok_def arenas_ok_def)

text \<open>An allocation of the layers below, under the lock.\<close>

lemma guarded_allocates:
  assumes rel: "heap_rel h m"
    and spec: "\<And>h live fl. heap_wf h live fl \<Longrightarrow> f h = Inl Enomem \<or>
      (\<exists>p h'. f h = Inr (p, h') \<and> allocated h h' live n p \<and> P (contents h' p))"
    and Q: "\<And>bs. unat n \<le> length bs \<Longrightarrow> P bs \<Longrightarrow> Q bs"
  shows "allocates heap_rel (guarded f) h m Q"
proof -
  obtain live fl where nl: "\<not> alock h" and wf: "heap_wf h live fl"
    and m: "\<And>p. m p = (if p \<in> set live then Some (contents h p) else None)"
    using rel by (auto simp: heap_rel_def)
  have "heap_wf (h\<lparr>alock := True\<rparr>) live fl"
    using wf by simp
  from spec [OF this] show ?thesis
  proof (elim disjE exE conjE)
    assume "f (h\<lparr>alock := True\<rparr>) = Inl Enomem"
    from guarded_crash [where m = f, OF nl this] show ?thesis
      by (simp add: allocates_def)
  next
    fix p h'
    assume r: "f (h\<lparr>alock := True\<rparr>) = Inr (p, h')"
      and a: "allocated (h\<lparr>alock := True\<rparr>) h' live n p" and c: "P (contents h' p)"
    note fresh = allocated_fresh [OF a]
    obtain fl' where wf': "heap_wf h' (p # live) fl'" and u: "untouched h h' (set live)"
      and n: "n \<le> blkSize h' p"
      using a by (auto simp: allocated_def)
    have "heap_rel (h'\<lparr>alock := False\<rparr>) (m(p \<mapsto> contents h' p))"
      by (rule heap_rel_intro [of _ "p # live" fl']) (use wf' u m in \<open>auto simp: untouched_def\<close>)
    moreover have "Q (contents h' p)"
      using Q c n by (simp add: word_le_nat_alt)
    ultimately show ?thesis
      using guarded_ok [where m = f, OF nl r] fresh m by (auto simp: allocates_def)
  qed
qed

lemma locked_malloc_allocates:
  assumes os: "mmap_spec os" and rel: "heap_rel h m" and sz: "unat sz \<le> max_request"
  shows "allocates heap_rel (locked_malloc os sz) h m (\<lambda>bs. unat sz \<le> length bs)"
  unfolding locked_malloc_def
proof (rule guarded_allocates [OF rel, where P = "\<lambda>_. True" and n = "stdlib_round sz"])
  have s: "unat sz \<le> 16352"
    using sz by (simp add: max_request_def)
  then show "unat sz \<le> length bs" if "unat (stdlib_round sz) \<le> length bs" for bs :: "u8 list"
    using stdlib_round_small(2) [OF s] that by simp
  fix h :: locked_heap and live fl
  assume "heap_wf h live fl"
  from stdlib_malloc_spec [OF os this s]
  show "stdlib_malloc os sz h = Inl Enomem \<or> (\<exists>p h'. stdlib_malloc os sz h = Inr (p, h') \<and>
      allocated h h' live (stdlib_round sz) p \<and> True)"
    by simp
qed

lemma locked_realloc_null: "locked_realloc os 0 sz = locked_malloc os sz"
  by (simp add: locked_realloc_def locked_malloc_def stdlib_realloc_def stdlib_malloc_def)

lemma locked_calloc_allocates:
  assumes os: "mmap_spec os" and rel: "heap_rel h m"
    and sz: "1 \<le> unat n * unat sz" "unat n * unat sz \<le> max_request"
  shows "allocates heap_rel (locked_calloc os n sz) h m (\<lambda>bs. unat n * unat sz \<le> length bs \<and>
    take (unat n * unat sz) bs = replicate (unat n * unat sz) 0)"
proof -
  have e: "unat (n * sz) = unat n * unat sz"
    using sz by (simp add: unat_word_ariths max_request_def)
  have n: "1 \<le> unat (n * sz)" "unat (n * sz) \<le> 16352"
    using sz e by (simp_all add: max_request_def)
  show ?thesis
    unfolding locked_calloc_def e [symmetric]
  proof (rule guarded_allocates [OF rel])
    show "stdlib_calloc os n sz h = Inl Enomem \<or> (\<exists>p h'. stdlib_calloc os n sz h = Inr (p, h') \<and>
        allocated h h' live (n * sz) p \<and>
        take (unat (n * sz)) (contents h' p) = replicate (unat (n * sz)) 0)"
      if "heap_wf h live fl" for h :: locked_heap and live fl
      by (rule stdlib_calloc_spec [OF os that n])
  qed simp
qed

lemma locked_realloc_rel:
  assumes os: "mmap_spec os" and rel: "heap_rel h m" and old: "m p = Some old"
    and sz: "length old \<le> unat sz" "unat sz \<le> max_request"
  shows "locked_realloc os p sz h = Inl Enomem \<or>
    (\<exists>q h' bs. locked_realloc os p sz h = Inr (q, h') \<and> q \<noteq> 0 \<and> m q = None \<and> unat sz \<le> length bs \<and>
       take (length old) bs = old \<and> heap_rel h' ((m(p := None))(q \<mapsto> bs)))"
proof -
  obtain live fl where nl: "\<not> alock h" and wf: "heap_wf (h\<lparr>alock := True\<rparr>) live fl"
    and m: "\<And>p. m p = (if p \<in> set live then Some (contents h p) else None)"
    using rel by (auto simp: heap_rel_def)
  have p: "p \<in> set live" "old = contents h p" and s: "unat sz \<le> 16352"
    using old m [of p] sz by (auto simp: max_request_def split: if_splits)
  have grow: "blkSize (h\<lparr>alock := True\<rparr>) p \<le> stdlib_round sz"
    using sz p stdlib_round_small(2) [OF s] by (simp add: word_le_nat_alt)
  have rd: "unat sz \<le> unat (stdlib_round sz)"
    by (rule stdlib_round_small(2) [OF s])
  from stdlib_realloc_spec [OF os wf p(1) s grow] show ?thesis
  proof (elim disjE exE conjE)
    assume "stdlib_realloc os p sz (h\<lparr>alock := True\<rparr>) = Inl Enomem"
    from guarded_crash [where m = "stdlib_realloc os p sz", OF nl this] show ?thesis
      by (simp add: locked_realloc_def)
  next
    fix q h' fl'
    assume r: "stdlib_realloc os p sz (h\<lparr>alock := True\<rparr>) = Inr (q, h')" and q: "q \<notin> set live"
      and wf': "heap_wf h' (q # remove1 p live) fl'" and n: "stdlib_round sz \<le> blkSize h' q"
      and t: "take (unat (blkSize (h\<lparr>alock := True\<rparr>) p)) (contents h' q) = contents (h\<lparr>alock := True\<rparr>) p"
      and u: "untouched (h\<lparr>alock := True\<rparr>) h' (set live - {p})"
    have d: "distinct live"
      using wf by (simp add: heap_wf_def)
    have "heap_rel (h'\<lparr>alock := False\<rparr>) ((m(p := None))(q \<mapsto> contents h' q))"
      by (rule heap_rel_intro [of _ "q # remove1 p live" fl'])
        (use wf' u m d p(1) q in \<open>auto simp: untouched_def set_remove1_eq\<close>)
    moreover have "q \<noteq> 0" "m q = None"
      using heap_wf_cells(4) [OF wf', of q] q m by simp_all
    moreover have "unat sz \<le> length (contents h' q)" "take (length old) (contents h' q) = old"
      using n rd t p(2) by (simp_all add: word_le_nat_alt)
    ultimately show ?thesis
      using guarded_ok [where m = "stdlib_realloc os p sz", OF nl r]
      unfolding locked_realloc_def by blast
  qed
qed

lemma locked_free_rel:
  assumes rel: "heap_rel h m" and p: "m p \<noteq> None"
  shows "\<exists>h'. locked_free p h = Inr ((), h') \<and> heap_rel h' (m(p := None))"
proof -
  obtain live fl where nl: "\<not> alock h" and wf: "heap_wf (h\<lparr>alock := True\<rparr>) live fl"
    and m: "\<And>p. m p = (if p \<in> set live then Some (contents h p) else None)"
    using rel by (auto simp: heap_rel_def)
  have pl: "p \<in> set live" and d: "distinct live"
    using p m [of p] wf by (auto simp: heap_wf_def split: if_splits)
  obtain h' where r: "stdlib_free p (h\<lparr>alock := True\<rparr>) = Inr ((), h')"
    and wf': "heap_wf h' (remove1 p live) (insort p fl)"
    and u: "untouched (h\<lparr>alock := True\<rparr>) h' (set live - {p})"
    using stdlib_free_spec [OF wf pl] by blast
  have "heap_rel (h'\<lparr>alock := False\<rparr>) (m(p := None))"
    by (rule heap_rel_intro [of _ "remove1 p live" "insort p fl"])
      (use wf' u m d in \<open>auto simp: untouched_def set_remove1_eq\<close>)
  then show ?thesis
    using guarded_ok [where m = "stdlib_free p", OF nl r] by (auto simp: locked_free_def)
qed

lemma locked_free_null_rel:
  assumes "heap_rel h m"
  shows "\<exists>h'. locked_free 0 h = Inr ((), h') \<and> heap_rel h' m"
proof -
  obtain live fl where nl: "\<not> alock h" and wf: "heap_wf h live fl"
    and m: "\<And>p. m p = (if p \<in> set live then Some (contents h p) else None)"
    using assms by (auto simp: heap_rel_def)
  have "stdlib_free 0 (h\<lparr>alock := True\<rparr>) = Inr ((), h\<lparr>alock := True\<rparr>)"
    by (simp add: stdlib_free_def ff_free_null)
  from guarded_ok [where m = "stdlib_free 0", OF nl this]
  have "locked_free 0 h = Inr ((), h\<lparr>alock := False\<rparr>)"
    by (simp add: locked_free_def)
  moreover have "heap_rel (h\<lparr>alock := False\<rparr>) m"
    by (rule heap_rel_intro [of _ live fl]) (use wf m in simp_all)
  ultimately show ?thesis by blast
qed

text \<open>A write of the program into one of its blocks.\<close>

definition user_store :: "u64 \<Rightarrow> nat \<Rightarrow> u8 list \<Rightarrow> ('a source_heap_scheme, unit) op" where
  "user_store p i bs =
     (\<lambda>h. rbind (ram_write (heap_ram h) (unat p + i) bs) (\<lambda>r. Inr ((), h\<lparr>heap_ram := r\<rparr>)))"

lemma user_store_rel:
  assumes rel: "heap_rel h m" and old: "m p = Some old" and b: "i + length bs \<le> length old"
  shows "\<exists>h'. user_store p i bs h = Inr ((), h') \<and> heap_rel h' (m(p \<mapsto> overwrite old i bs))"
proof -
  obtain live fl where nl: "\<not> alock h" and wf: "heap_wf h live fl"
    and m: "\<And>p. m p = (if p \<in> set live then Some (contents h p) else None)"
    using rel by (auto simp: heap_rel_def)
  have p: "p \<in> set live" "old = contents h p"
    using old m [of p] by (auto split: if_splits)
  have fit: "i + length bs \<le> unat (blkSize h p)"
    using b p by simp
  note w = heap_wf_poke [OF wf p(1) fit]
  have "mapped_range (heap_ram h) (unat p + i) (length bs)"
    by (rule block_mapped) (use heap_wf_block_ok [OF wf] p fit up8_ge [of "unat (blkSize h p)"] in auto)
  then have "user_store p i bs h = Inr ((), poke h (unat p + i) bs)"
    by (simp add: user_store_def ram_write_def poke_def)
  moreover have "\<not> alock (poke h (unat p + i) bs)"
    using nl by (simp add: poke_def)
  then have "heap_rel (poke h (unat p + i) bs) (m(p \<mapsto> overwrite old i bs))"
    by (rule heap_rel_intro [OF w(1)]) (use w(3,5) m p in \<open>auto simp: untouched_def\<close>)
  ultimately show ?thesis
    by blast
qed


text \<open>\<open>memcpy\<close> of a whole block into another one that is large enough.\<close>

lemma copy_block_rel:
  assumes rel: "heap_rel h m" and p: "m p = Some old" and q: "m q = Some bs"
    and len: "length old \<le> length bs"
  shows "\<exists>h'. heap_memcpy q p (of_nat (length old)) h = Inr ((), h') \<and>
    heap_rel h' (m(q \<mapsto> overwrite bs 0 old))"
proof -
  obtain live fl where wf: "heap_wf h live fl"
    and m: "\<And>p. m p = (if p \<in> set live then Some (contents h p) else None)"
    using rel by (auto simp: heap_rel_def)
  have pq: "p \<in> set live" "q \<in> set live" "old = contents h p" "bs = contents h q"
    using p q m [of p] m [of q] by (auto split: if_splits)
  have map: "mapped_range (heap_ram h) (unat x) k"
    if "x \<in> set live" "k \<le> unat (blkSize h x)" for x k
    using block_mapped [OF heap_wf_block_ok [OF wf], of x 0 k] that up8_ge [of "unat (blkSize h x)"] by simp
  have "heap_memcpy q p (of_nat (length old)) h = user_store q 0 old h"
    using heap_memcpy_run [of h q "blkSize h p" p] map [of p] map [of q] pq len
    by (simp add: user_store_def ram_write_def poke_def contents_def)
  then show ?thesis
    using user_store_rel [OF rel q, of 0 old] len by simp
qed

section \<open>The interface\<close>

definition heap_serves :: "os \<Rightarrow> locked_heap \<Rightarrow> view \<Rightarrow> bool" where
  "heap_serves os h m \<longleftrightarrow> mmap_spec os \<and> heap_rel h m"

lemma allocates_serves:
  "mmap_spec os \<Longrightarrow> allocates heap_rel f h m P \<Longrightarrow> allocates (heap_serves os) f h m P"
  by (simp add: allocates_def heap_serves_def)

interpretation locked: allocator "heap_serves os" "locked_malloc os" "locked_realloc os" locked_free
    user_store "locked_calloc os"
  for os
proof unfold_locales
  fix h m sz n p old i bs
  assume "heap_serves os h m"
  then have os: "mmap_spec os" and r: "heap_rel h m"
    by (simp_all add: heap_serves_def)
  show "allocates (heap_serves os) (locked_malloc os sz) h m (\<lambda>bs. unat sz \<le> length bs)"
    "allocates (heap_serves os) (locked_realloc os 0 sz) h m (\<lambda>bs. unat sz \<le> length bs)"
    if "unat sz \<le> max_request"
    unfolding locked_realloc_null
    by (intro allocates_serves [OF os] locked_malloc_allocates [OF os r that])+
  show "allocates (heap_serves os) (locked_calloc os n sz) h m (\<lambda>bs. unat n * unat sz \<le> length bs \<and>
      take (unat n * unat sz) bs = replicate (unat n * unat sz) 0)"
    if "1 \<le> unat n * unat sz" "unat n * unat sz \<le> max_request"
    by (intro allocates_serves [OF os] locked_calloc_allocates [OF os r that])
  show "locked_realloc os p sz h = Inl Enomem \<or>
    (\<exists>q h' bs. locked_realloc os p sz h = Inr (q, h') \<and> q \<noteq> 0 \<and> m q = None \<and> unat sz \<le> length bs \<and>
       take (length old) bs = old \<and> heap_serves os h' ((m(p := None))(q \<mapsto> bs)))"
    if "m p = Some old" "length old \<le> unat sz" "unat sz \<le> max_request"
    using locked_realloc_rel [OF os r that] os by (simp add: heap_serves_def)
  show "\<exists>h'. locked_free 0 h = Inr ((), h') \<and> heap_serves os h' m"
    using locked_free_null_rel [OF r] os by (simp add: heap_serves_def)
  show "\<exists>h'. locked_free p h = Inr ((), h') \<and> heap_serves os h' (m(p := None))" if "m p \<noteq> None"
    using locked_free_rel [OF r that] os by (simp add: heap_serves_def)
  show "\<exists>h'. user_store p i bs h = Inr ((), h') \<and> heap_serves os h' (m(p \<mapsto> overwrite old i bs))"
    if "m p = Some old" "i + length bs \<le> length old"
    using user_store_rel [OF r that] os by (simp add: heap_serves_def)
qed

end
