(* ===== verification/Allocators.thy ===== *)
theory Allocators
  imports LockedInv
begin

text \<open>
  \<open>allocators/internal.cpp\<close>, \<open>allocators/shared.cpp\<close> and \<open>libgallocy.cpp\<close>: the entry points over
  the three heap objects of a process. Every heap object owns the zone it maps, so each has its own
  view of memory here; the locations in \<open>Constants\<close> keep the three zones apart.
\<close>

type_synonym i32 = "32 word"

record process =
  heap :: locked_heap
  local_internal_memory :: locked_heap
  shared_page_table :: locked_heap
  xSizeMap :: "u64 \<rightharpoonup> i32"

definition new_process :: process where
  "new_process =
     \<lparr>heap = new_heap PURPOSE_APPLICATION_HEAP,
      local_internal_memory = new_heap PURPOSE_INTERNAL_HEAP,
      shared_page_table = new_heap PURPOSE_SHARED_HEAP,
      xSizeMap = Map.empty\<rparr>"

abbreviation on_heap :: "(locked_heap, 'a) op \<Rightarrow> (process, 'a) op" where
  "on_heap \<equiv> lift_op heap (\<lambda>h s. s\<lparr>heap := h\<rparr>)"

abbreviation on_internal :: "(locked_heap, 'a) op \<Rightarrow> (process, 'a) op" where
  "on_internal \<equiv> lift_op local_internal_memory (\<lambda>h s. s\<lparr>local_internal_memory := h\<rparr>)"

abbreviation on_shared :: "(locked_heap, 'a) op \<Rightarrow> (process, 'a) op" where
  "on_shared \<equiv> lift_op shared_page_table (\<lambda>h s. s\<lparr>shared_page_table := h\<rparr>)"

section \<open>InternalMemoryHeap\<close>

definition internal_heap_malloc :: "os \<Rightarrow> u64 \<Rightarrow> (locked_heap, u64) op" where
  "internal_heap_malloc os sz = locked_malloc os sz"

definition internal_heap_realloc :: "os \<Rightarrow> u64 \<Rightarrow> u64 \<Rightarrow> (locked_heap, u64) op" where
  "internal_heap_realloc os ptr sz = locked_realloc os ptr sz"

definition internal_heap_strdup :: "os \<Rightarrow> u64 \<Rightarrow> (locked_heap, u64) op" where
  "internal_heap_strdup os s1 = locked_strdup os s1"

definition internal_heap_calloc :: "os \<Rightarrow> u64 \<Rightarrow> u64 \<Rightarrow> (locked_heap, u64) op" where
  "internal_heap_calloc os count elsize = locked_calloc os count elsize"

definition internal_heap_free :: "u64 \<Rightarrow> (locked_heap, unit) op" where
  "internal_heap_free ptr = locked_free ptr"

definition internal_heap_getSize :: "u64 \<Rightarrow> (locked_heap, u64) op" where
  "internal_heap_getSize ptr = locked_getSize ptr"

definition internal_heap_reset :: "(locked_heap, unit) op" where
  "internal_heap_reset = ff_reset"

lemmas internal_heap_defs [simp] = internal_heap_malloc_def [abs_def] internal_heap_realloc_def [abs_def] internal_heap_strdup_def [abs_def]
  internal_heap_calloc_def [abs_def] internal_heap_free_def [abs_def] internal_heap_getSize_def [abs_def] internal_heap_reset_def

section \<open>SharedPageTableHeap\<close>

definition shared_heap_malloc :: "os \<Rightarrow> u64 \<Rightarrow> (locked_heap, u64) op" where
  "shared_heap_malloc os sz = locked_malloc os sz"

definition shared_heap_realloc :: "os \<Rightarrow> u64 \<Rightarrow> u64 \<Rightarrow> (locked_heap, u64) op" where
  "shared_heap_realloc os ptr sz = locked_realloc os ptr sz"

definition shared_heap_strdup :: "os \<Rightarrow> u64 \<Rightarrow> (locked_heap, u64) op" where
  "shared_heap_strdup os s1 = locked_strdup os s1"

definition shared_heap_calloc :: "os \<Rightarrow> u64 \<Rightarrow> u64 \<Rightarrow> (locked_heap, u64) op" where
  "shared_heap_calloc os count elsize = locked_calloc os count elsize"

definition shared_heap_free :: "u64 \<Rightarrow> (locked_heap, unit) op" where
  "shared_heap_free ptr = locked_free ptr"

definition shared_heap_getSize :: "u64 \<Rightarrow> (locked_heap, u64) op" where
  "shared_heap_getSize ptr = locked_getSize ptr"

definition shared_heap_reset :: "(locked_heap, unit) op" where
  "shared_heap_reset = ff_reset"

lemmas shared_heap_defs [simp] = shared_heap_malloc_def [abs_def] shared_heap_realloc_def [abs_def] shared_heap_strdup_def [abs_def]
  shared_heap_calloc_def [abs_def] shared_heap_free_def [abs_def] shared_heap_getSize_def [abs_def] shared_heap_reset_def

section \<open>internal.cpp\<close>

definition internal_malloc :: "os \<Rightarrow> u64 \<Rightarrow> (process, u64) op" where
  "internal_malloc os sz = on_internal (internal_heap_malloc os sz)"

definition internal_free :: "u64 \<Rightarrow> (process, unit) op" where
  "internal_free ptr = on_internal (internal_heap_free ptr)"

definition internal_realloc :: "os \<Rightarrow> u64 \<Rightarrow> u64 \<Rightarrow> (process, u64) op" where
  "internal_realloc os ptr sz = on_internal (internal_heap_realloc os ptr sz)"

definition internal_strdup :: "os \<Rightarrow> u64 \<Rightarrow> (process, u64) op" where
  "internal_strdup os s1 = on_internal (internal_heap_strdup os s1)"

definition internal_calloc :: "os \<Rightarrow> u64 \<Rightarrow> u64 \<Rightarrow> (process, u64) op" where
  "internal_calloc os count elsize = on_internal (internal_heap_calloc os count elsize)"

definition internal_malloc_usable_size :: "u64 \<Rightarrow> (process, u64) op" where
  "internal_malloc_usable_size ptr = on_internal (internal_heap_getSize ptr)"

section \<open>libgallocy.cpp\<close>

definition custom_malloc :: "os \<Rightarrow> u64 \<Rightarrow> (process, u64) op" where
  "custom_malloc os sz = on_heap (locked_malloc os sz)"

definition custom_free :: "u64 \<Rightarrow> (process, unit) op" where
  "custom_free ptr = on_heap (locked_free ptr)"

definition custom_realloc :: "os \<Rightarrow> u64 \<Rightarrow> u64 \<Rightarrow> (process, u64) op" where
  "custom_realloc os ptr sz = on_heap (locked_realloc os ptr sz)"

definition custom_malloc_usable_size :: "u64 \<Rightarrow> (process, u64) op" where
  "custom_malloc_usable_size ptr = on_heap (locked_getSize ptr)"

text \<open>\<open>LockedHeap\<close> does not define \<open>__reset\<close>, so the lock is not taken.\<close>

definition reset_memory_allocator :: "(process, unit) op" where
  "reset_memory_allocator = seq (on_heap ff_reset) (\<lambda>_. on_internal internal_heap_reset)"

section \<open>shared.cpp\<close>

text \<open>
  The parameters are \<open>int\<close>s: a negative one becomes a huge \<open>size_t\<close>. \<open>std::map::insert\<close> keeps the
  value of a key that is there, \<open>operator[]\<close> inserts a zero for a key that is not. The nodes of the
  map itself come from the same heap; here the map is a value.
\<close>

definition map_insert :: "('k \<rightharpoonup> 'v) \<Rightarrow> 'k \<Rightarrow> 'v \<Rightarrow> ('k \<rightharpoonup> 'v)" where
  "map_insert m k v = (case m k of None \<Rightarrow> m(k \<mapsto> v) | Some _ \<Rightarrow> m)"

definition sqlite_malloc :: "os \<Rightarrow> i32 \<Rightarrow> (process, u64) op" where
  "sqlite_malloc os sz =
     (if sz = 0 then ok 0
      else seq (on_shared (shared_heap_malloc os (scast sz)))
        (\<lambda>ptr. seq (modify (\<lambda>s. s\<lparr>xSizeMap := map_insert (xSizeMap s) ptr sz\<rparr>)) (\<lambda>_. ok ptr)))"

definition sqlite_free :: "u64 \<Rightarrow> (process, unit) op" where
  "sqlite_free ptr =
     seq (modify (\<lambda>s. s\<lparr>xSizeMap := (xSizeMap s)(ptr := None)\<rparr>))
       (\<lambda>_. on_shared (shared_heap_free ptr))"

definition sqlite_realloc :: "os \<Rightarrow> u64 \<Rightarrow> i32 \<Rightarrow> (process, u64) op" where
  "sqlite_realloc os ptr sz =
     (if ptr = 0 then on_shared (shared_heap_malloc os (scast sz))
      else seq (on_shared (shared_heap_getSize ptr))
        (\<lambda>min_size. seq (on_shared (shared_heap_malloc os (scast sz)))
          (\<lambda>buf. seq (if buf \<noteq> 0
                       then seq (on_shared (heap_memcpy buf ptr min_size))
                              (\<lambda>_. on_shared (shared_heap_free ptr))
                       else ok ())
            (\<lambda>_. seq (modify (\<lambda>s. s\<lparr>xSizeMap := map_insert (xSizeMap s) buf sz\<rparr>))
              (\<lambda>_. ok buf)))))"

definition sqlite_size :: "u64 \<Rightarrow> (process, i32) op" where
  "sqlite_size ptr = (\<lambda>s.
     case xSizeMap s ptr of
       None \<Rightarrow> Inr (0, s\<lparr>xSizeMap := (xSizeMap s)(ptr \<mapsto> 0)\<rparr>)
     | Some sz \<Rightarrow> Inr (sz, s))"

definition sqlite_roundup :: "i32 \<Rightarrow> i32" where
  "sqlite_roundup sz = sz"

definition sqlite_init :: "u64 \<Rightarrow> i32" where
  "sqlite_init ptr = 0"

definition sqlite_shutdown :: "u64 \<Rightarrow> (process, unit) op" where
  "sqlite_shutdown ptr = ok ()"


section \<open>The entry points as allocators\<close>

text \<open>A write of the program into a block of the internal heap.\<close>

definition internal_store :: "u64 \<Rightarrow> nat \<Rightarrow> u8 list \<Rightarrow> (process, unit) op" where
  "internal_store p i bs = on_internal (user_store p i bs)"

definition custom_store :: "u64 \<Rightarrow> nat \<Rightarrow> u8 list \<Rightarrow> (process, unit) op" where
  "custom_store p i bs = on_heap (user_store p i bs)"

interpretation in_internal: embedded_heap "heap_serves os" "locked_malloc os" "locked_realloc os"
    locked_free user_store "locked_calloc os" local_internal_memory
    "\<lambda>h s. s\<lparr>local_internal_memory := h\<rparr>"
  for os
  by unfold_locales simp

interpretation in_application: embedded_heap "heap_serves os" "locked_malloc os" "locked_realloc os"
    locked_free user_store "locked_calloc os" heap "\<lambda>h s. s\<lparr>heap := h\<rparr>"
  for os
  by unfold_locales simp

interpretation internal: allocator "\<lambda>s. heap_serves os (local_internal_memory s)"
    "internal_malloc os" "internal_realloc os" internal_free internal_store "internal_calloc os"
  for os
  unfolding internal_heap_defs internal_malloc_def [abs_def] internal_realloc_def [abs_def] internal_free_def [abs_def]
    internal_store_def [abs_def] internal_calloc_def [abs_def]
  by (rule in_internal.lifted.allocator_axioms)

interpretation custom: heap_interface "\<lambda>s. heap_serves os (heap s)"
    "custom_malloc os" "custom_realloc os" custom_free custom_store
  for os
  unfolding custom_malloc_def [abs_def] custom_realloc_def [abs_def] custom_free_def [abs_def]
    custom_store_def [abs_def]
  by (rule in_application.lifted.heap_interface_axioms)

end
