(* ===== verification/HeapProps.thy ===== *)
theory HeapProps
  imports Allocators
begin

text \<open>
  What the heap layers promise, and the requests for which they do not keep the promise. The heap
  \<open>demo_heap\<close> is a state with two blocks in use and one free block between them, on which the
  properties are applied.
\<close>

section \<open>A concrete heap\<close>

definition demo_ram :: ram where
  "demo_ram =
     put64 (put64 (put64 (put64 (put64
       \<lparr>bytes = (\<lambda>_. 7), mapped = [(65536, 33554432)]\<rparr>
         65544 65704) 65568 64) 65648 16) 65680 16) 65656 0"

definition demo_heap :: locked_heap where
  "demo_heap =
     \<lparr>heap_ram = demo_ram, src_purpose = 101, src_zone = 65536, src_next = 81928,
      src_bytes_left = 33538040, sizeRemaining = 16224, currentArena = 65536, pastArenas = 0,
      myFreeList = 65656, nObjects = 1, alock = False\<rparr>"

lemma demo_ram_cells:
  "get64 demo_ram 65544 = 65704" "get64 demo_ram 65568 = 64" "get64 demo_ram 65648 = 16"
  "get64 demo_ram 65680 = 16" "get64 demo_ram 65656 = 0"
  "mapped demo_ram = [(65536, 33554432)]"
  by (simp_all add: demo_ram_def get64_put64_apart)

lemma demo_heap_fields [simp]:
  "heap_ram demo_heap = demo_ram" "src_zone demo_heap = 65536" "src_next demo_heap = 81928"
  "src_bytes_left demo_heap = 33538040" "sizeRemaining demo_heap = 16224"
  "currentArena demo_heap = 65536" "myFreeList demo_heap = 65656" "nObjects demo_heap = 1"
  "alock demo_heap = False"
  by (simp_all add: demo_heap_def)

lemma demo_sizes [simp]:
  "blkSize demo_heap 65576 = 64" "blkSize demo_heap 65656 = 16" "blkSize demo_heap 65688 = 16"
  by (simp_all add: blkSize_def demo_ram_cells)

lemma demo_wf: "heap_wf demo_heap [65576, 65688] [65656]"
proof -
  have "blocks_ok demo_heap {65576, 65688, 65656}"
    by (simp add: blocks_ok_def block_ok_def blocks_apart_def blkHi_def blkLo_def up8_def
        mapped_range_def demo_ram_cells)
  moreover have "arenas_ok demo_heap {65576, 65688, 65656}"
    by (simp add: arenas_ok_def arena_ok_def source_ok_def below_arena_def arenaSpace_def
        blkHi_def blkLo_def up8_def mapped_range_def demo_ram_cells)
  moreover have "set [65576, 65688] \<union> set [65656 :: u64] = {65576, 65688, 65656}"
    by auto
  ultimately show ?thesis
    by (simp add: heap_wf_def demo_ram_cells)
qed

section \<open>Programs over the internal heap\<close>

definition demo_prog :: prog where
  "demo_prog rs =
     (case rs of
        [] \<Rightarrow> Malloc 100
      | [p] \<Rightarrow> Store p 0 [1, 2, 3]
      | [p, _] \<Rightarrow> Free p
      | _ \<Rightarrow> Malloc 24)"

lemma demo_prog_reach:
  "spec_reach demo_prog rs m \<Longrightarrow>
     (length rs = 1 \<longrightarrow> (\<exists>bs. m (hd rs) = Some bs \<and> 100 \<le> length bs)) \<and>
     (length rs = 2 \<longrightarrow> m (hd rs) \<noteq> None)"
proof (induction rule: spec_reach.induct)
  case (step rs m p m')
  show ?case
  proof (cases rs)
    case Nil
    with step show ?thesis
      by (auto simp: demo_prog_def elim!: spec_stepE)
  next
    case (Cons r rs')
    with step show ?thesis
      by (cases rs') (auto simp: demo_prog_def elim!: spec_stepE)
  qed
qed simp

lemma demo_prog_safe: "safe demo_prog"
  unfolding safe_def
proof (intro allI impI)
  fix rs m
  assume "spec_reach demo_prog rs m"
  from demo_prog_reach [OF this] show "legal m (demo_prog rs)"
    by (auto simp: demo_prog_def max_request_def split: list.splits)
qed

text \<open>A program over the entry points of \<open>internal.cpp\<close>, from the start of the process.\<close>

definition internal_run :: "os \<Rightarrow> prog \<Rightarrow> nat \<Rightarrow> crash + (u64 list \<times> process)" where
  "internal_run os prog n =
     run_prog (dispatch (internal_malloc os) (internal_calloc os) (internal_realloc os)
       internal_free internal_store) prog n [] new_process"

text \<open>
  C1. Every program that is safe against the abstract allocator runs on \<open>internal_malloc\<close>,
  \<open>internal_calloc\<close>, \<open>internal_realloc\<close>, \<open>internal_free\<close> and its own stores as the abstract
  allocator says, for any number of calls from the start of the process: no call faults, hangs or
  aborts, the returned pointers and the bytes behind them are those of a run of the specification,
  and the only other outcome is \<open>ENOMEM\<close>.
\<close>

theorem internal_prog_refines:
  assumes "mmap_spec os" and "safe prog"
  shows "internal_run os prog n = Inl Enomem \<or>
    (\<exists>rs s m. internal_run os prog n = Inr (rs, s) \<and> length rs = n \<and> spec_reach prog rs m \<and>
       heap_rel (local_internal_memory s) m)"
proof -
  have "heap_serves os (local_internal_memory new_process) Map.empty"
    using assms(1) new_heap_rel by (simp add: heap_serves_def new_process_def)
  from internal.prog_from [OF assms(2) spec_reach.start this, of n] show ?thesis
    unfolding internal_run_def by (auto simp: heap_serves_def)
qed

theorem internal_prog_refines_witness:
  "internal_run demo_os demo_prog 3 = Inl Enomem \<or>
    (\<exists>rs s m. internal_run demo_os demo_prog 3 = Inr (rs, s) \<and> length rs = 3 \<and>
       spec_reach demo_prog rs m \<and> heap_rel (local_internal_memory s) m)"
  by (rule internal_prog_refines [OF demo_os_spec demo_prog_safe])

section \<open>Blocks\<close>

text \<open>What the relation of a heap to the view of a program means for the bytes of the machine.\<close>

definition blocks_apart_in_memory :: "ram \<Rightarrow> view \<Rightarrow> bool" where
  "blocks_apart_in_memory r m \<longleftrightarrow>
     (\<forall>p a. m p = Some a \<longrightarrow>
        p \<noteq> 0 \<and> 8 dvd unat p \<and> mapped_range r (unat p) (length a) \<and> read_bytes (bytes r) (unat p) (length a) = a) \<and>
     (\<forall>p q a b. m p = Some a \<longrightarrow> m q = Some b \<longrightarrow> p \<noteq> q \<longrightarrow>
        {unat p..<unat p + length a} \<inter> {unat q..<unat q + length b} = {})"

lemma heap_rel_memory:
  assumes "heap_rel h m"
  shows "blocks_apart_in_memory (heap_ram h) m"
proof -
  obtain live fl where wf: "heap_wf h live fl"
    and m: "\<And>p. m p = (if p \<in> set live then Some (contents h p) else None)"
    using assms by (auto simp: heap_rel_def)
  have live: "p \<in> set live \<and> a = contents h p \<and> block_ok h p" if "m p = Some a" for p a
    using that m [of p] wf by (auto simp: heap_wf_def blocks_ok_def split: if_splits)
  have "p \<noteq> 0 \<and> 8 dvd unat p \<and> mapped_range (heap_ram h) (unat p) (length a) \<and>
      read_bytes (bytes (heap_ram h)) (unat p) (length a) = a" if "m p = Some a" for p a
  proof -
    have ok: "block_ok h p" and a: "a = contents h p"
      using live [OF that] by auto
    have "mapped_range (heap_ram h) (unat p + 0) (length a)"
      by (rule block_mapped [OF ok]) (use a up8_ge in simp)
    then show ?thesis
      using ok a by (auto simp: block_ok_def contents_def)
  qed
  moreover have "{unat p..<unat p + length a} \<inter> {unat q..<unat q + length b} = {}"
    if "m p = Some a" "m q = Some b" "p \<noteq> q" for p q a b
  proof -
    have "blocks_apart h p q"
      using live that wf by (auto simp: heap_wf_def blocks_ok_def)
    then show ?thesis
      using live [OF that(1)] live [OF that(2)] up8_ge [of "unat (blkSize h p)"] up8_ge [of "unat (blkSize h q)"]
      by (auto simp: blocks_apart_def blkHi_def blkLo_def block_ok_def)
  qed
  ultimately show ?thesis
    unfolding blocks_apart_in_memory_def by blast
qed

text \<open>
  C2. The blocks a program holds, after any number of its calls of the entry points of \<open>internal.cpp\<close> and of
  its own stores from the start of the process: no two of them share a byte of the machine's memory,
  each is at an address that is not null and a multiple of eight, its memory is mapped, and the bytes
  there are those the program last stored, or was given by \<open>calloc\<close> and \<open>realloc\<close>. The
  program is any that is safe against the abstract allocator, and may end early with \<open>ENOMEM\<close> only.
\<close>

theorem blocks_disjoint:
  assumes "mmap_spec os" and "safe prog"
  shows "case internal_run os prog n of
      Inl e \<Rightarrow> e = Enomem
    | Inr (rs, s) \<Rightarrow>
        \<exists>m. spec_reach prog rs m \<and> blocks_apart_in_memory (heap_ram (local_internal_memory s)) m"
proof -
  have "heap_serves os (local_internal_memory new_process) Map.empty"
    using assms(1) new_heap_rel by (simp add: heap_serves_def new_process_def)
  from internal.prog_from [OF assms(2) spec_reach.start this, of n] show ?thesis
    unfolding internal_run_def by (fastforce simp: heap_serves_def dest: heap_rel_memory)
qed

definition demo_view :: view where
  "demo_view p =
     (if p \<in> set [65576, 65688] then Some (contents demo_heap p) else None)"

lemma demo_rel: "heap_rel demo_heap demo_view"
  by (rule heap_rel_intro [OF demo_wf]) (simp_all add: demo_view_def)

definition two_blocks :: prog where
  "two_blocks rs = (if rs = [] then Malloc 100 else Calloc 3 8)"

lemma two_blocks_safe: "safe two_blocks"
  by (simp add: safe_def two_blocks_def max_request_def)

theorem blocks_disjoint_witness:
  "case internal_run demo_os two_blocks 2 of
      Inl e \<Rightarrow> e = Enomem
    | Inr (rs, s) \<Rightarrow>
        \<exists>m. spec_reach two_blocks rs m \<and> blocks_apart_in_memory (heap_ram (local_internal_memory s)) m"
  by (rule blocks_disjoint [OF demo_os_spec two_blocks_safe])

text \<open>
  C3. \<open>malloc\<close> of the application heap succeeds whenever a free block is large enough or the zone
  is not exhausted, and then returns a block the program does not hold, with room for the request,
  leaving every byte the program holds as it was.
\<close>

theorem malloc_succeeds:
  assumes os: "mmap_spec os" and wf: "heap_wf h live fl" and sz: "unat sz \<le> 16352"
    and room: "find (fits h (stdlib_round sz)) fl \<noteq> None \<or>
      \<not> exhausted os h (unat (stdlib_round sz) + 16)"
  shows "\<exists>p h'. stdlib_malloc os sz h = Inr (p, h') \<and> p \<noteq> 0 \<and> p \<notin> set live \<and>
    unat sz \<le> unat (blkSize h' p) \<and> (\<exists>fl'. heap_wf h' (p # live) fl') \<and>
    (\<forall>q \<in> set live. contents h' q = contents h q)"
proof -
  note r = stdlib_round_small [OF sz]
  have e: "up8 (unat (stdlib_round sz)) = unat (stdlib_round sz)"
    by (rule up8_id [OF r(4)])
  have "stdlib_malloc os sz h \<noteq> Inl Enomem"
    using ff_malloc_enomem [OF os wf, of "stdlib_round sz"] r room e
    by (auto simp: stdlib_malloc_def)
  then obtain p h' where run: "stdlib_malloc os sz h = Inr (p, h')"
    and a: "allocated h h' live (stdlib_round sz) p"
    using stdlib_malloc_spec [OF os wf sz] by blast
  moreover have "unat sz \<le> unat (blkSize h' p)"
    using a r(2) by (simp add: allocated_def word_le_nat_alt)
  ultimately show ?thesis
    using allocated_fresh [OF a] by (auto simp: allocated_def untouched_def)
qed

theorem malloc_succeeds_witness:
  "\<exists>p h'. stdlib_malloc demo_os 10 demo_heap = Inr (p, h') \<and> p \<noteq> 0 \<and> p \<notin> set [65576, 65688] \<and>
    unat (10 :: u64) \<le> unat (blkSize h' p) \<and> (\<exists>fl'. heap_wf h' (p # [65576, 65688]) fl') \<and>
    (\<forall>q \<in> set [65576, 65688]. contents h' q = contents demo_heap q)"
proof -
  have "stdlib_round 10 = 16"
    by (simp add: stdlib_round_def align8_def)
  then show ?thesis
    by (intro malloc_succeeds [OF demo_os_spec demo_wf]) (simp_all add: fits_def)
qed


section \<open>The free list\<close>

lemma first_fit_lemma:
  assumes os: "mmap_spec os" and wf: "heap_wf h live (xs @ q # ys)"
    and small: "\<forall>x \<in> set xs. blkSize h x < sz" and fit: "sz \<le> blkSize h q"
    and sz: "1 \<le> unat sz" "unat sz \<le> 16352"
  shows "\<exists>h'. ff_malloc os sz h = Inr (q, h') \<and> heap_wf h' (q # live) (xs @ ys) \<and>
    blkSize h' q = blkSize h q \<and> (\<forall>p \<in> set live. contents h' p = contents h p)"
proof -
  have find: "find (fits h sz) (xs @ q # ys) = Some q"
    using small fit by (induction xs) (auto simp: fits_def)
  have q: "q \<notin> set xs"
    using wf by (simp add: heap_wf_def)
  obtain h' fl' where "ff_malloc os sz h = Inr (q, h')"
    and g: "got_block h h' live (xs @ q # ys) sz q fl'"
    using ff_malloc_spec [OF os wf sz] find by (auto simp: got_block_def)
  moreover have "untouched h h' (set live)"
    using g by (intro keeps_untouched [OF wf]) (auto simp: got_block_def)
  ultimately show ?thesis
    using find remove1_mid [OF q, of ys] by (auto simp: got_block_def untouched_def)
qed

text \<open>
  C5. First fit: when the free list is \<open>xs @ q # ys\<close> in the order of addresses and \<open>q\<close> is the first
  block of at least \<open>sz\<close> bytes, \<open>FirstFitHeap::malloc\<close> returns \<open>q\<close>, takes exactly \<open>q\<close> out of the
  list, and changes no block of the program.
\<close>

theorem first_fit:
  assumes os: "mmap_spec os" and wf: "heap_wf h live (xs @ q # ys)"
    and small: "\<forall>x \<in> set xs. blkSize h x < sz" and fit: "sz \<le> blkSize h q"
    and sz: "1 \<le> unat sz" "unat sz \<le> 16352"
  shows "\<exists>h'. ff_malloc os sz h = Inr (q, h') \<and> heap_wf h' (q # live) (xs @ ys) \<and>
    blkSize h' q = blkSize h q \<and> (\<forall>p \<in> set live. contents h' p = contents h p)"
  by (rule first_fit_lemma [OF assms])

theorem first_fit_witness:
  "\<exists>h'. ff_malloc demo_os 12 demo_heap = Inr (65656, h') \<and>
    heap_wf h' (65656 # [65576, 65688]) ([] @ []) \<and> blkSize h' 65656 = blkSize demo_heap 65656 \<and>
    (\<forall>p \<in> set [65576, 65688]. contents h' p = contents demo_heap p)"
  by (rule first_fit [OF demo_os_spec]) (use demo_wf in simp_all)

text \<open>
  C6. \<open>FirstFitHeap::free\<close> of a block the program holds always returns; the block is put at its
  place in the address order of the free list, the object count grows by one, and every other block
  of the program keeps its bytes.
\<close>

theorem free_inserts_in_order:
  assumes wf: "heap_wf h live fl" and p: "p \<in> set live"
  shows "\<exists>h'. ff_free p h = Inr ((), h') \<and> heap_wf h' (remove1 p live) (insort p fl) \<and>
    nObjects h' = nObjects h + 1 \<and> (\<forall>q \<in> set live - {p}. contents h' q = contents h q)"
proof -
  obtain h' where run: "ff_free p h = Inr ((), h')" and g: "gave_block h h' live fl p"
    using ff_free_spec [OF wf p] by blast
  have "untouched h h' (set live - {p})"
    using g by (intro keeps_untouched [OF wf]) (auto simp: gave_block_def)
  then show ?thesis
    using run g wf by (auto simp: gave_block_def heap_wf_def untouched_def)
qed

theorem free_inserts_in_order_witness:
  "\<exists>h'. ff_free 65576 demo_heap = Inr ((), h') \<and>
    heap_wf h' (remove1 65576 [65576, 65688]) (insort 65576 [65656]) \<and>
    nObjects h' = nObjects demo_heap + 1 \<and>
    (\<forall>q \<in> set [65576, 65688] - {65576}. contents h' q = contents demo_heap q)"
  by (rule free_inserts_in_order [OF demo_wf]) simp

text \<open>
  C7. A block that was freed is handed out again: if no free block at a lower address is large
  enough, \<open>malloc\<close> of the size that \<open>free\<close> just gave back returns the same pointer.
\<close>

theorem malloc_reuses_freed:
  assumes os: "mmap_spec os" and wf: "heap_wf h live fl" and p: "p \<in> set live"
    and low: "\<forall>x \<in> set fl. x < p \<longrightarrow> blkSize h x < blkSize h p"
  shows "\<exists>h'. seq (ff_free p) (\<lambda>_. ff_malloc os (blkSize h p)) h = Inr (p, h') \<and>
    heap_wf h' (p # remove1 p live) fl"
proof -
  obtain h1 where run: "ff_free p h = Inr ((), h1)" and g: "gave_block h h1 live fl p"
    using ff_free_spec [OF wf p] by blast
  have wf1: "heap_wf h1 (remove1 p live) (insort p fl)"
    and sz: "\<And>q. q \<in> set live \<union> set fl \<Longrightarrow> blkSize h1 q = blkSize h q"
    using g by (auto simp: gave_block_def)
  have s: "sorted_wrt (<) fl" "p \<notin> set fl" and ok: "block_ok h p"
    using wf p by (auto simp: heap_wf_def blocks_ok_def)
  have small: "\<forall>x \<in> set (takeWhile (\<lambda>x. x \<le> p) fl). blkSize h1 x < blkSize h p"
    using low sz s(2) by (auto simp: order_le_less dest!: set_takeWhileD)
  have n: "1 \<le> unat (blkSize h p)" "unat (blkSize h p) \<le> 16352"
    using ok by (simp_all add: block_ok_def)
  obtain h2 where "ff_malloc os (blkSize h p) h1 = Inr (p, h2)"
    and "heap_wf h2 (p # remove1 p live) (takeWhile (\<lambda>x. x \<le> p) fl @ dropWhile (\<lambda>x. x \<le> p) fl)"
    using first_fit_lemma [OF os wf1 [unfolded insort_split [OF s]] small _ n] sz [of p] p by auto
  then show ?thesis
    using run by simp
qed

theorem malloc_reuses_freed_witness:
  "\<exists>h'. seq (ff_free 65576) (\<lambda>_. ff_malloc demo_os (blkSize demo_heap 65576)) demo_heap
      = Inr (65576, h') \<and> heap_wf h' (65576 # remove1 65576 [65576, 65688]) [65656]"
  by (rule malloc_reuses_freed [OF demo_os_spec demo_wf]) simp_all

end
