(* ===== verification/AllocatorProps.thy ===== *)
theory AllocatorProps
  imports HeapProps
begin

text \<open>
  Properties of the entry points: the sizes they report, where their heaps are placed, what a reset
  leaves behind, and the allocator that SQLite is given.
\<close>

section \<open>Usable size\<close>

lemma locked_getSize_rel:
  assumes rel: "heap_rel h m" and p: "m p = Some bs"
  shows "\<exists>h'. locked_getSize p h = Inr (of_nat (length bs), h') \<and> heap_rel h' m"
proof -
  obtain live fl where nl: "\<not> alock h" and wf: "heap_wf (h\<lparr>alock := True\<rparr>) live fl"
    and m: "\<And>p. m p = (if p \<in> set live then Some (contents h p) else None)"
    using rel by (auto simp: heap_rel_def)
  have p': "p \<in> set live" "bs = contents h p"
    using p m [of p] by (auto split: if_splits)
  have "getSize p (h\<lparr>alock := True\<rparr>) = Inr (blkSize h p, h\<lparr>alock := True\<rparr>)"
    using getSize_run [OF wf, of p] p' by simp
  from guarded_ok [where m = "getSize p", OF nl this]
  have "locked_getSize p h = Inr (of_nat (length bs), h\<lparr>alock := False\<rparr>)"
    by (simp add: locked_getSize_def p')
  moreover have "heap_rel (h\<lparr>alock := False\<rparr>) m"
    by (rule heap_rel_intro [of _ live fl]) (use wf m in simp_all)
  ultimately show ?thesis by blast
qed

text \<open>
  \<open>internal_malloc_usable_size\<close> of a pointer the program holds is the number of bytes it may use
  there, and the call changes nothing the program can see.
\<close>

theorem usable_size_exact:
  assumes "heap_rel (local_internal_memory s) m" and "m p = Some bs"
  shows "\<exists>s'. internal_malloc_usable_size p s = Inr (of_nat (length bs), s') \<and>
    heap_rel (local_internal_memory s') m"
  using locked_getSize_rel [OF assms] by (auto simp: internal_malloc_usable_size_def lift_op_def)

definition demo_process :: process where
  "demo_process =
     new_process\<lparr>heap := demo_heap, local_internal_memory := demo_heap,
       shared_page_table := demo_heap, xSizeMap := [65656 \<mapsto> 5]\<rparr>"

theorem usable_size_exact_witness:
  "\<exists>s'. internal_malloc_usable_size 65576 demo_process =
      Inr (of_nat (length (contents demo_heap 65576)), s') \<and>
    heap_rel (local_internal_memory s') demo_view"
  by (rule usable_size_exact) (simp_all add: demo_process_def demo_rel, simp add: demo_view_def)

section \<open>The application heap\<close>

text \<open>
  \<open>custom_realloc\<close> to a size that is not smaller returns a new block that starts with the bytes
  of the old one, gives the old block back, and leaves every other block of the program alone.
\<close>

theorem custom_realloc_keeps_bytes:
  assumes "mmap_spec os" and "heap_rel (heap s) m" and "m p = Some old"
    and "length old \<le> unat sz" and "unat sz \<le> max_request"
  shows "custom_realloc os p sz s = Inl Enomem \<or>
    (\<exists>q s' bs. custom_realloc os p sz s = Inr (q, s') \<and> q \<noteq> 0 \<and> m q = None \<and>
       unat sz \<le> length bs \<and> take (length old) bs = old \<and>
       heap_rel (heap s') ((m(p := None))(q \<mapsto> bs)))"
  using custom.realloc_law [of os s m p old sz] assms by (simp add: heap_serves_def)

theorem custom_realloc_keeps_bytes_witness:
  "custom_realloc demo_os 65688 100 demo_process = Inl Enomem \<or>
    (\<exists>q s' bs. custom_realloc demo_os 65688 100 demo_process = Inr (q, s') \<and> q \<noteq> 0 \<and>
       demo_view q = None \<and> unat (100 :: u64) \<le> length bs \<and>
       take (length (contents demo_heap 65688)) bs = contents demo_heap 65688 \<and>
       heap_rel (heap s') ((demo_view(65688 := None))(q \<mapsto> bs)))"
  by (rule custom_realloc_keeps_bytes [OF demo_os_spec])
    (simp_all add: demo_process_def demo_rel max_request_def, simp add: demo_view_def)

text \<open>
  A scratch buffer on the application heap: \<open>custom_malloc\<close>, writes inside the requested size and
  \<open>custom_free\<close> leave every byte the program holds as it was.
\<close>

theorem custom_scratch_buffer:
  assumes "mmap_spec os" and "heap_rel (heap s) m" and "unat sz \<le> max_request" and "length bs \<le> unat sz"
  shows "seq (custom_malloc os sz) (\<lambda>p. seq (custom_store p 0 bs) (\<lambda>_. custom_free p)) s = Inl Enomem \<or>
    (\<exists>s'. seq (custom_malloc os sz) (\<lambda>p. seq (custom_store p 0 bs) (\<lambda>_. custom_free p)) s = Inr ((), s') \<and>
       heap_rel (heap s') m)"
  using custom.scratch_buffer [of os s m sz bs] assms by (simp add: heap_serves_def)

theorem custom_scratch_buffer_witness:
  "seq (custom_malloc demo_os 9) (\<lambda>p. seq (custom_store p 0 [1, 2, 3]) (\<lambda>_. custom_free p)) demo_process
      = Inl Enomem \<or>
    (\<exists>s'. seq (custom_malloc demo_os 9) (\<lambda>p. seq (custom_store p 0 [1, 2, 3]) (\<lambda>_. custom_free p))
        demo_process = Inr ((), s') \<and> heap_rel (heap s') demo_view)"
  by (rule custom_scratch_buffer [OF demo_os_spec])
    (simp_all add: demo_process_def demo_rel max_request_def)

section \<open>Placement\<close>

lemma unat_global_base:
  assumes "unat e < 2 ^ 62"
  shows "unat (global_base e) = unat e div 4096 * 4096 + 4096"
proof -
  have m: "PAGE_SZ - 1 = mask 12"
    by (simp add: PAGE_SZ_def mask_eq_exp_minus_1)
  have "e AND NOT (mask 12) = push_bit 12 (drop_bit 12 e)"
    by (rule bit_word_eqI) (auto simp: bit_simps)
  moreover have "unat (push_bit 12 (drop_bit 12 e)) = unat e div 4096 * 4096"
  proof -
    have "unat (drop_bit 12 e) = unat e div 4096"
      unfolding unat_drop_bit_eq by (simp add: drop_bit_eq_div)
    then show ?thesis
      using assms unat_lt_64 [of e] by (simp add: push_bit_eq_mult unat_word_ariths mult.commute)
  qed
  ultimately have "unat (e AND NOT (mask 12)) = unat e div 4096 * 4096"
    by simp
  then show ?thesis
    unfolding global_base_def m using assms
    by (subst unat_add_small) (auto simp only: PAGE_SZ_def, simp_all)
qed

text \<open>
  C10. The places asked for the internal, the shared and the application heap are page-aligned and
  behind the program's data, and the three 32 MB zones there do not overlap: the base is a pointer to
  eight-byte words, so they are 256 MB apart.
\<close>

theorem heap_locations_apart:
  assumes "unat e < 2 ^ 62"
  shows "unat e < unat (get_heap_location e PURPOSE_INTERNAL_HEAP) \<and>
    4096 dvd unat (get_heap_location e PURPOSE_INTERNAL_HEAP) \<and>
    unat (get_heap_location e PURPOSE_SHARED_HEAP) =
      unat (get_heap_location e PURPOSE_INTERNAL_HEAP) + 8 * unat ZONE_SZ \<and>
    unat (get_heap_location e PURPOSE_APPLICATION_HEAP) =
      unat (get_heap_location e PURPOSE_SHARED_HEAP) + 8 * unat ZONE_SZ"
proof -
  note b = unat_global_base [OF assms]
  have loc: "get_heap_location e PURPOSE_INTERNAL_HEAP = global_base e"
    "get_heap_location e PURPOSE_SHARED_HEAP = global_base e + 268435456"
    "get_heap_location e PURPOSE_APPLICATION_HEAP = global_base e + 536870912"
    by (simp_all add: get_heap_location_def constants)
  have "unat (global_base e + 268435456) = unat (global_base e) + 268435456"
    "unat (global_base e + 536870912) = unat (global_base e) + 536870912"
    using assms by (subst unat_add_small; simp add: b)+
  then show ?thesis
    unfolding loc using b by (simp add: ZONE_SZ_def)
qed

theorem heap_locations_apart_witness:
  "unat (4198400 :: u64) < unat (get_heap_location 4198400 PURPOSE_INTERNAL_HEAP) \<and>
    4096 dvd unat (get_heap_location 4198400 PURPOSE_INTERNAL_HEAP) \<and>
    unat (get_heap_location 4198400 PURPOSE_SHARED_HEAP) =
      unat (get_heap_location 4198400 PURPOSE_INTERNAL_HEAP) + 8 * unat ZONE_SZ \<and>
    unat (get_heap_location 4198400 PURPOSE_APPLICATION_HEAP) =
      unat (get_heap_location 4198400 PURPOSE_SHARED_HEAP) + 8 * unat ZONE_SZ"
  by (rule heap_locations_apart) simp


section \<open>Reset\<close>

lemma zone_freeArenas_chain:
  assumes "chain (get64 r) 0 p past" and "\<And>x. x \<in> set past \<Longrightarrow> mapped_range r (unat x) 8"
  shows "zone_freeArenas r p = Some (Inr ())"
  using assms
proof (induction past arbitrary: p)
  case Nil
  then show ?case by (simp add: zone_freeArenas.simps)
next
  case (Cons x past)
  then show ?case by (subst zone_freeArenas.simps) simp
qed

text \<open>
  Resetting a heap forgets the free list and the zone but not the current arena: \<open>__reset\<close>
  returns, and the next request that fits into the arena is still cut from it, right behind the
  blocks from before the reset.
\<close>

theorem reset_keeps_arena:
  assumes wf: "heap_wf h live fl" and cur: "currentArena h \<noteq> 0"
    and past: "chain (get64 (heap_ram h)) 0 (pastArenas h) past"
      "\<forall>x \<in> set past. mapped_range (heap_ram h) (unat x) 8"
    and sz: "unat sz \<le> 16352" "unat (stdlib_round sz) + 16 \<le> unat (sizeRemaining h)"
  shows "\<exists>h' h''. ff_reset h = Inr ((), h') \<and> myFreeList h' = 0 \<and> src_zone h' = 0 \<and>
    stdlib_malloc os sz h' = Inr (arenaSpace h + 16, h'')"
proof -
  have ch: "chain (get64 (heap_ram h)) 0 (myFreeList h) fl"
    and ar: "arenas_ok h (set live \<union> set fl)"
    using wf by (simp_all add: heap_wf_def)
  then have a: "arena_ok h"
    using cur by (simp add: arenas_ok_def)
  let ?h' = "h\<lparr>myFreeList := 0, nObjects := 0, src_zone := 0, src_next := 0, src_bytes_left := 0\<rparr>"
  let ?n = "stdlib_round sz"
  have rel: "ff_releaseAll (heap_ram h) (myFreeList h) = Some (Inr ())"
    by (rule ff_releaseAll_chain [OF ch]) (use heap_wf_cells(1) [OF wf] in auto)
  have arenas: "zone_freeArenas (heap_ram h) (pastArenas h) = Some (Inr ())"
    using zone_freeArenas_chain [OF past(1)] past(2) by blast
  have reset: "ff_reset h = Inr ((), ?h')"
    using rel arenas by (simp add: ff_reset_def size_reset_def zone_reset_def source_free_def source_reset_def)
  note r = stdlib_round_small [OF sz(1)]
  have n16: "unat (?n + 16) = unat ?n + 16"
    using r by (subst unat_add_small) auto
  have al: "unat (zone_align (?n + 16)) = unat ?n + 16"
    using r(3,4) n16 by (simp add: unat_zone_align up8_id)
  have "mapped_range (heap_ram h) (unat (currentArena h + 8)) 8"
    unfolding arena_addrs(1) [OF a] by (rule mapped_range_sub [OF arena_addrs(2) [OF a]]) auto
  moreover have sp: "arenaSpace ?h' = arenaSpace h" "arenaSpace h \<noteq> 0"
    using a by (auto simp: arenaSpace_def arena_ok_def)
  ultimately have bump: "zone_bump k ?h' = Inr (arenaSpace h, bumped ?h' k)" for k
    using zone_bump_mapped [of ?h' k] by simp
  have zone: "zone_malloc os (?n + 16) ?h' = Inr (arenaSpace h, bumped ?h' (zone_align (?n + 16)))"
    using cur sz(2) al bump by (simp add: zone_malloc_def zoneMalloc_def Let_def word_less_nat_alt)
  have b: "unat (arenaSpace h) + (unat ?n + 16) \<le> unat (src_zone h) + 33554432"
    "unat (src_zone h) + 33554432 < 2 ^ 64" "unat (src_zone h) \<le> unat (arenaSpace h)"
    using a sz(2) by (auto simp: arena_ok_def source_ok_def)
  then have "unat (arenaSpace h + 8) = unat (arenaSpace h) + 8"
    using r by (subst unat_add_small) auto
  moreover have "mapped_range (heap_ram h) (unat (src_zone h)) 33554432"
    using a by (simp add: arena_ok_def source_ok_def)
  ultimately have "mapped_range (heap_ram h) (unat (arenaSpace h + 8)) 8"
    using b r by (auto intro: mapped_range_sub)
  then have "\<exists>h''. size_malloc os ?n ?h' = Inr (arenaSpace h + 16, h'')"
    using zone by (simp add: size_malloc_def bumped_def)
  then show ?thesis
    using reset by (auto simp: stdlib_malloc_def ff_malloc_def)
qed

theorem reset_keeps_arena_witness:
  "\<exists>h' h''. ff_reset demo_heap = Inr ((), h') \<and> myFreeList h' = 0 \<and> src_zone h' = 0 \<and>
    stdlib_malloc demo_os 10 h' = Inr (arenaSpace demo_heap + 16, h'')"
proof -
  have "stdlib_round 10 = 16"
    by (simp add: stdlib_round_def align8_def)
  then show ?thesis
    by (intro reset_keeps_arena [OF demo_wf, where past = "[]"]) (simp_all add: demo_heap_def)
qed


section \<open>The allocator of SQLite\<close>

lemma on_shared_sizes: "on_shared f s = Inr (x, s') \<Longrightarrow> xSizeMap s' = xSizeMap s"
  by (auto simp: lift_op_def split: sum.splits prod.splits)

text \<open>
  \<open>sqlite_size\<close> of a block that \<open>sqlite_malloc\<close> just returned is the requested size only if the
  size map had no entry for that address: an entry that was there is kept, because
  \<open>std::map::insert\<close> does not overwrite.
\<close>

theorem sqlite_size_first_wins:
  assumes "sqlite_malloc os n s = Inr (p, s')" and "n \<noteq> 0"
  shows "sqlite_size p s' = Inr (case xSizeMap s p of None \<Rightarrow> n | Some old \<Rightarrow> old, s')"
proof -
  obtain s1 where "on_shared (locked_malloc os (scast n)) s = Inr (p, s1)"
    and s': "s' = s1\<lparr>xSizeMap := map_insert (xSizeMap s1) p n\<rparr>"
    using assms by (auto simp: sqlite_malloc_def seq_eq_Inr)
  from on_shared_sizes [OF this(1)] show ?thesis
    by (auto simp: sqlite_size_def s' map_insert_def split: option.splits)
qed

theorem sqlite_size_first_wins_witness:
  "\<exists>s'. sqlite_malloc demo_os 12 demo_process = Inr (65656, s') \<and>
    sqlite_size 65656 s' = Inr (case xSizeMap demo_process 65656 of None \<Rightarrow> 12 | Some old \<Rightarrow> old, s')"
proof -
  have r: "stdlib_round 12 = 16"
    by (simp add: stdlib_round_def align8_def)
  let ?h = "demo_heap\<lparr>alock := True\<rparr>"
  obtain h' where "ff_malloc demo_os 16 ?h = Inr (65656, h')"
    using first_fit_lemma [OF demo_os_spec, of ?h "[65576, 65688]" "[]" 65656 "[]" 16] demo_wf by auto
  then have "locked_malloc demo_os 12 demo_heap = Inr (65656, h'\<lparr>alock := False\<rparr>)"
    unfolding locked_malloc_def by (intro guarded_ok) (simp_all add: stdlib_malloc_def r)
  then have "\<exists>s'. sqlite_malloc demo_os 12 demo_process = Inr (65656, s')"
    by (simp add: sqlite_malloc_def lift_op_def demo_process_def)
  then show ?thesis
    using sqlite_size_first_wins [of demo_os 12 demo_process 65656] by auto
qed

text \<open>
  \<open>sqlite_realloc\<close> to a size that is not smaller moves the bytes and gives the old block back,
  but records the new size without erasing the old address from the size map: the entry of a freed
  block stays.
\<close>

theorem sqlite_realloc_keeps_entry:
  assumes os: "mmap_spec os" and rel: "heap_rel (shared_page_table s) m" and p: "m p = Some old"
    and p0: "p \<noteq> 0" and sz: "length old \<le> unat (scast n :: u64)" "unat (scast n :: u64) \<le> max_request"
  shows "sqlite_realloc os p n s = Inl Enomem \<or>
    (\<exists>q s' bs. sqlite_realloc os p n s = Inr (q, s') \<and> q \<noteq> p \<and> take (length old) bs = old \<and>
       heap_rel (shared_page_table s') ((m(p := None))(q \<mapsto> bs)) \<and>
       xSizeMap s' = map_insert (xSizeMap s) q n \<and> xSizeMap s' p = xSizeMap s p)"
proof -
  let ?sz = "scast n :: u64"
  obtain h1 where g: "locked_getSize p (shared_page_table s) = Inr (of_nat (length old), h1)"
    and r1: "heap_rel h1 m"
    using locked_getSize_rel [OF rel p] by blast
  from locked_malloc_allocates [OF os r1 sz(2)] show ?thesis
    unfolding allocates_def
  proof (elim disjE exE conjE)
    assume "locked_malloc os ?sz h1 = Inl Enomem"
    then show ?thesis
      using p0 g by (simp add: sqlite_realloc_def lift_op_def seq_def)
  next
    fix q h2 bs
    assume mal: "locked_malloc os ?sz h1 = Inr (q, h2)" and q: "q \<noteq> 0" "m q = None"
      and bs: "unat ?sz \<le> length bs" and r2: "heap_rel h2 (m(q \<mapsto> bs))"
    have pq: "p \<noteq> q"
      using p q by auto
    obtain h3 where cpy: "heap_memcpy q p (of_nat (length old)) h2 = Inr ((), h3)"
      and r3: "heap_rel h3 (m(q \<mapsto> overwrite bs 0 old))"
      using copy_block_rel [OF r2, of p old q bs] p pq sz(1) bs by auto
    obtain h4 where fr: "locked_free p h3 = Inr ((), h4)"
      and r4: "heap_rel h4 ((m(q \<mapsto> overwrite bs 0 old))(p := None))"
      using locked_free_rel [OF r3, of p] p pq by auto
    have run: "sqlite_realloc os p n s =
        Inr (q, s\<lparr>shared_page_table := h4, xSizeMap := map_insert (xSizeMap s) q n\<rparr>)"
      using p0 g mal q cpy fr by (simp add: sqlite_realloc_def lift_op_def seq_def)
    have "(m(q \<mapsto> overwrite bs 0 old))(p := None) = (m(p := None))(q \<mapsto> overwrite bs 0 old)"
      using pq by auto
    then have "heap_rel h4 ((m(p := None))(q \<mapsto> overwrite bs 0 old))"
      using r4 by simp
    moreover have "map_insert (xSizeMap s) q n p = xSizeMap s p"
      using pq by (simp add: map_insert_def split: option.splits)
    moreover have "take (length old) (overwrite bs 0 old) = old"
      by (simp add: overwrite_def)
    ultimately show ?thesis
      unfolding run using pq by fastforce
  qed
qed

theorem sqlite_realloc_keeps_entry_witness:
  "sqlite_realloc demo_os 65688 40 demo_process = Inl Enomem \<or>
    (\<exists>q s' bs. sqlite_realloc demo_os 65688 40 demo_process = Inr (q, s') \<and> q \<noteq> 65688 \<and>
       take (length (contents demo_heap 65688)) bs = contents demo_heap 65688 \<and>
       heap_rel (shared_page_table s') ((demo_view(65688 := None))(q \<mapsto> bs)) \<and>
       xSizeMap s' = map_insert (xSizeMap demo_process) q 40 \<and>
       xSizeMap s' 65688 = xSizeMap demo_process 65688)"
  by (rule sqlite_realloc_keeps_entry [OF demo_os_spec])
    (simp_all add: demo_process_def demo_rel max_request_def demo_view_def)

end
