(* ===== verification/HeapLimits.thy ===== *)
theory HeapLimits
  imports HeapProps
begin

text \<open>
  Requests outside the range for which the layers are correct: larger than a chunk, larger than an
  \<open>int\<close>, and a \<open>realloc\<close> to a smaller size.
\<close>

section \<open>Requests larger than a chunk\<close>

text \<open>The state after an arena for an oversized request was set up in a fresh zone.\<close>

definition big_arena :: "'a zone_heap_scheme \<Rightarrow> u64 \<Rightarrow> 'a zone_heap_scheme" where
  "big_arena h n =
     (let a = src_next h
      in h\<lparr>heap_ram := put64 (put64 (heap_ram h) (a + 8) (a + 24)) a 0,
           src_next := a + (n + 24), src_bytes_left := src_bytes_left h - (n + 24),
           sizeRemaining := ChunkSize, currentArena := a\<rparr>)"

lemma newArena_big:
  assumes s: "source_ok h1" and z: "src_zone h = 0" "currentArena h = 0"
    and m: "source_mmap os h = Inr ((), h1)"
    and n: "16368 < unat n" "unat n + 24 < unat (src_bytes_left h1)"
  shows "zone_newArena os n h = Inr (True, big_arena h1 n)"
proof -
  have n24: "unat (n + 24) = unat n + 24"
    using n(2) unat_lt_64 [of "src_bytes_left h1"] by (subst unat_add_small) auto
  have big: "16392 < unat (src_bytes_left h1)"
    using n by simp
  note a = src_next_8_24 [OF s big]
  have mr: "mapped_range (heap_ram h1) (unat (src_next h1)) 8"
    "mapped_range (heap_ram h1) (unat (src_next h1) + 8) 8"
    by (rule mapped_range_sub [OF src_next_addrs(2) [OF s big]]; simp)+
  have sm: "source_malloc os (n + 24) h =
      Inr (src_next h1, h1\<lparr>src_next := src_next h1 + (n + 24),
                          src_bytes_left := src_bytes_left h1 - (n + 24)\<rparr>)"
    using m z n by (simp add: source_malloc_def word_less_nat_alt n24)
  have c: "(if ChunkSize < n then n else ChunkSize) + sizeof_Arena = n + 24"
    using n by (simp add: ChunkSize_def sizeof_Arena_def word_less_nat_alt)
  show ?thesis
    unfolding zone_newArena_def c
    using z sm src_next_addrs(3) [OF s big]
    by (simp add: zone_retire_def a mr big_arena_def Let_def sizeof_Arena_def)
qed

lemma big_arena_sel:
  assumes s: "source_ok h1" and big: "16392 < unat (src_bytes_left h1)"
  shows "currentArena (big_arena h1 n) = src_next h1"
    and "arenaSpace (big_arena h1 n) = src_next h1 + 24"
    and "sizeRemaining (big_arena h1 n) = ChunkSize"
    and "src_next (big_arena h1 n) = src_next h1 + (n + 24)"
    and "mapped_range (heap_ram (big_arena h1 n)) (unat (src_next h1 + 8)) 8"
proof -
  note a = src_next_8_24 [OF s big]
  show "mapped_range (heap_ram (big_arena h1 n)) (unat (src_next h1 + 8)) 8"
    unfolding a big_arena_def Let_def
    by simp (rule mapped_range_sub [OF src_next_addrs(2) [OF s big]]; simp)
  show "arenaSpace (big_arena h1 n) = src_next h1 + 24"
    by (simp add: arenaSpace_def big_arena_def Let_def get64_put64_apart a)
qed (simp_all add: big_arena_def Let_def)

text \<open>
  C8. A request of more than \<open>ChunkSize\<close> bytes breaks the zone layer: the fresh arena is large
  enough for it, but \<open>sizeRemaining\<close> is set to \<open>ChunkSize\<close> and then wraps below zero, so the next
  request is served from the full arena, with a block that starts where the source layer's own free
  memory starts and that no layer has reserved.
\<close>

theorem oversized_request_overruns:
  assumes os: "mmap_spec os" and fresh: "currentArena h = 0" "src_zone h = 0"
    and z: "source_mmap os h = Inr ((), h0)"
    and sz: "16368 < unat sz" "unat sz \<le> 33000000" and k: "1 \<le> unat k" "unat k \<le> 16368"
  shows "\<exists>h1 h2. zone_malloc os sz h = Inr (src_zone h0 + 24, h1) \<and> 2 ^ 63 < unat (sizeRemaining h1) \<and>
    zone_malloc os k h1 = Inr (src_next h1, h2) \<and> src_next h2 = src_next h1"
proof -
  let ?n = "zone_align sz" and ?k = "zone_align k"
  let ?h1 = "bumped (big_arena h0 ?n) ?n"
  note ok = source_mmap_ok [OF os z]
  have n: "unat ?n = up8 (unat sz)" and kk: "unat ?k = up8 (unat k)"
    using sz k by (simp_all add: unat_zone_align)
  have nb: "16368 < unat ?n" "unat ?n \<le> 33000000"
    using up8_ge [of "unat sz"] up8_mono [OF sz(2)] sz by (simp_all add: n up8_def)
  have kb: "unat ?k \<le> 16368"
    using up8_mono [OF k(2)] by (simp add: kk up8_def)
  have left: "unat ?n + 24 < unat (src_bytes_left h0)" and big: "16392 < unat (src_bytes_left h0)"
    using nb by (simp_all add: ok(3) ZONE_SZ_def)
  note b = big_arena_sel [OF ok(1) big, of ?n]
  have a0: "arenaSpace (big_arena h0 ?n) \<noteq> 0"
    using src_next_8_24(2) [OF ok(1) big] b(2) by auto
  have nw: "zone_newArena os ?n h = Inr (True, big_arena h0 ?n)"
    by (rule newArena_big [OF ok(1) fresh(2,1) z nb(1) left])
  have bump1: "zone_bump ?n (big_arena h0 ?n) = Inr (src_zone h0 + 24, ?h1)"
    using zone_bump_mapped [of "big_arena h0 ?n" ?n] b a0 ok(2) by simp
  have first: "zone_malloc os sz h = Inr (src_zone h0 + 24, ?h1)"
    using nw fresh bump1 by (simp add: zone_malloc_def zoneMalloc_def Let_def)
  have "unat (ChunkSize - ?n) = 2 ^ 64 - (unat ?n - 16368)"
    using nb unat_lt_64 [of ?n] by (simp add: unat_sub_if' ChunkSize_def)
  then have rem: "2 ^ 63 < unat (sizeRemaining ?h1)"
    using nb by (simp add: b(3))
  have nx: "src_next ?h1 = src_next h0 + (?n + 24)" and sp: "arenaSpace ?h1 = src_next h0 + (?n + 24)"
    using b by (simp_all add: algebra_simps)
  have "unat (src_next h0 + (?n + 24)) = unat (src_next h0) + (unat ?n + 24)"
    using ok(1,2) nb by (subst unat_add_small; (subst unat_add_small)?) (auto simp: source_ok_def)
  then have sp0: "arenaSpace ?h1 \<noteq> 0"
    unfolding sp by auto
  have "currentArena ?h1 \<noteq> 0" "\<not> sizeRemaining ?h1 < ?k"
    using src_next_addrs(3) [OF ok(1) big] b kb rem by (simp_all add: word_less_nat_alt)
  moreover have "zone_bump ?k ?h1 = Inr (src_next ?h1, bumped ?h1 ?k)"
    using zone_bump_mapped [of ?h1 ?k] sp0 b sp nx by simp
  ultimately have "zone_malloc os k ?h1 = Inr (src_next ?h1, bumped ?h1 ?k)"
    by (simp add: zone_malloc_def zoneMalloc_def Let_def)
  then show ?thesis
    using first rem by (intro exI [of _ ?h1] exI [of _ "bumped ?h1 ?k"]) simp
qed


definition demo_mapped :: locked_heap where
  "demo_mapped =
     (new_heap 101)\<lparr>heap_ram := map_zeroed (heap_ram (new_heap 101)) (unat (65536 :: u64)) (unat ZONE_SZ),
       src_zone := 65536, src_next := 65536, src_bytes_left := ZONE_SZ\<rparr>"

lemma demo_mapped_run: "source_mmap demo_os (new_heap 101) = Inr ((), demo_mapped)"
  by (simp add: source_mmap_def demo_os_def demo_mapped_def new_heap_def ZONE_SZ_def)

theorem oversized_request_overruns_witness:
  "\<exists>h1 h2. zone_malloc demo_os 20000 (new_heap 101) = Inr (src_zone demo_mapped + 24, h1) \<and>
    2 ^ 63 < unat (sizeRemaining h1) \<and> zone_malloc demo_os 32 h1 = Inr (src_next h1, h2) \<and>
    src_next h2 = src_next h1"
  by (rule oversized_request_overruns [OF demo_os_spec _ _ demo_mapped_run])
    (simp_all add: new_heap_def)

section \<open>Requests larger than an int\<close>

lemma ucast_high_bits: "ucast (sz + 4294967296 * k :: u64) = (ucast sz :: 32 word)"
proof -
  have "4294967296 * uint k mod 18446744073709551616 = 4294967296 * (uint k mod 4294967296)"
    using mult_mod_right [of 4294967296 "uint k" 4294967296] by simp
  then show ?thesis
    by (intro word_uint_eqI) (simp add: unsigned_ucast_eq uint_word_ariths take_bit_eq_mod mod_mod_cancel)
qed

text \<open>
  \<open>ZoneHeap::align\<close> takes its size as an \<open>int\<close>: below 2 GB it rounds up to eight bytes, but the
  upper half of a 64-bit size has no influence, so a request of \<open>4 GB + n\<close> bytes reserves as much
  as one of \<open>n\<close> bytes.
\<close>

theorem zone_align_range:
  "(unat sz < 2 ^ 31 - 8 \<longrightarrow> unat (zone_align sz) = up8 (unat sz)) \<and>
   zone_align (sz + 4294967296 * k) = zone_align sz"
  using unat_zone_align [of sz] by (simp add: zone_align_def ucast_high_bits)

theorem zone_align_range_witness:
  "unat (100 :: u64) < 2 ^ 31 - 8 \<and> unat (zone_align 100) = up8 (unat (100 :: u64)) \<and>
   zone_align (100 + 4294967296 * 3) = zone_align 100"
  using zone_align_range [of 100 3] by simp


section \<open>A realloc that shrinks\<close>

lemma read_write_inside:
  "a \<le> b \<Longrightarrow> b + n \<le> a + length bs \<Longrightarrow>
    read_bytes (write_bytes m a bs) b n = take n (drop (b - a) bs)"
  by (rule nth_equalityI) (auto simp: read_bytes_def write_bytes_def)

lemma heap_wf_header_apart:
  assumes wf: "heap_wf h live fl" and p: "p \<in> set live" "b \<in> set live" "b \<noteq> p"
  shows "unat p + 8 \<le> unat (b - 8) \<or> unat (b - 8) + 8 \<le> unat p"
proof -
  have ok: "block_ok h p" "block_ok h b" and ap: "blocks_apart h p b"
    using wf p by (auto simp: heap_wf_def blocks_ok_def)
  have "8 \<le> up8 (unat (blkSize h p))"
    using ok by (intro up8_pos) (simp add: block_ok_def)
  moreover have "unat (b - 8) = unat b - 8" "16 \<le> unat b" "16 \<le> unat p"
    using ok unat_minus_8 [of b] by (simp_all add: block_ok_def)
  ultimately show ?thesis
    using ap by (auto simp: blocks_apart_def blkHi_def blkLo_def)
qed

lemma shrink_run:
  fixes h :: "'a firstfit_heap_scheme"
  assumes wf: "heap_wf h live [q]" and p: "p \<in> set live" and fit: "stdlib_round sz \<le> blkSize h q"
    and m: "mapped_range (heap_ram h) (unat q) (unat (blkSize h p))"
  defines "r \<equiv> (heap_ram h)\<lparr>bytes := write_bytes (bytes (heap_ram h)) (unat q) (contents h p)\<rparr>"
  shows "\<exists>h'. stdlib_realloc os p sz h = Inr (q, h') \<and> heap_ram h' = put64 r p 0"
proof -
  let ?n = "stdlib_round sz"
  let ?h1 = "unlinked h [] q"
  have pq: "p \<noteq> 0" "q \<noteq> 0" and size: "getSize p h = Inr (blkSize h p, h)"
    and pm: "mapped_range (heap_ram h) (unat p) 8"
    using heap_wf_cells(1,4) [OF wf] getSize_run [OF wf, of p] p by auto
  have fl: "myFreeList h = q" "get64 (heap_ram h) q = 0"
    using wf by (simp_all add: heap_wf_def)
  have "ff_search (heap_ram h) ?n 0 (myFreeList h) = Some (Inr (last (0 # []), q))"
    unfolding ff_search_wf [OF wf] using fit by (simp add: fits_def head_or_null_def)
  then have mal: "ff_malloc os ?n h = Inr (q, ?h1)"
    using wf pq fl by (intro ff_malloc_hit [where xs = "[]" and ys = "[]"]) auto
  have "mapped_range (heap_ram h) (unat p + 0) (unat (blkSize h p))"
    by (rule block_mapped) (use heap_wf_block_ok [OF wf, of p] p up8_ge in auto)
  then have cpy: "heap_memcpy q p (blkSize h p) ?h1 = Inr ((), ?h1\<lparr>heap_ram := r\<rparr>)"
    using m by (simp add: heap_memcpy_run poke_def unlinked_def r_def contents_def)
  have "mapped_range r (unat p) 8"
    using pm by (simp add: r_def mapped_range_def)
  then have "\<exists>h'. ff_free p (?h1\<lparr>heap_ram := r\<rparr>) = Inr ((), h') \<and> heap_ram h' = put64 r p 0"
    using pq fl by (simp add: ff_free_def ff_place.simps unlinked_def)
  then show ?thesis
    using pq size mal cpy by (auto simp: stdlib_realloc_def Let_def)
qed

text \<open>
  C9. \<open>realloc\<close> to a smaller size copies the whole old block into the new one: when the block
  behind the new one is in use and the old block is longer by at least a header, the size in that
  block's header is replaced by eight bytes of the caller's data.
\<close>

theorem shrinking_realloc_overflows:
  assumes wf: "heap_wf h live [q]" and p: "p \<in> set live" and b: "b \<in> set live" "b \<noteq> p"
    and fit: "stdlib_round sz \<le> blkSize h q" and behind: "blkLo b = blkHi h q"
    and long: "blkHi h q + 16 \<le> unat q + unat (blkSize h p)"
    and m: "mapped_range (heap_ram h) (unat q) (unat (blkSize h p))"
  shows "\<exists>h'. stdlib_realloc os p sz h = Inr (q, h') \<and>
    blkSize h' b = bytes_u64 (take 8 (drop (unat b - 8 - unat q) (contents h p)))"
proof -
  obtain h' where run: "stdlib_realloc os p sz h = Inr (q, h')"
    and r: "heap_ram h' = put64 ((heap_ram h)\<lparr>bytes := write_bytes (bytes (heap_ram h)) (unat q) (contents h p)\<rparr>) p 0"
    using shrink_run [OF wf p fit m] by blast
  have b16: "unat (b - 8) = unat b - 8" "16 \<le> unat b"
    using heap_wf_block_ok [OF wf, of b] b unat_minus_8 [of b] by (simp_all add: block_ok_def)
  have "blkSize h' b = bytes_u64 (read_bytes (write_bytes (bytes (heap_ram h)) (unat q) (contents h p)) (unat b - 8) 8)"
    unfolding blkSize_def r
    using heap_wf_header_apart [OF wf p b] by (simp add: get64_put64_apart) (simp add: get64_def b16)
  also have "\<dots> = bytes_u64 (take 8 (drop (unat b - 8 - unat q) (contents h p)))"
    by (subst read_write_inside) (use behind long b16 in \<open>simp_all add: blkLo_def blkHi_def\<close>)
  finally show ?thesis
    using run by blast
qed

theorem shrinking_realloc_overflows_witness:
  "\<exists>h'. stdlib_realloc demo_os 65576 10 demo_heap = Inr (65656, h') \<and>
    blkSize h' 65688 = bytes_u64 (take 8 (drop (unat (65688 :: u64) - 8 - unat (65656 :: u64))
      (contents demo_heap 65576)))"
proof -
  have "stdlib_round 10 = 16"
    by (simp add: stdlib_round_def align8_def)
  then show ?thesis
    by (intro shrinking_realloc_overflows [OF demo_wf])
      (simp_all add: blkLo_def blkHi_def up8_def mapped_range_def demo_ram_cells)
qed

end
