(* ===== verification/Wrapper.thy ===== *)
theory Wrapper
  imports AllocatorProps
begin

text \<open>
  \<open>wrapper.cpp\<close>: what the application's \<open>malloc\<close> and its relatives become, the glibc hooks on Linux and
  the interposed functions on Mac OS, all over the entry points of \<open>libgallocy.cpp\<close>. Return values of
  \<open>posix_memalign\<close> are its error codes. The tables that make the dynamic linker use these functions
  and the zone functions that do nothing are not part of the model.
\<close>

section \<open>Linux\<close>

definition my_malloc_hook :: "os \<Rightarrow> u64 \<Rightarrow> (process, u64) op" where
  "my_malloc_hook os sz = custom_malloc os sz"

definition my_free_hook :: "u64 \<Rightarrow> (process, unit) op" where
  "my_free_hook ptr = custom_free ptr"

definition my_realloc_hook :: "os \<Rightarrow> u64 \<Rightarrow> u64 \<Rightarrow> (process, u64) op" where
  "my_realloc_hook os ptr sz = custom_realloc os ptr sz"

text \<open>The hook variables of glibc, and the variables that keep their first values.\<close>

record malloc_hooks =
  malloc_hook :: "os \<Rightarrow> u64 \<Rightarrow> (process, u64) op"
  free_hook :: "u64 \<Rightarrow> (process, unit) op"
  realloc_hook :: "os \<Rightarrow> u64 \<Rightarrow> u64 \<Rightarrow> (process, u64) op"
  old_malloc_hook :: "os \<Rightarrow> u64 \<Rightarrow> (process, u64) op"
  old_free_hook :: "u64 \<Rightarrow> (process, unit) op"
  old_realloc_hook :: "os \<Rightarrow> u64 \<Rightarrow> u64 \<Rightarrow> (process, u64) op"

definition my_init_hook :: "malloc_hooks \<Rightarrow> malloc_hooks" where
  "my_init_hook g =
     g\<lparr>old_malloc_hook := malloc_hook g, old_free_hook := free_hook g, old_realloc_hook := realloc_hook g,
       malloc_hook := my_malloc_hook, free_hook := my_free_hook, realloc_hook := my_realloc_hook\<rparr>"

section \<open>Mac OS\<close>

definition mac_round :: "u64 \<Rightarrow> u64" where
  "mac_round sz =
     (let sz = (if sz < 16 then 16 else sz)
      in if sz mod 16 \<noteq> 0 then sz + (16 - sz mod 16) else sz)"

definition macwrapper_malloc :: "os \<Rightarrow> u64 \<Rightarrow> (process, u64) op" where
  "macwrapper_malloc os sz = custom_malloc os (mac_round sz)"

definition macwrapper_malloc_usable_size :: "u64 \<Rightarrow> (process, u64) op" where
  "macwrapper_malloc_usable_size ptr = (if ptr = 0 then ok 0 else custom_malloc_usable_size ptr)"

definition macwrapper_free :: "u64 \<Rightarrow> (process, unit) op" where
  "macwrapper_free ptr = custom_free ptr"

definition macwrapper_malloc_good_size :: "os \<Rightarrow> u64 \<Rightarrow> (process, u64) op" where
  "macwrapper_malloc_good_size os sz =
     seq (macwrapper_malloc os sz)
       (\<lambda>ptr. seq (macwrapper_malloc_usable_size ptr)
         (\<lambda>objSize. seq (macwrapper_free ptr) (\<lambda>_. ok objSize)))"

definition extended_realloc :: "os \<Rightarrow> u64 \<Rightarrow> u64 \<Rightarrow> bool \<Rightarrow> (process, u64) op" where
  "extended_realloc os ptr sz isReallocf =
     (if ptr = 0 then macwrapper_malloc os sz
      else if sz = 0 then seq (macwrapper_free ptr) (\<lambda>_. macwrapper_malloc os 1)
      else seq (macwrapper_malloc_usable_size ptr)
        (\<lambda>objSize.
           if objSize div 2 < sz \<and> sz \<le> objSize then ok ptr
           else seq (macwrapper_malloc os sz)
             (\<lambda>buf.
                if buf \<noteq> 0
                then (let minSize = (if objSize < sz then objSize else sz)
                      in seq (on_heap (heap_memcpy buf ptr minSize))
                           (\<lambda>_. seq (macwrapper_free ptr) (\<lambda>_. ok buf)))
                else if isReallocf then seq (macwrapper_free ptr) (\<lambda>_. ok buf)
                else ok buf)))"

definition macwrapper_realloc :: "os \<Rightarrow> u64 \<Rightarrow> u64 \<Rightarrow> (process, u64) op" where
  "macwrapper_realloc os ptr sz = extended_realloc os ptr sz False"

definition macwrapper_reallocf :: "os \<Rightarrow> u64 \<Rightarrow> u64 \<Rightarrow> (process, u64) op" where
  "macwrapper_reallocf os ptr sz = extended_realloc os ptr sz True"

definition macwrapper_calloc :: "os \<Rightarrow> u64 \<Rightarrow> u64 \<Rightarrow> (process, u64) op" where
  "macwrapper_calloc os elsize nelems =
     (let n = nelems * elsize; n = (if n = 0 then 1 else n)
      in seq (macwrapper_malloc os n)
           (\<lambda>ptr. if ptr \<noteq> 0 then seq (on_heap (heap_memset ptr 0 n)) (\<lambda>_. ok ptr) else ok ptr))"

text \<open>The length is kept in an \<open>int\<close>.\<close>

definition macwrapper_strdup :: "os \<Rightarrow> u64 \<Rightarrow> (process, u64) op" where
  "macwrapper_strdup os s1 = (\<lambda>st.
     if s1 = 0 then Inr (0, st)
     else case c_strlen (heap_ram (heap st)) (unat s1) 0 of
            None \<Rightarrow> Inl Hang
          | Some (Inl e) \<Rightarrow> Inl e
          | Some (Inr n) \<Rightarrow>
              let len = scast (of_nat n + 1 :: 32 word) :: u64
              in seq (macwrapper_malloc os len)
                   (\<lambda>newString. if newString \<noteq> 0
                                 then seq (on_heap (heap_memcpy newString s1 len)) (\<lambda>_. ok newString)
                                 else ok newString) st)"

definition memalign_ok :: "u64 \<Rightarrow> u64 \<Rightarrow> bool" where
  "memalign_ok alignment ptr \<longleftrightarrow> ptr AND (alignment - 1) = ptr"

definition macwrapper_memalign :: "os \<Rightarrow> u64 \<Rightarrow> u64 \<Rightarrow> (process, u64) op" where
  "macwrapper_memalign os alignment sz =
     (if alignment = 0 \<or> alignment AND (alignment - 1) \<noteq> 0 then ok 0
      else seq (macwrapper_malloc os sz)
        (\<lambda>ptr. if memalign_ok alignment ptr then ok ptr
               else seq (macwrapper_free ptr)
                 (\<lambda>_. seq (macwrapper_malloc os (2 * alignment + sz))
                   (\<lambda>buf. ok ((buf + alignment - 1) AND NOT (alignment - 1))))))"

definition EINVAL :: nat where "EINVAL = 22"
definition ENOMEM :: nat where "ENOMEM = 12"

definition macwrapper_posix_memalign :: "os \<Rightarrow> u64 \<Rightarrow> u64 \<Rightarrow> (process, nat \<times> u64 option) op" where
  "macwrapper_posix_memalign os alignment sz =
     (if alignment = 0 \<or> alignment AND (alignment - 1) \<noteq> 0 then ok (EINVAL, None)
      else seq (macwrapper_memalign os alignment sz)
        (\<lambda>ptr. if ptr = 0 then ok (ENOMEM, None) else ok (0, Some ptr)))"

definition macwrapper_valloc :: "os \<Rightarrow> u64 \<Rightarrow> (process, u64) op" where
  "macwrapper_valloc os sz = macwrapper_memalign os 4096 sz"

section \<open>Zones\<close>

text \<open>The result is the list of the pointers; its length is the number that \<open>batch_malloc\<close> returns.\<close>

fun malloc_zone_batch_malloc :: "os \<Rightarrow> u64 \<Rightarrow> nat \<Rightarrow> (process, u64 list) op" where
  "malloc_zone_batch_malloc os sz 0 = ok []"
| "malloc_zone_batch_malloc os sz (Suc n) =
     seq (macwrapper_malloc os sz)
       (\<lambda>p. if p = 0 then ok []
            else seq (malloc_zone_batch_malloc os sz n) (\<lambda>ps. ok (p # ps)))"

fun malloc_zone_batch_free :: "u64 list \<Rightarrow> (process, unit) op" where
  "malloc_zone_batch_free [] = ok ()"
| "malloc_zone_batch_free (p # ps) = seq (macwrapper_free p) (\<lambda>_. malloc_zone_batch_free ps)"

definition malloc_zone_malloc :: "os \<Rightarrow> u64 \<Rightarrow> (process, u64) op" where
  "malloc_zone_malloc os sz = macwrapper_malloc os sz"

definition malloc_zone_calloc :: "os \<Rightarrow> u64 \<Rightarrow> u64 \<Rightarrow> (process, u64) op" where
  "malloc_zone_calloc os n sz = macwrapper_calloc os n sz"

definition malloc_zone_valloc :: "os \<Rightarrow> u64 \<Rightarrow> (process, u64) op" where
  "malloc_zone_valloc os sz = macwrapper_valloc os sz"

definition malloc_zone_realloc :: "os \<Rightarrow> u64 \<Rightarrow> u64 \<Rightarrow> (process, u64) op" where
  "malloc_zone_realloc os ptr sz = macwrapper_realloc os ptr sz"

definition malloc_zone_memalign :: "os \<Rightarrow> u64 \<Rightarrow> u64 \<Rightarrow> (process, u64) op" where
  "malloc_zone_memalign os alignment sz = macwrapper_memalign os alignment sz"

definition malloc_zone_free :: "u64 \<Rightarrow> (process, unit) op" where
  "malloc_zone_free ptr = macwrapper_free ptr"

definition malloc_zone_free_definite_size :: "u64 \<Rightarrow> u64 \<Rightarrow> (process, unit) op" where
  "malloc_zone_free_definite_size ptr sz = macwrapper_free ptr"

definition internal_malloc_zone_size :: "u64 \<Rightarrow> (process, u64) op" where
  "internal_malloc_zone_size ptr = macwrapper_malloc_usable_size ptr"

section \<open>Around fork\<close>

definition custom_malloc_lock :: "(process, unit) op" where
  "custom_malloc_lock = ok ()"

definition custom_malloc_unlock :: "(process, unit) op" where
  "custom_malloc_unlock = ok ()"

definition malloc_fork_prepare :: "(process, unit) op" where
  "malloc_fork_prepare = custom_malloc_lock"

definition malloc_fork_parent :: "(process, unit) op" where
  "malloc_fork_parent = custom_malloc_unlock"

definition malloc_fork_child :: "(process, unit) op" where
  "malloc_fork_child = custom_malloc_unlock"

section \<open>Sizes\<close>

definition up16 :: "nat \<Rightarrow> nat" where
  "up16 n = (n + 15) div 16 * 16"

lemma unat_mac_round:
  assumes "unat sz \<le> max_request"
  shows "unat (mac_round sz) = up16 (max 16 (unat sz))" and "unat (mac_round sz) \<le> max_request"
    and "unat sz \<le> unat (mac_round sz)"
proof -
  let ?s = "if sz < 16 then 16 else sz"
  have s: "unat ?s = max 16 (unat sz)" "unat ?s \<le> 16352"
    using assms by (auto simp: word_less_nat_alt max_request_def)
  have m: "unat (?s mod 16) = unat ?s mod 16"
    by (simp add: unat_mod_distrib)
  have lt: "unat ?s mod 16 < 16"
    by simp
  have d: "unat (16 - ?s mod 16) = 16 - unat ?s mod 16"
    using m lt by (subst unat_sub_le) (simp_all add: less_imp_le)
  have z: "?s mod 16 = 0 \<longleftrightarrow> unat ?s mod 16 = 0"
    using m by (metis unat_0 word_eq_unat)
  have add: "unat (?s + (16 - ?s mod 16)) = unat ?s + (16 - unat ?s mod 16)"
    using d s(2) by (subst unat_add_small) simp_all
  have r: "unat (mac_round sz) = (if unat ?s mod 16 \<noteq> 0 then unat ?s + (16 - unat ?s mod 16) else unat ?s)"
    unfolding mac_round_def Let_def using z add by (cases "?s mod 16 = 0") simp_all
  have up: "(if n mod 16 \<noteq> 0 then n + (16 - n mod 16) else n) = up16 n" for n :: nat
  proof (cases "n mod 16 = 0")
    case False
    define q r where "q = n div 16" and "r = n mod 16"
    then have n: "n = 16 * q + r" "0 < r" "r < 16"
      using False by simp_all
    then have "n + 15 = (r - 1) + 16 * Suc q"
      by simp
    then have "(n + 15) div 16 = Suc q"
      using n by (simp only: div_mult_self2)
    then show ?thesis
      using False n by (simp add: up16_def r_def [symmetric])
  next
    case True
    then obtain q where "n = 16 * q"
      by auto
    then show ?thesis
      by (simp add: up16_def)
  qed
  show e: "unat (mac_round sz) = up16 (max 16 (unat sz))"
    unfolding r s(1) up ..
  have le: "up16 n \<le> 16352" if "n \<le> 16352" for n
  proof -
    have "(n + 15) div 16 \<le> 16367 div 16"
      using that by (intro div_le_mono) simp
    then show ?thesis
      by (simp add: up16_def)
  qed
  show "unat (mac_round sz) \<le> max_request"
    using le [OF s(2)] unfolding e s(1) by (simp add: max_request_def)
  have "n \<le> up16 n" for n
    using up [of n] by (metis le_add1 le_refl)
  then show "unat sz \<le> unat (mac_round sz)"
    unfolding e by (meson max.cobounded2 order_trans)
qed

section \<open>realloc\<close>

lemma copy_prefix_rel:
  assumes rel: "heap_rel h m" and p: "m p = Some old" and q: "m q = Some bs"
    and n: "unat n \<le> length old" "unat n \<le> length bs"
  shows "\<exists>h'. heap_memcpy q p n h = Inr ((), h') \<and> heap_rel h' (m(q \<mapsto> overwrite bs 0 (take (unat n) old)))"
proof -
  obtain live fl where wf: "heap_wf h live fl"
    and m: "\<And>p. m p = (if p \<in> set live then Some (contents h p) else None)"
    using rel by (auto simp: heap_rel_def)
  have pq: "p \<in> set live" "q \<in> set live" "old = contents h p" "bs = contents h q"
    using p q m [of p] m [of q] by (auto split: if_splits)
  have map: "mapped_range (heap_ram h) (unat x) k"
    if "x \<in> set live" "k \<le> unat (blkSize h x)" for x k
    using block_mapped [OF heap_wf_block_ok [OF wf], of x 0 k] that up8_ge [of "unat (blkSize h x)"] by simp
  have t: "read_bytes (bytes (heap_ram h)) (unat p) (unat n) = take (unat n) old"
    using n(1) pq(3) by (simp add: contents_def read_bytes_def take_map min_absorb1)
  have "heap_memcpy q p n h = user_store q 0 (take (unat n) old) h"
    using heap_memcpy_run [of h q n p] map [of p "unat n"] map [of q "unat n"] pq n
    by (simp add: user_store_def ram_write_def poke_def t)
  then show ?thesis
    using user_store_rel [OF rel q, of 0 "take (unat n) old"] n by simp
qed

lemma mac_usable_size_rel:
  assumes "heap_rel (heap s) m" and "m p = Some bs" and "p \<noteq> 0"
  shows "\<exists>s'. macwrapper_malloc_usable_size p s = Inr (of_nat (length bs), s') \<and> heap_rel (heap s') m"
  using locked_getSize_rel [OF assms(1,2)] assms(3)
  by (auto simp: macwrapper_malloc_usable_size_def custom_malloc_usable_size_def lift_op_def)

lemma mac_malloc_rel:
  assumes "mmap_spec os" and "heap_rel (heap s) m" and "unat sz \<le> max_request"
  shows "macwrapper_malloc os sz s = Inl Enomem \<or>
    (\<exists>q s' bs. macwrapper_malloc os sz s = Inr (q, s') \<and> q \<noteq> 0 \<and> m q = None \<and> unat sz \<le> length bs \<and>
       heap_rel (heap s') (m(q \<mapsto> bs)))"
  using custom.malloc_law [of os s m "mac_round sz"] assms unat_mac_round(2,3) [OF assms(3)]
  by (auto simp: heap_serves_def allocates_def macwrapper_malloc_def intro: order_trans)

lemma mac_free_rel:
  assumes "mmap_spec os" and "heap_rel (heap s) m" and "m p \<noteq> None"
  shows "\<exists>s'. macwrapper_free p s = Inr ((), s') \<and> heap_rel (heap s') (m(p := None))"
  using custom.free_law [of os s m p] assms by (simp add: heap_serves_def macwrapper_free_def)

lemma heap_rel_live:
  assumes "heap_rel h m" and "m p = Some bs"
  shows "length bs < 2 ^ 64" and "p \<noteq> 0"
proof -
  obtain live fl where wf: "heap_wf h live fl" and p: "p \<in> set live" "bs = contents h p"
    using assms by (auto simp: heap_rel_def split: if_splits) (metis option.distinct(1) option.inject)
  show "length bs < 2 ^ 64"
    using unat_lt_64 [of "blkSize h p"] p by simp
  show "p \<noteq> 0"
    using heap_wf_cells(4) [OF wf, of p] p by simp
qed

text \<open>
  C31. \<open>realloc\<close> of the Mac OS wrapper keeps the bytes in both directions: the block it returns holds
  the first bytes of the old one, up to the smaller of the two sizes, the old pointer is given back
  unless it is returned itself, and every other block of the program is as before.
\<close>

theorem mac_realloc_keeps_bytes:
  assumes "mmap_spec os" and "heap_rel (heap s) m" and "m p = Some old" and "sz \<noteq> 0" and "unat sz \<le> max_request"
  shows "macwrapper_realloc os p sz s = Inl Enomem \<or>
    (\<exists>q s' bs. macwrapper_realloc os p sz s = Inr (q, s') \<and> unat sz \<le> length bs \<and>
       take (min (length old) (unat sz)) bs = take (min (length old) (unat sz)) old \<and>
       heap_rel (heap s') ((m(p := None))(q \<mapsto> bs)))"
proof -
  have p: "p \<noteq> 0" and len: "length old < 2 ^ 64"
    using heap_rel_live [OF assms(2,3)] by simp_all
  have u: "unat (of_nat (length old) :: u64) = length old"
    by (rule of_nat_inverse [OF refl]) (use len in simp)
  let ?n = "of_nat (length old) :: u64"
  obtain s1 where s1: "macwrapper_malloc_usable_size p s = Inr (?n, s1)" and r1: "heap_rel (heap s1) m"
    using mac_usable_size_rel [OF assms(2,3) p] by blast
  show ?thesis
  proof (cases "?n div 2 < sz \<and> sz \<le> ?n")
    case True
    then have "macwrapper_realloc os p sz s = Inr (p, s1)" "unat sz \<le> length old"
      using s1 p assms(4) u by (simp_all add: macwrapper_realloc_def extended_realloc_def word_le_nat_alt)
    moreover have "(m(p := None))(p \<mapsto> old) = m"
      using assms(3) by auto
    ultimately show ?thesis
      using r1 by auto
  next
    case False
    let ?k = "if ?n < sz then ?n else sz"
    have k: "unat ?k = min (length old) (unat sz)"
      using u by (auto simp: word_less_nat_alt)
    have run: "macwrapper_realloc os p sz s =
        seq (macwrapper_malloc os sz)
          (\<lambda>buf. if buf \<noteq> 0
                then seq (on_heap (heap_memcpy buf p ?k)) (\<lambda>_. seq (macwrapper_free p) (\<lambda>_. ok buf))
                else ok buf) s1"
      unfolding macwrapper_realloc_def extended_realloc_def if_not_P [OF p] if_not_P [OF assms(4)]
        seq_Inr [where m = "macwrapper_malloc_usable_size p", OF s1] if_not_P [OF False] Let_def if_False ..
    from mac_malloc_rel [OF assms(1) r1 assms(5)] show ?thesis
    proof (elim disjE exE conjE)
      assume "macwrapper_malloc os sz s1 = Inl Enomem"
      then show ?thesis
        by (simp add: run)
    next
      fix q s2 bs
      assume q: "macwrapper_malloc os sz s1 = Inr (q, s2)" "q \<noteq> 0" "m q = None" "unat sz \<le> length bs"
        and r2: "heap_rel (heap s2) (m(q \<mapsto> bs))"
      have pq: "p \<noteq> q"
        using assms(3) q(3) by auto
      have fit: "unat ?k \<le> length old" "unat ?k \<le> length bs"
        unfolding k using q(4) by simp_all
      have pm: "(m(q \<mapsto> bs)) p = Some old" and qm: "(m(q \<mapsto> bs)) q = Some bs"
        using assms(3) pq by simp_all
      let ?bs = "overwrite bs 0 (take (unat ?k) old)"
      obtain h3 where c: "heap_memcpy q p ?k (heap s2) = Inr ((), h3)" and r3: "heap_rel h3 (m(q \<mapsto> bs, q \<mapsto> ?bs))"
        using copy_prefix_rel [OF r2 pm qm fit] by blast
      let ?s3 = "s2\<lparr>heap := h3\<rparr>"
      obtain s4 where f: "macwrapper_free p ?s3 = Inr ((), s4)"
        and r4: "heap_rel (heap s4) ((m(q \<mapsto> bs, q \<mapsto> ?bs))(p := None))"
      proof -
        have "heap_rel (heap ?s3) (m(q \<mapsto> bs, q \<mapsto> ?bs))" "(m(q \<mapsto> bs, q \<mapsto> ?bs)) p \<noteq> None"
          using r3 assms(3) pq by simp_all
        from mac_free_rel [OF assms(1) this] that show ?thesis
          by blast
      qed
      have "macwrapper_realloc os p sz s = Inr (q, s4)"
        using q(1,2) c f by (simp add: run lift_op_def)
      moreover have "(m(q \<mapsto> bs, q \<mapsto> ?bs))(p := None) = (m(p := None))(q \<mapsto> ?bs)"
        using pq by (simp add: fun_upd_twist)
      moreover have "unat sz \<le> length ?bs" "take (min (length old) (unat sz)) ?bs = take (min (length old) (unat sz)) old"
        using q(4) by (simp_all add: overwrite_def k)
      ultimately show ?thesis
        using r4 by metis
    qed
  qed
qed

theorem mac_realloc_keeps_bytes_witness:
  "macwrapper_realloc demo_os 65576 20 demo_process = Inl Enomem \<or>
    (\<exists>q s' bs. macwrapper_realloc demo_os 65576 20 demo_process = Inr (q, s') \<and> unat (20 :: u64) \<le> length bs \<and>
       take 20 bs = take 20 (contents demo_heap 65576) \<and>
       heap_rel (heap s') ((demo_view(65576 := None))(q \<mapsto> bs)))"
proof -
  have "heap_rel (heap demo_process) demo_view" "demo_view 65576 = Some (contents demo_heap 65576)"
    by (simp_all add: demo_process_def demo_rel, simp add: demo_view_def)
  from mac_realloc_keeps_bytes [OF demo_os_spec this, of 20] show ?thesis
    by (simp add: max_request_def)
qed

section \<open>memalign\<close>

lemma unat_pow2: "k < 64 \<Longrightarrow> unat (2 ^ k :: u64) = 2 ^ k"
proof -
  assume k: "k < 64"
  have "(2 ^ k :: u64) = of_nat (2 ^ k)"
    by simp
  moreover have "(2 :: nat) ^ k < 2 ^ 64"
    using k by (intro power_strict_increasing) simp_all
  then have "unat (of_nat (2 ^ k) :: u64) = 2 ^ k"
    by (intro of_nat_inverse [OF refl]) simp
  ultimately show ?thesis
    by metis
qed

lemma and_not_mask:
  fixes x :: u64
  assumes "k < 64"
  shows "unat (x AND NOT (mask k)) = unat x div 2 ^ k * 2 ^ k"
proof -
  have "x AND NOT (mask k) = push_bit k (drop_bit k x)"
    by (rule bit_word_eqI) (auto simp: bit_simps)
  then have "unat (x AND NOT (mask k)) = unat (drop_bit k x) * 2 ^ k mod 2 ^ 64"
    using unat_pow2 [OF assms] by (simp add: push_bit_eq_mult unat_word_ariths)
  also have "unat (drop_bit k x) = unat x div 2 ^ k"
    unfolding unat_drop_bit_eq by (simp add: drop_bit_eq_div)
  also have "unat x div 2 ^ k * 2 ^ k mod 2 ^ 64 = unat x div 2 ^ k * 2 ^ k"
    using unat_lt_64 [of x] by (intro mod_less) (simp add: le_less_trans [OF div_times_less_eq_dividend])
  finally show ?thesis .
qed

text \<open>
  The test by which \<open>memalign\<close> decides that a block is aligned accepts exactly the addresses below
  the alignment: for every alignment it accepts as a power of two, no aligned address other than null
  passes, so every call allocates twice and returns an address inside a larger block, which is aligned
  and has room for the request.
\<close>

theorem memalign_test_inverted:
  fixes ptr buf :: u64
  assumes "k < 64"
  shows "(memalign_ok (2 ^ k) ptr \<longleftrightarrow> unat ptr < 2 ^ k) \<and>
    (unat buf + 2 ^ k \<le> 2 ^ 64 \<longrightarrow>
       2 ^ k dvd unat ((buf + 2 ^ k - 1) AND NOT (2 ^ k - 1)) \<and>
       unat buf \<le> unat ((buf + 2 ^ k - 1) AND NOT (2 ^ k - 1)) \<and>
       unat ((buf + 2 ^ k - 1) AND NOT (2 ^ k - 1)) < unat buf + 2 ^ k)"
proof -
  have mask: "(2 ^ k - 1 :: u64) = mask k"
    by (simp add: mask_eq_exp_minus_1)
  have "memalign_ok (2 ^ k) ptr \<longleftrightarrow> take_bit k ptr = ptr"
    by (simp add: memalign_ok_def mask take_bit_eq_mask)
  also have "\<dots> \<longleftrightarrow> take_bit k (unat ptr) = unat ptr"
    by (simp add: word_eq_unat unsigned_take_bit_eq)
  also have "\<dots> \<longleftrightarrow> unat ptr < 2 ^ k"
    by (rule take_bit_nat_eq_self_iff)
  finally have test: "memalign_ok (2 ^ k) ptr \<longleftrightarrow> unat ptr < 2 ^ k" .
  have "2 ^ k dvd unat (buf + 2 ^ k - 1 AND NOT (mask k)) \<and> unat buf \<le> unat (buf + 2 ^ k - 1 AND NOT (mask k)) \<and>
      unat (buf + 2 ^ k - 1 AND NOT (mask k)) < unat buf + 2 ^ k" if fit: "unat buf + 2 ^ k \<le> 2 ^ 64"
  proof -
    have "unat (mask k :: u64) = 2 ^ k - 1"
      unfolding mask [symmetric] using unat_pow2 [OF assms] by (subst unat_sub_le) (simp_all add: Suc_le_eq)
    moreover have "unat buf + (2 ^ k - 1) < 2 ^ 64"
      using fit by (rule less_le_trans [rotated]) simp
    ultimately have "unat (buf + mask k) = unat buf + (2 ^ k - 1)"
      by (subst unat_add_small) simp_all
    moreover have "buf + 2 ^ k - 1 = buf + mask k"
      unfolding mask [symmetric] by (rule add_diff_eq [symmetric])
    ultimately have x: "unat (buf + 2 ^ k - 1) = unat buf + (2 ^ k - 1)"
      by metis
    have "unat buf \<le> (unat buf + (2 ^ k - 1)) div 2 ^ k * 2 ^ k"
    proof -
      have "(0 :: nat) < 2 ^ k"
        by simp
      with div_mult_mod_eq [of "unat buf + (2 ^ k - 1)" "2 ^ k"] mod_less_divisor [OF this, of "unat buf + (2 ^ k - 1)"]
      show ?thesis
        by linarith
    qed
    moreover have "(unat buf + (2 ^ k - 1)) div 2 ^ k * 2 ^ k < unat buf + 2 ^ k"
      by (rule le_less_trans [OF div_times_less_eq_dividend]) simp
    ultimately show ?thesis
      unfolding and_not_mask [OF assms] x by simp
  qed
  then show ?thesis
    using test unfolding mask by blast
qed

theorem memalign_test_inverted_witness:
  "\<not> memalign_ok (2 ^ 12) 65536 \<and> unat ((65552 + 2 ^ 12 - 1) AND NOT (2 ^ 12 - 1) :: u64) < 69648"
proof -
  have "(memalign_ok (2 ^ 12) 65536 \<longleftrightarrow> unat (65536 :: u64) < 2 ^ 12)"
    using memalign_test_inverted [of 12 65536 65552] by linarith
  moreover have "unat ((65552 + 2 ^ 12 - 1) AND NOT (2 ^ 12 - 1) :: u64) < unat (65552 :: u64) + 2 ^ 12"
    using memalign_test_inverted [of 12 65536 65552] by simp
  ultimately show ?thesis
    by simp
qed

end
