(* ===== verification/ExampleApp.thy ===== *)
theory ExampleApp
  imports Wrapper "HOL-Library.Multiset"
begin

text \<open>
  \<open>bin/server.cpp\<close>: the example application, a thread that forever allocates a random number of bytes,
  fills them and frees them, through the allocator that the library puts under \<open>malloc\<close> and \<open>free\<close>. The
  numbers that \<open>rand\<close> returns are a parameter, and nothing else uses the application heap. First-fit reuse bounds what this loop can take from the
  zone: a new block is only cut when every free block is smaller, so no two blocks have the same size.
\<close>

section \<open>The application\<close>

definition request_size :: "nat \<Rightarrow> u64" where
  "request_size rnd = of_nat (8092 - rnd mod 8092)"

definition app_turn :: "os \<Rightarrow> nat \<Rightarrow> (process, unit) op" where
  "app_turn os rnd =
     seq (my_malloc_hook os (request_size rnd))
       (\<lambda>memory. seq (on_heap (heap_memset memory 33 (request_size rnd)))
         (\<lambda>_. my_free_hook memory))"

fun app_work :: "os \<Rightarrow> nat list \<Rightarrow> (process, unit) op" where
  "app_work os [] = ok ()"
| "app_work os (rnd # rnds) = seq (app_turn os rnd) (\<lambda>_. app_work os rnds)"

lemma unat_request_size: "unat (request_size rnd) = 8092 - rnd mod 8092"
proof -
  have "8092 - rnd mod 8092 < (2 :: nat) ^ LENGTH(64)"
    by (rule le_less_trans [of _ 8092]) simp_all
  then show ?thesis
    unfolding request_size_def by (rule of_nat_inverse [OF refl])
qed

section \<open>What is taken from the zone\<close>

definition zone_used :: "'a zone_heap_scheme \<Rightarrow> nat" where
  "zone_used h = (if currentArena h = 0 then 0 else 33554432 - unat (src_bytes_left h))"

lemma zone_used_same [simp]:
  "zone_used (heap_ram_update f h) = zone_used h"
  "zone_used (bumped h sz) = zone_used h"
  by (simp_all add: zone_used_def bumped_def)

lemma zone_used_upper [simp]:
  "zone_used (myFreeList_update f k) = zone_used k"
  "zone_used (nObjects_update g k) = zone_used k"
  "zone_used (alock_update b l) = zone_used l"
  by (simp_all add: zone_used_def)

lemma newArena_used:
  assumes os: "mmap_spec os" and B: "arenas_ok h B" and sz: "unat sz \<le> 16368"
    and run: "zone_newArena os sz h = Inr (True, h')"
  shows "zone_used h' \<le> zone_used h + 16392"
proof -
  have used: "zone_used (with_arena h1) = 33554432 - (unat (src_bytes_left h1) - 16392)"
    if "16392 < unat (src_bytes_left h1)" "src_next h1 \<noteq> 0" for h1 :: "'a zone_heap_scheme"
    using that by (simp add: zone_used_def with_arena_def Let_def unat_sub_le)
  show ?thesis
  proof (cases "currentArena h = 0")
    case True
    then have z: "src_zone h = 0" and r: "retired h = h"
      using B by (simp_all add: arenas_ok_def retired_def)
    obtain h1 where h1: "source_mmap os h = Inr ((), h1)"
    proof (cases "source_mmap os h")
      case (Inl e)
      then show thesis
        using run z True by (simp add: zone_newArena_def zone_retire_def source_malloc_def)
    qed auto
    note ok = source_mmap_ok [OF os h1]
    have big: "16392 < unat (src_bytes_left h1)" "unat (src_bytes_left h1) = 33554432"
      by (simp_all add: ok(3) ZONE_SZ_def)
    have "h' = with_arena h1"
      using zone_newArena_run [of h sz os h1] True h1 z r ok(1) sz big run by simp
    then show ?thesis
      using used [OF big(1) src_next_addrs(3) [OF ok(1) big(1)]] big(2) by simp
  next
    case False
    then have a: "arena_ok h"
      using B by (simp add: arenas_ok_def)
    have s: "source_ok (retired h)" "src_bytes_left (retired h) = src_bytes_left h" and z: "src_zone h \<noteq> 0"
      using a False by (auto simp: arena_ok_def source_ok_def retired_def)
    have "zone_newArena os sz h =
        (if 16392 < unat (src_bytes_left (retired h)) then Inr (True, with_arena (retired h)) else Inl Enomem)"
      by (rule zone_newArena_run) (use a s z sz in simp_all)
    then have big: "16392 < unat (src_bytes_left (retired h))" and h': "h' = with_arena (retired h)"
      using run by (simp_all split: if_splits)
    show ?thesis
      using used [OF big src_next_addrs(3) [OF s(1) big]] False s(2) by (simp add: h' zone_used_def)
  qed
qed

lemma zone_malloc_used:
  assumes os: "mmap_spec os" and B: "blocks_ok h B" "arenas_ok h B" and sz: "unat sz \<le> 16368"
    and run: "zone_malloc os sz h = Inr (p, h')"
  shows "zone_used h' \<le> zone_used h + 16392"
proof -
  let ?sz = "zone_align sz"
  have le: "unat ?sz \<le> 16368"
    using unat_zone_align [of sz] up8_mono [OF sz] sz by (simp add: up8_def)
  show ?thesis
  proof (cases "currentArena h = 0 \<or> sizeRemaining h < ?sz")
    case True
    then have r: "zone_malloc os sz h =
        seq (zone_newArena os ?sz) (\<lambda>got. if got then zone_bump ?sz else ok 0) h"
      by (simp add: zone_malloc_def zoneMalloc_def Let_def seq_def)
    from newArena_carvable [OF os B le] run r obtain h1
      where h1: "zone_newArena os ?sz h = Inr (True, h1)" "arena_ok h1"
      by auto
    then have "h' = bumped h1 ?sz"
      using run r zone_bump_run [OF h1(2)] by simp
    then show ?thesis
      using newArena_used [OF os B(2) le h1(1)] by simp
  next
    case False
    then have "arena_ok h"
      using B(2) by (simp add: arenas_ok_def)
    from zone_bump_run [OF this] have "h' = bumped h ?sz"
      using False run by (simp add: zone_malloc_def zoneMalloc_def Let_def)
    then show ?thesis
      by simp
  qed
qed

lemma heap_store_used: "heap_store p v h = Inr (u, h') \<Longrightarrow> zone_used h' = zone_used h"
  by (auto simp: heap_store_def rbind_eq_Inr)

lemma heap_load_used: "heap_load p h = Inr (v, h') \<Longrightarrow> h' = h"
  by (auto simp: heap_load_def rbind_eq_Inr)

lemma size_malloc_used:
  assumes "mmap_spec os" and "blocks_ok h B" "arenas_ok h B" and "unat sz \<le> 16352"
    and "size_malloc os sz h = Inr (p, h')"
  shows "zone_used h' \<le> zone_used h + 16392"
proof -
  have "unat (sz + 16) = unat sz + 16"
    using assms(4) by (subst unat_add_small) auto
  then have le: "unat (sz + 16) \<le> 16368"
    using assms(4) by simp
  obtain q h1 where "zone_malloc os (sz + 16) h = Inr (q, h1)" "zone_used h' = zone_used h1"
    using assms(5) heap_store_used by (fastforce simp: size_malloc_def seq_def split: sum.splits)
  then show ?thesis
    using zone_malloc_used [OF assms(1-3) le] by simp
qed

lemma ff_malloc_used:
  assumes os: "mmap_spec os" and wf: "heap_wf h live fl" and sz: "unat sz \<le> 16352"
    and run: "ff_malloc os sz h = Inr (p, h')"
  shows "zone_used h' \<le> zone_used h + (if find (fits h sz) fl = None then 16392 else 0)"
proof (cases "find (fits h sz) fl")
  case None
  then have "dropWhile (\<lambda>x. \<not> fits h sz x) fl = []"
    by (simp add: find_None_iff)
  then have "size_malloc os sz h = Inr (p, h')"
    using run ff_search_malloc_none [OF wf] by simp
  moreover have "blocks_ok h (set live \<union> set fl)" "arenas_ok h (set live \<union> set fl)"
    using wf by (simp_all add: heap_wf_def)
  ultimately show ?thesis
    using size_malloc_used [OF os _ _ sz] None by auto
next
  case (Some q)
  then obtain ys where drop: "dropWhile (\<lambda>x. \<not> fits h sz x) fl = q # ys"
    unfolding find_dropWhile by (auto split: list.splits)
  then have fl: "fl = takeWhile (\<lambda>x. \<not> fits h sz x) fl @ q # ys"
    by (metis takeWhile_dropWhile_id)
  have "q \<noteq> 0" "myFreeList h \<noteq> 0"
    using heap_wf_cells(4) [OF wf] wf fl chain_head [of "get64 (heap_ram h)" "myFreeList h" fl]
    by (auto simp: heap_wf_def head_or_null_def split: list.splits)
  then have "zone_used h' = zone_used h"
    using run unfolding ff_malloc_def ff_search_wf [OF wf] drop
    by (auto simp: head_or_null_def seq_def split: if_splits sum.splits dest!: heap_store_used heap_load_used)
  then show ?thesis
    by simp
qed

lemma ff_free_used: "ff_free p h = Inr (u, h') \<Longrightarrow> zone_used h' = zone_used h"
  by (auto simp: ff_free_def Let_def seq_def split: if_splits option.splits sum.splits
      dest!: heap_store_used heap_load_used)

section \<open>One turn\<close>

text \<open>
  Between two turns no block is in use, the free blocks have different sizes, each a multiple of eight
  up to the largest request, and each of them has cost at most one arena.
\<close>

definition block_class :: "u64 \<Rightarrow> bool" where
  "block_class n \<longleftrightarrow> 16 \<le> unat n \<and> unat n \<le> 8096 \<and> 8 dvd unat n"

definition stocked :: "'a zone_heap_scheme \<Rightarrow> u64 list \<Rightarrow> bool" where
  "stocked h B \<longleftrightarrow>
     distinct (map (blkSize h) B) \<and> (\<forall>p \<in> set B. block_class (blkSize h p)) \<and> zone_used h \<le> 16392 * length B"

definition can_map :: "os \<Rightarrow> 'a zone_heap_scheme \<Rightarrow> bool" where
  "can_map os h \<longleftrightarrow> os_mmap os (heap_ram h) (get_heap_location (os_end os) (src_purpose h)) ZONE_SZ \<noteq> None"

definition app_inv :: "os \<Rightarrow> locked_heap \<Rightarrow> bool" where
  "app_inv os h \<longleftrightarrow> \<not> alock h \<and> (\<exists>fl. heap_wf h [] fl \<and> stocked h fl \<and> (fl = [] \<longrightarrow> can_map os h))"

lemma alock_ignored [simp]:
  "blkSize (alock_update f h) = blkSize h" "stocked (alock_update f h) B = stocked h B"
  "can_map os (alock_update f h) = can_map os h"
proof -
  show b: "blkSize (alock_update f h) = blkSize h"
    by (rule ext) simp
  show "stocked (alock_update f h) B = stocked h B" "can_map os (alock_update f h) = can_map os h"
    by (simp_all add: stocked_def b can_map_def)
qed

lemma stocked_same:
  assumes "stocked h B" and "mset B' = mset B" and "\<forall>q \<in> set B. blkSize h' q = blkSize h q"
    and "zone_used h' \<le> zone_used h"
  shows "stocked h' B'"
proof -
  have "map (blkSize h') B = map (blkSize h) B"
    using assms(3) by simp
  then have "mset (map (blkSize h') B') = mset (map (blkSize h) B)"
    using assms(2) by (metis mset_map)
  then have "distinct (map (blkSize h') B')"
    using assms(1) mset_eq_imp_distinct_iff unfolding stocked_def by blast
  moreover have "set B' = set B" "length B' = length B"
    using assms(2) by (metis mset_eq_setD, metis mset_eq_length)
  ultimately show ?thesis
    using assms(1,3,4) by (simp add: stocked_def)
qed

lemma stocked_new:
  assumes "stocked h B" and "\<forall>q \<in> set B. blkSize h' q = blkSize h q" and "\<forall>q \<in> set B. blkSize h q < blkSize h' p"
    and "block_class (blkSize h' p)" and "zone_used h' \<le> zone_used h + 16392"
  shows "stocked h' (p # B)"
proof -
  have "map (blkSize h') B = map (blkSize h) B"
    using assms(2) by simp
  then have "distinct (map (blkSize h') B)"
    using assms(1) unfolding stocked_def by metis
  moreover have "blkSize h' p \<notin> blkSize h' ` set B"
    using assms(2,3) by force
  ultimately show ?thesis
    using assms by (auto simp: stocked_def)
qed

lemma block_classes: "card {n. block_class n} \<le> 1011"
proof -
  have "{n. block_class n} \<subseteq> (\<lambda>k. of_nat (8 * k)) ` {2..1012}"
  proof
    fix n assume "n \<in> {n. block_class n}"
    then obtain k where k: "unat n = 8 * k" "k \<in> {2..1012}"
      by (auto simp: block_class_def elim!: dvdE)
    have "of_nat (unat n) = n"
      by simp
    then have "n = of_nat (8 * k)"
      unfolding k(1) ..
    then show "n \<in> (\<lambda>k. of_nat (8 * k)) ` {2..1012}"
      using k(2) by (rule image_eqI)
  qed
  then show ?thesis
    using surj_card_le [of "{2..1012}" "{n. block_class n}" "\<lambda>k. of_nat (8 * k)"] by simp
qed

lemma few_blocks:
  assumes "stocked h fl"
  shows "length fl \<le> 1011"
proof -
  have "length fl = card (set (map (blkSize h) fl))"
    using distinct_card [of "map (blkSize h) fl"] assms by (simp add: stocked_def)
  also have "\<dots> \<le> card {n. block_class n}"
    using assms by (intro card_mono) (auto simp: stocked_def intro: finite_subset [OF subset_UNIV])
  finally show ?thesis
    using block_classes by simp
qed

lemma block_class_round: "block_class (stdlib_round (request_size rnd))"
proof -
  have s: "unat (request_size rnd) \<le> 8092"
    by (simp add: unat_request_size)
  then have "unat (stdlib_round (request_size rnd)) = up8 (max 16 (unat (request_size rnd)))"
    by (intro unat_stdlib_round) simp
  moreover have "up8 (max 16 (unat (request_size rnd))) \<le> up8 8092"
    using s by (intro up8_mono) simp
  ultimately show ?thesis
    using stdlib_round_small [of "request_size rnd"] s by (simp add: block_class_def up8_def)
qed

text \<open>So the zone cannot run out: a thousand and eleven arenas are half of it.\<close>

lemma not_exhausted:
  assumes "heap_wf h [] fl" and "stocked h fl" and "fl = [] \<longrightarrow> can_map os h"
  shows "\<not> exhausted os h n"
proof (cases "currentArena h = 0")
  case True
  then have "fl = []"
    using assms(1) by (simp add: heap_wf_def arenas_ok_def)
  then show ?thesis
    using True assms(3) by (simp add: exhausted_def can_map_def)
next
  case False
  have "16392 * length fl \<le> 16392 * 1011"
    using few_blocks [OF assms(2)] by simp
  then have "33554432 - unat (src_bytes_left h) \<le> 16572312"
    using assms(2) False by (simp add: stocked_def zone_used_def)
  then have "16392 < unat (src_bytes_left h)"
    by arith
  then show ?thesis
    using False by (simp add: exhausted_def)
qed

lemma app_malloc:
  assumes os: "mmap_spec os" and wf: "heap_wf h [] fl" and st: "stocked h fl"
    and mm: "fl = [] \<longrightarrow> can_map os h"
  shows "\<exists>p h' fl'. stdlib_malloc os (request_size rnd) h = Inr (p, h') \<and> heap_wf h' [p] fl' \<and>
    stocked h' (p # fl') \<and> stdlib_round (request_size rnd) \<le> blkSize h' p \<and>
    firstfit_heap.more h' = firstfit_heap.more h"
proof -
  define r where "r = stdlib_round (request_size rnd)"
  have c: "block_class r"
    by (simp add: r_def block_class_round)
  then have sz: "1 \<le> unat r" "unat r \<le> 16352"
    by (simp_all add: block_class_def)
  have "ff_malloc os r h \<noteq> Inl Enomem"
    using ff_malloc_enomem(2) [OF os wf sz] not_exhausted [OF wf st mm] by blast
  then obtain p h' fl' where run: "ff_malloc os r h = Inr (p, h')" and g: "got_block h h' [] fl r p fl'"
    using ff_malloc_spec [OF os wf sz] by blast
  note used = ff_malloc_used [OF os wf sz(2) run]
  have "stocked h' (p # fl')"
  proof (cases "find (fits h r) fl")
    case None
    then have "\<forall>q \<in> set fl. blkSize h q < r"
      by (auto simp: find_None_iff fits_def not_le)
    then show ?thesis
      using g used None c by (auto simp: got_block_def intro!: stocked_new [OF st])
  next
    case (Some q)
    then have "q \<in> set fl"
      by (auto simp: find_Some_iff)
    then have "mset (p # fl') = mset fl"
      using g Some by (simp add: got_block_def)
    then show ?thesis
      using g used Some by (intro stocked_same [OF st]) (auto simp: got_block_def)
  qed
  then show ?thesis
    using run g by (auto simp: stdlib_malloc_def r_def got_block_def)
qed

lemma app_free:
  assumes wf: "heap_wf h [p] fl" and st: "stocked h (p # fl)"
  shows "\<exists>h'. stdlib_free p h = Inr ((), h') \<and> heap_wf h' [] (insort p fl) \<and> stocked h' (insort p fl) \<and>
    firstfit_heap.more h' = firstfit_heap.more h"
proof -
  obtain h' where run: "ff_free p h = Inr ((), h')" and g: "gave_block h h' [p] fl p"
    using ff_free_spec [OF wf, of p] by auto
  have "stocked h' (insort p fl)"
    by (rule stocked_same [OF st]) (use g ff_free_used [OF run] in \<open>auto simp: gave_block_def\<close>)
  then show ?thesis
    using run g by (simp add: stdlib_free_def gave_block_def)
qed

lemma app_fill:
  assumes wf: "heap_wf h [p] fl" and st: "stocked h (p # fl)" and n: "unat n \<le> unat (blkSize h p)"
  shows "\<exists>h'. heap_memset p c n h = Inr ((), h') \<and> heap_wf h' [p] fl \<and> stocked h' (p # fl) \<and>
    firstfit_heap.more h' = firstfit_heap.more h"
proof -
  let ?bs = "replicate (unat n) c"
  have fit: "0 + length ?bs \<le> unat (blkSize h p)"
    using n by simp
  note w = heap_wf_poke [OF wf _ fit, simplified]
  have "mapped_range (heap_ram h) (unat p + 0) (unat n)"
    by (rule block_mapped) (use heap_wf_block_ok [OF wf] n up8_ge [of "unat (blkSize h p)"] in auto)
  then have "heap_memset p c n h = Inr ((), poke h (unat p) ?bs)"
    by (simp add: heap_memset_run)
  moreover have "stocked (poke h (unat p) ?bs) (p # fl)"
    by (rule stocked_same [OF st]) (use w(2) in \<open>auto simp: poke_def\<close>)
  ultimately show ?thesis
    using w(1,4) by auto
qed

lemma app_inv_intro:
  assumes "heap_wf h [] fl" and "stocked h fl" and "fl \<noteq> []"
  shows "app_inv os (h\<lparr>alock := False\<rparr>)"
  using assms by (auto simp: app_inv_def)

lemma more_alock: "firstfit_heap.more h' = firstfit_heap.more h \<Longrightarrow> alock h' = alock (h :: locked_heap)"
  by (cases h; cases h') simp

lemma app_turn_runs:
  assumes os: "mmap_spec os" and inv: "app_inv os (heap s)"
  shows "\<exists>s'. app_turn os rnd s = Inr ((), s') \<and> app_inv os (heap s')"
proof -
  let ?h = "(heap s)\<lparr>alock := True\<rparr>" and ?n = "request_size rnd"
  obtain fl where nl: "\<not> alock (heap s)" and "heap_wf ?h [] fl" "stocked ?h fl" "fl = [] \<longrightarrow> can_map os ?h"
    using inv by (auto simp: app_inv_def)
  from app_malloc [OF os this(2-4)] obtain p h1 fl1 where m: "stdlib_malloc os ?n ?h = Inr (p, h1)"
    and h1: "heap_wf h1 [p] fl1" "stocked h1 (p # fl1)" "stdlib_round ?n \<le> blkSize h1 p"
    by blast
  have n: "unat ?n \<le> unat (blkSize h1 p)"
  proof -
    have "unat ?n \<le> 16352"
      unfolding unat_request_size by simp
    from stdlib_round_small(2) [OF this] show ?thesis
      using h1(3) unfolding word_le_nat_alt by (rule order_trans)
  qed
  obtain h2 where f: "heap_memset p 33 ?n (h1\<lparr>alock := False\<rparr>) = Inr ((), h2)"
    and h2: "heap_wf h2 [p] fl1" "stocked h2 (p # fl1)" "\<not> alock h2"
    using app_fill [of "h1\<lparr>alock := False\<rparr>" p fl1 ?n 33] h1 n more_alock [of _ "h1\<lparr>alock := False\<rparr>"]
    by auto
  obtain h3 where d: "stdlib_free p (h2\<lparr>alock := True\<rparr>) = Inr ((), h3)"
    and h3: "heap_wf h3 [] (insort p fl1)" "stocked h3 (insort p fl1)"
    using app_free [of "h2\<lparr>alock := True\<rparr>" p fl1] h2 by auto
  have "locked_malloc os ?n (heap s) = Inr (p, h1\<lparr>alock := False\<rparr>)"
    unfolding locked_malloc_def by (rule guarded_ok [where m = "stdlib_malloc os ?n", OF nl m])
  moreover have "locked_free p h2 = Inr ((), h3\<lparr>alock := False\<rparr>)"
    unfolding locked_free_def by (rule guarded_ok [where m = "stdlib_free p", OF h2(3) d])
  ultimately have "app_turn os rnd s = Inr ((), s\<lparr>heap := h3\<lparr>alock := False\<rparr>\<rparr>)"
    using f by (simp add: app_turn_def my_malloc_hook_def my_free_hook_def custom_malloc_def custom_free_def lift_op_def)
  moreover have "app_inv os (h3\<lparr>alock := False\<rparr>)"
    by (rule app_inv_intro [OF h3]) simp
  ultimately show ?thesis
    by auto
qed

section \<open>Forever\<close>

lemma app_work_runs:
  assumes "mmap_spec os"
  shows "app_inv os (heap s) \<Longrightarrow> \<exists>s'. app_work os rnds s = Inr ((), s') \<and> app_inv os (heap s')"
proof (induction rnds arbitrary: s)
  case (Cons rnd rnds)
  obtain s1 where "app_turn os rnd s = Inr ((), s1)" "app_inv os (heap s1)"
    using app_turn_runs [OF assms Cons.prems] by blast
  then show ?case
    using Cons.IH by auto
qed simp

text \<open>
  C4. The example application runs forever. Whatever numbers \<open>rand\<close> returns and however many turns are
  made, every \<open>malloc\<close>, \<open>memset\<close> and \<open>free\<close> of its loop succeeds if the kernel gives the heap its zone once;
  between the turns no block is in use, and less than half of the zone is ever taken, in at most 1011
  blocks.
\<close>

theorem app_runs_forever:
  assumes "mmap_spec os" and "can_map os (heap new_process)"
  shows "\<exists>s' fl. app_work os rnds new_process = Inr ((), s') \<and> heap_wf (heap s') [] fl \<and>
    length fl \<le> 1011 \<and> 2 * zone_used (heap s') < 33554432"
proof -
  have "heap_wf (heap new_process) [] []" "zone_used (heap new_process) = 0" "\<not> alock (heap new_process)"
    by (simp_all add: new_process_def new_heap_def heap_wf_def blocks_ok_def arenas_ok_def zone_used_def)
  then have "app_inv os (heap new_process)"
    using assms(2) by (auto simp: app_inv_def stocked_def intro!: exI [of _ "[]"])
  from app_work_runs [OF assms(1) this, of rnds] obtain s' fl where "app_work os rnds new_process = Inr ((), s')"
    "heap_wf (heap s') [] fl" "stocked (heap s') fl"
    by (auto simp: app_inv_def)
  moreover from this have "length fl \<le> 1011" "zone_used (heap s') \<le> 16392 * length fl"
    by (auto simp: few_blocks stocked_def)
  ultimately show ?thesis
    by (intro exI [of _ s'] exI [of _ fl]) simp
qed

theorem app_runs_forever_witness:
  "\<exists>s' fl. app_work demo_os [0, 8091, 5, 123456789] new_process = Inr ((), s') \<and> heap_wf (heap s') [] fl \<and>
    length fl \<le> 1011 \<and> 2 * zone_used (heap s') < 33554432"
  by (rule app_runs_forever [OF demo_os_spec])
    (simp add: can_map_def demo_os_def new_process_def new_heap_def ZONE_SZ_def)

end
