(* ===== verification/Layers.thy ===== *)
theory Layers
  imports HeapInv StdlibHeap
begin

text \<open>
  The heap layers that the library offers beside those of its own heaps: \<open>freesllist.h\<close>,
  \<open>freelistheap.h\<close>, \<open>addheap.h\<close>, \<open>debugheap.h\<close>, \<open>pagetableheap.h\<close> and \<open>singleton.h\<close>, and the adapter of a heap to the
  standard containers in \<open>stl.h\<close>. The operations of the layer below are parameters, as they are
  template parameters in the code.
\<close>

section \<open>A list of free cells\<close>

record freelist_heap = zone_heap +
  fl_head :: u64

definition fl_clear :: "('a freelist_heap_scheme, unit) op" where
  "fl_clear = modify (\<lambda>h. h\<lparr>fl_head := 0\<rparr>)"

definition fl_get :: "('a freelist_heap_scheme, u64) op" where
  "fl_get = (\<lambda>h.
     let e = fl_head h
     in if e = 0 then Inr (0, h)
        else seq (heap_load e) (\<lambda>n. seq (modify (\<lambda>h. h\<lparr>fl_head := n\<rparr>)) (\<lambda>_. ok e)) h)"

definition fl_remove :: "('a freelist_heap_scheme, u64) op" where
  "fl_remove = (\<lambda>h.
     let e = fl_head h
     in if e = 0 then Inr (0, h)
        else seq (heap_load e) (\<lambda>n. seq (modify (\<lambda>h. h\<lparr>fl_head := n\<rparr>)) (\<lambda>_. ok e)) h)"

definition fl_insert :: "u64 \<Rightarrow> ('a freelist_heap_scheme, unit) op" where
  "fl_insert e = (\<lambda>h. seq (heap_store e (fl_head h)) (\<lambda>_. modify (\<lambda>h. h\<lparr>fl_head := e\<rparr>)) h)"

definition freelist_malloc ::
  "(u64 \<Rightarrow> ('a freelist_heap_scheme, u64) op) \<Rightarrow> u64 \<Rightarrow> ('a freelist_heap_scheme, u64) op" where
  "freelist_malloc super_malloc sz = seq fl_get (\<lambda>ptr. if ptr = 0 then super_malloc sz else ok ptr)"

definition freelist_free :: "u64 \<Rightarrow> ('a freelist_heap_scheme, unit) op" where
  "freelist_free ptr = (if ptr = 0 then ok () else fl_insert ptr)"

partial_function (option) freelist_clear ::
  "(u64 \<Rightarrow> ('a freelist_heap_scheme, unit) op) \<Rightarrow> 'a freelist_heap_scheme \<Rightarrow> 'a freelist_heap_scheme result option" where
  "freelist_clear super_free h =
     (case fl_get h of
        Inl e \<Rightarrow> Some (Inl e)
      | Inr r \<Rightarrow>
          if fst r = 0 then Some (Inr (snd r))
          else (case super_free (fst r) (snd r) of
                  Inl e \<Rightarrow> Some (Inl e)
                | Inr r' \<Rightarrow> freelist_clear super_free (snd r')))"

section \<open>A header in front of every block\<close>

definition add_malloc :: "(u64 \<Rightarrow> ('s, u64) op) \<Rightarrow> u64 \<Rightarrow> u64 \<Rightarrow> ('s, u64) op" where
  "add_malloc super_malloc sizeof_Add sz =
     seq (super_malloc (sz + align8 sizeof_Add)) (\<lambda>ptr. ok (align8 (ptr + sizeof_Add)))"

definition add_free :: "(u64 \<Rightarrow> ('s, unit) op) \<Rightarrow> u64 \<Rightarrow> u64 \<Rightarrow> ('s, unit) op" where
  "add_free super_free sizeof_Add ptr = super_free (ptr - sizeof_Add)"

definition add_getSize :: "(u64 \<Rightarrow> ('s, u64) op) \<Rightarrow> u64 \<Rightarrow> u64 \<Rightarrow> ('s, u64) op" where
  "add_getSize super_getSize sizeof_Add ptr = super_getSize (ptr - sizeof_Add)"

section \<open>Overwriting freed blocks\<close>

definition debug_malloc :: "(u64 \<Rightarrow> ('s, u64) op) \<Rightarrow> u64 \<Rightarrow> ('s, u64) op" where
  "debug_malloc super_malloc sz = super_malloc sz"

definition debug_free ::
  "(u64 \<Rightarrow> ('a source_heap_scheme, u64) op) \<Rightarrow> (u64 \<Rightarrow> ('a source_heap_scheme, unit) op) \<Rightarrow> u8 \<Rightarrow> u64 \<Rightarrow>
     ('a source_heap_scheme, unit) op" where
  "debug_free super_getSize super_free freeChar ptr =
     (if ptr = 0 then ok ()
      else seq (super_getSize ptr)
        (\<lambda>sz. seq (heap_memset ptr freeChar sz) (\<lambda>_. super_free ptr)))"

section \<open>Page table heap\<close>

definition pagetable_malloc :: "(u64 \<Rightarrow> ('s, u64) op) \<Rightarrow> u64 \<Rightarrow> ('s, u64) op" where
  "pagetable_malloc super_malloc sz = super_malloc sz"

definition pagetable_free :: "(u64 \<Rightarrow> ('s, unit) op) \<Rightarrow> u64 \<Rightarrow> ('s, unit) op" where
  "pagetable_free super_free ptr = super_free ptr"

definition pagetable_reset :: "('s, unit) op \<Rightarrow> ('s, unit) op" where
  "pagetable_reset super_reset = super_reset"

section \<open>Singleton heap\<close>

text \<open>The one heap of the class is the state; every call goes to it.\<close>

definition singleton_malloc :: "(u64 \<Rightarrow> ('s, u64) op) \<Rightarrow> u64 \<Rightarrow> ('s, u64) op" where
  "singleton_malloc heap_malloc sz = heap_malloc sz"

definition singleton_realloc :: "(u64 \<Rightarrow> u64 \<Rightarrow> ('s, u64) op) \<Rightarrow> u64 \<Rightarrow> u64 \<Rightarrow> ('s, u64) op" where
  "singleton_realloc heap_realloc ptr sz = heap_realloc ptr sz"

definition singleton_strdup :: "(u64 \<Rightarrow> ('s, u64) op) \<Rightarrow> u64 \<Rightarrow> ('s, u64) op" where
  "singleton_strdup heap_strdup s1 = heap_strdup s1"

definition singleton_calloc :: "(u64 \<Rightarrow> u64 \<Rightarrow> ('s, u64) op) \<Rightarrow> u64 \<Rightarrow> u64 \<Rightarrow> ('s, u64) op" where
  "singleton_calloc heap_calloc count sz = heap_calloc count sz"

definition singleton_free :: "(u64 \<Rightarrow> ('s, unit) op) \<Rightarrow> u64 \<Rightarrow> ('s, unit) op" where
  "singleton_free heap_free ptr = heap_free ptr"

definition singleton_reset :: "('s, unit) op \<Rightarrow> ('s, unit) op" where
  "singleton_reset heap_reset = heap_reset"

section \<open>Containers\<close>

definition max_size :: "u64 \<Rightarrow> u64" where
  "max_size sizeof_T = - 1 div sizeof_T"

definition allocate :: "(u64 \<Rightarrow> ('s, u64) op) \<Rightarrow> u64 \<Rightarrow> u64 \<Rightarrow> ('s, u64) op" where
  "allocate heap_malloc sizeof_T num = heap_malloc (num * sizeof_T)"

definition deallocate :: "(u64 \<Rightarrow> ('s, unit) op) \<Rightarrow> u64 \<Rightarrow> u64 \<Rightarrow> ('s, unit) op" where
  "deallocate heap_free p num = heap_free p"

section \<open>The free list is a stack\<close>

text \<open>The list of a heap: linked through its cells, all of them mapped and apart from each other.\<close>

definition flist :: "'a freelist_heap_scheme \<Rightarrow> u64 list \<Rightarrow> bool" where
  "flist h xs \<longleftrightarrow>
     chain (get64 (heap_ram h)) 0 (fl_head h) xs \<and>
     (\<forall>x \<in> set xs. mapped_range (heap_ram h) (unat x) 8) \<and>
     sorted_wrt apart64 xs"

lemma fl_insert_run:
  assumes "flist h xs" and "p \<noteq> 0" and "mapped_range (heap_ram h) (unat p) 8" and "\<forall>x \<in> set xs. apart64 p x"
  shows "\<exists>h'. fl_insert p h = Inr ((), h') \<and> flist h' (p # xs)"
proof -
  let ?h = "h\<lparr>heap_ram := put64 (heap_ram h) p (fl_head h), fl_head := p\<rparr>"
  have "fl_insert p h = Inr ((), ?h)"
    using assms(3) by (simp add: fl_insert_def heap_store_def seq_def)
  moreover have "chain (get64 (put64 (heap_ram h) p (fl_head h))) 0 p (p # xs)"
    using assms by (intro cells.chain_push) (auto simp: flist_def)
  ultimately show ?thesis
    using assms by (auto simp: flist_def)
qed

lemma fl_get_run:
  assumes "flist h xs"
  shows "\<exists>h'. fl_get h = Inr (case xs of [] \<Rightarrow> 0 | x # _ \<Rightarrow> x, h') \<and> flist h' (tl xs) \<and> heap_ram h' = heap_ram h"
proof (cases xs)
  case Nil
  then show ?thesis
    using assms by (simp add: flist_def fl_get_def)
next
  case (Cons x ys)
  then have x: "fl_head h = x" "x \<noteq> 0" "mapped_range (heap_ram h) (unat x) 8"
    using assms by (auto simp: flist_def)
  then have "fl_get h = Inr (x, h\<lparr>fl_head := get64 (heap_ram h) x\<rparr>)"
    by (simp add: fl_get_def heap_load_def Let_def seq_def)
  then show ?thesis
    using assms Cons by (auto simp: flist_def)
qed

text \<open>Freeing blocks one after the other, and asking for as many.\<close>

fun free_all :: "u64 list \<Rightarrow> ('a freelist_heap_scheme, unit) op" where
  "free_all [] = ok ()"
| "free_all (p # ps) = seq (freelist_free p) (\<lambda>_. free_all ps)"

fun malloc_all :: "(u64 \<Rightarrow> ('a freelist_heap_scheme, u64) op) \<Rightarrow> u64 list \<Rightarrow> ('a freelist_heap_scheme, u64 list) op" where
  "malloc_all super_malloc [] = ok []"
| "malloc_all super_malloc (sz # szs) =
     seq (freelist_malloc super_malloc sz) (\<lambda>p. seq (malloc_all super_malloc szs) (\<lambda>ps. ok (p # ps)))"

lemma fl_mapped_insert: "fl_insert p h = Inr ((), h') \<Longrightarrow> mapped (heap_ram h') = mapped (heap_ram h)"
  by (auto simp: fl_insert_def heap_store_def seq_def store64_def rbind_def modify_def split: if_splits)

lemma free_all_run:
  "flist h xs \<Longrightarrow> \<forall>p \<in> set ps. p \<noteq> 0 \<and> mapped_range (heap_ram h) (unat p) 8 \<Longrightarrow> sorted_wrt apart64 (rev ps @ xs) \<Longrightarrow>
     \<exists>h'. free_all ps h = Inr ((), h') \<and> flist h' (rev ps @ xs)"
proof (induction ps arbitrary: h xs)
  case (Cons p ps)
  have ap: "\<forall>x \<in> set xs. apart64 p x" and rest: "sorted_wrt apart64 (rev ps @ p # xs)"
    using Cons.prems(3) by (auto simp: sorted_wrt_append)
  obtain h1 where h1: "fl_insert p h = Inr ((), h1)" "flist h1 (p # xs)"
    using fl_insert_run [OF Cons.prems(1), of p] Cons.prems(2) ap by auto
  have "\<forall>q \<in> set ps. q \<noteq> 0 \<and> mapped_range (heap_ram h1) (unat q) 8"
    using Cons.prems(2) fl_mapped_insert [OF h1(1)] by (simp add: mapped_range_def)
  from Cons.IH [OF h1(2) this rest] obtain h' where "free_all ps h1 = Inr ((), h')" "flist h' (rev ps @ p # xs)"
    by blast
  then show ?case
    using h1(1) Cons.prems(2) by (simp add: freelist_free_def)
qed simp

lemma malloc_all_run:
  "flist h xs \<Longrightarrow> length szs \<le> length xs \<Longrightarrow>
     \<exists>h'. malloc_all super_malloc szs h = Inr (take (length szs) xs, h') \<and> flist h' (drop (length szs) xs)"
proof (induction szs arbitrary: h xs)
  case (Cons sz szs)
  then obtain x ys where xs: "xs = x # ys"
    by (cases xs) auto
  obtain h1 where h1: "fl_get h = Inr (x, h1)" "flist h1 ys"
    using fl_get_run [OF Cons.prems(1)] xs by auto
  have "x \<noteq> 0"
    using Cons.prems(1) xs by (simp add: flist_def)
  moreover obtain h' where "malloc_all super_malloc szs h1 = Inr (take (length szs) ys, h')"
    "flist h' (drop (length szs) ys)"
    using Cons.IH [OF h1(2)] Cons.prems(2) xs by auto
  ultimately show ?case
    using h1(1) xs by (auto simp: freelist_malloc_def)
qed simp

text \<open>
  \<open>FreelistHeap\<close> hands freed blocks out again in the reverse order of their release, whatever
  sizes are asked for: after freeing the blocks \<open>ps\<close> one after the other, as many requests return
  them from the last to the first, without a call to the heap below.
\<close>

theorem freelist_is_stack:
  assumes "flist h xs" and "\<forall>p \<in> set ps. p \<noteq> 0 \<and> mapped_range (heap_ram h) (unat p) 8"
    and "sorted_wrt apart64 (rev ps @ xs)" and "length szs = length ps"
  shows "\<exists>h1 h2. free_all ps h = Inr ((), h1) \<and>
    malloc_all super_malloc szs h1 = Inr (rev ps, h2) \<and> flist h2 xs"
proof -
  obtain h1 where h1: "free_all ps h = Inr ((), h1)" "flist h1 (rev ps @ xs)"
    using free_all_run [OF assms(1-3)] by blast
  obtain h2 where "malloc_all super_malloc szs h1 = Inr (take (length szs) (rev ps @ xs), h2)"
    "flist h2 (drop (length szs) (rev ps @ xs))"
    using malloc_all_run [OF h1(2), of szs] assms(4) by auto
  then show ?thesis
    using h1(1) assms(4) by auto
qed

definition demo_freelist :: freelist_heap where
  "demo_freelist =
     \<lparr>heap_ram = \<lparr>bytes = (\<lambda>_. 0), mapped = [(4096, 4096)]\<rparr>, src_purpose = 0, src_zone = 4096, src_next = 0,
      src_bytes_left = 0, sizeRemaining = 0, currentArena = 0, pastArenas = 0, fl_head = 0\<rparr>"

theorem freelist_is_stack_witness:
  "\<exists>h1 h2. free_all [4096, 4224] demo_freelist = Inr ((), h1) \<and>
    malloc_all (\<lambda>_. die Enomem) [16, 99] h1 = Inr ([4224, 4096], h2) \<and> flist h2 []"
  using freelist_is_stack [of demo_freelist "[]" "[4096, 4224]" "[16, 99]" "\<lambda>_. die Enomem"]
  by (simp add: flist_def demo_freelist_def mapped_range_def apart64_def)

text \<open>\<open>clear\<close> ends and gives every block to the heap below, here one that ignores them as a zone does.\<close>

lemma freelist_clear_ends:
  "flist h xs \<Longrightarrow> \<exists>h'. freelist_clear (\<lambda>p h. Inr ((), h)) h = Some (Inr h') \<and> flist h' []"
proof (induction xs arbitrary: h)
  case Nil
  obtain h' where "fl_get h = Inr (0, h')" "flist h' []"
    using fl_get_run [OF Nil] by auto
  then show ?case
    by (subst freelist_clear.simps) simp
next
  case (Cons x xs)
  obtain h1 where h1: "fl_get h = Inr (x, h1)" "flist h1 xs"
    using fl_get_run [OF Cons.prems] by auto
  have "x \<noteq> 0"
    using Cons.prems by (simp add: flist_def)
  then show ?case
    using Cons.IH [OF h1(2)] h1(1) by (subst freelist_clear.simps) simp
qed

section \<open>Headers and sizes\<close>

lemma align8_eq_iff: "unat p + 7 < 2 ^ 64 \<Longrightarrow> align8 p = p \<longleftrightarrow> 8 dvd unat p"
proof
  assume p: "unat p + 7 < 2 ^ 64" and "align8 p = p"
  then show "8 dvd unat p"
    using unat_align8 [OF p] up8_dvd [of "unat p"] by simp
next
  assume p: "unat p + 7 < 2 ^ 64" and "8 dvd unat p"
  then show "align8 p = p"
    using unat_align8 [OF p] by (simp add: word_eq_unat up8_id)
qed

text \<open>
  \<open>AddHeap\<close> gives a block back to the heap below under the address it got from there exactly when
  the size of the added class is a multiple of eight: \<open>malloc\<close> rounds the address behind the header
  up, \<open>free\<close> and \<open>getSize\<close> subtract the unrounded size.
\<close>

lemma add_heap_roundtrip:
  assumes "8 dvd unat p" and "unat p + unat n + 7 < 2 ^ 64" and "super_malloc (sz + align8 n) s = Inr (p, s')"
  shows "\<exists>q. add_malloc super_malloc n sz s = Inr (q, s') \<and>
    (8 dvd unat n \<longrightarrow> add_free super_free n q = super_free p \<and> add_getSize super_getSize n q = super_getSize p) \<and>
    (\<not> 8 dvd unat n \<longrightarrow> q - n \<noteq> p)"
proof -
  have u: "unat (p + n) = unat p + unat n"
    using assms(2) by (intro unat_add_small) simp
  have "align8 (p + n) - n = p \<longleftrightarrow> align8 (p + n) = p + n"
    by (auto simp: algebra_simps)
  also have "\<dots> \<longleftrightarrow> 8 dvd unat p + unat n"
    using align8_eq_iff [of "p + n"] assms(2) by (simp add: u)
  also have "\<dots> \<longleftrightarrow> 8 dvd unat n"
    using assms(1) by (simp add: dvd_add_right_iff)
  finally show ?thesis
    using assms(3) by (auto simp: add_malloc_def add_free_def add_getSize_def)
qed

text \<open>The size that \<open>allocate\<close> computes does not wrap for any number of elements up to \<open>max_size\<close>.\<close>

lemma allocate_no_wrap:
  assumes "num \<le> max_size sizeof_T" and "sizeof_T \<noteq> 0"
  shows "unat (num * sizeof_T) = unat num * unat sizeof_T"
proof -
  have "unat num \<le> (2 ^ 64 - 1) div unat sizeof_T"
    using assms(1) by (simp add: max_size_def word_le_nat_alt unat_div_distrib unsigned_minus_1_eq_mask mask_eq_exp_minus_1)
  then have "unat num * unat sizeof_T \<le> 2 ^ 64 - 1"
    using assms(2) by (metis div_times_less_eq_dividend le_trans mult_le_mono1)
  then have "unat num * unat sizeof_T < 2 ^ LENGTH(64)"
    by simp
  then show ?thesis
    by (simp add: unat_mult_lem [THEN iffD1])
qed

end
