(* ===== verification/StdMap.thy ===== *)
theory StdMap
  imports Prelude "HOL-Library.List_Lexorder" "HOL-Library.Char_ord"
begin

text \<open>
  Associative containers. The locale \<open>map_interface\<close> is what the code relies on when it uses one
  (\<open>std::map\<close> in the HTTP layer, \<open>MyHashMap\<close> in the heap layers): what a lookup returns after an
  update, on containers that satisfy an invariant. \<open>std::map\<close> is modelled as a list of pairs in the
  order of the keys, because the code iterates over maps and the order is visible in what it prints.
\<close>

locale map_interface =
  fixes get :: "'m \<Rightarrow> 'k \<Rightarrow> 'v option"
    and put :: "'m \<Rightarrow> 'k \<Rightarrow> 'v \<Rightarrow> 'm"
    and nil :: "'m"
    and inv :: "'m \<Rightarrow> bool"
  assumes inv_nil: "inv nil"
    and inv_put: "inv m \<Longrightarrow> inv (put m k v)"
    and get_nil: "get nil k = None"
    and get_put: "inv m \<Longrightarrow> get (put m k v) k' = (if k' = k then Some v else get m k')"
begin

definition put_all :: "('k \<times> 'v) list \<Rightarrow> 'm \<Rightarrow> 'm" where
  "put_all kvs m = foldl (\<lambda>m kv. put m (fst kv) (snd kv)) m kvs"

lemma put_all_simps [simp]: "put_all [] m = m" "put_all (kv # kvs) m = put_all kvs (put m (fst kv) (snd kv))"
  by (simp_all add: put_all_def)

text \<open>A series of updates: the last value for a key wins.\<close>

lemma get_put_all:
  "inv m \<Longrightarrow> get (put_all kvs m) k = (case map_of (rev kvs) k of Some v \<Rightarrow> Some v | None \<Rightarrow> get m k)"
  by (induction kvs arbitrary: m) (auto simp: inv_put get_put map_add_def split: option.splits)

lemma inv_put_all: "inv m \<Longrightarrow> inv (put_all kvs m)"
  by (induction kvs arbitrary: m) (auto simp: inv_put)

end

text \<open>
  The locale \<open>erasable_map\<close> extends the interface by deletion and shows that any series of updates and
  deletions acts on the lookups as on a partial function.
\<close>

datatype ('k, 'v) map_call = Put 'k 'v | Erase 'k

fun map_effect :: "('k, 'v) map_call list \<Rightarrow> ('k \<rightharpoonup> 'v) \<Rightarrow> ('k \<rightharpoonup> 'v)" where
  "map_effect [] f = f"
| "map_effect (Put k v # cs) f = map_effect cs (f(k \<mapsto> v))"
| "map_effect (Erase k # cs) f = map_effect cs (f(k := None))"

locale erasable_map = map_interface +
  fixes erase :: "'a \<Rightarrow> 'b \<Rightarrow> 'a"
  assumes inv_erase: "inv m \<Longrightarrow> inv (erase m k)"
    and get_erase: "inv m \<Longrightarrow> get (erase m k) k' = (if k' = k then None else get m k')"
begin

fun run_calls :: "('b, 'c) map_call list \<Rightarrow> 'a \<Rightarrow> 'a" where
  "run_calls [] m = m"
| "run_calls (Put k v # cs) m = run_calls cs (put m k v)"
| "run_calls (Erase k # cs) m = run_calls cs (erase m k)"

lemma run_calls_effect: "inv m \<Longrightarrow> inv (run_calls cs m) \<and> get (run_calls cs m) = map_effect cs (get m)"
proof (induction cs arbitrary: m)
  case (Cons c cs)
  show ?case
  proof (cases c)
    case (Put k v)
    have "get (put m k v) = (get m)(k \<mapsto> v)"
      using Cons.prems by (auto simp: get_put)
    then show ?thesis
      unfolding Put run_calls.simps map_effect.simps
      using Cons.IH [OF inv_put [OF Cons.prems, of k v]] by metis
  next
    case (Erase k)
    have "get (erase m k) = (get m)(k := None)"
      using Cons.prems by (auto simp: get_erase)
    then show ?thesis
      unfolding Erase run_calls.simps map_effect.simps
      using Cons.IH [OF inv_erase [OF Cons.prems, of k]] by metis
  qed
qed simp

end

section \<open>std::map\<close>

fun map_set :: "('k :: linorder \<times> 'v) list \<Rightarrow> 'k \<Rightarrow> 'v \<Rightarrow> ('k \<times> 'v) list" where
  "map_set [] k v = [(k, v)]"
| "map_set ((k', v') # m) k v =
     (if k < k' then (k, v) # (k', v') # m
      else if k = k' then (k, v) # m
      else (k', v') # map_set m k v)"

definition map_ordered :: "('k :: linorder \<times> 'v) list \<Rightarrow> bool" where
  "map_ordered m \<longleftrightarrow> sorted_wrt (<) (map fst m)"

lemma map_set_keys: "fst ` set (map_set m k v) = insert k (fst ` set m)"
  by (induction m k v rule: map_set.induct) auto

lemma map_ordered_set: "map_ordered m \<Longrightarrow> map_ordered (map_set m k v)"
proof (induction m k v rule: map_set.induct)
  case (2 k' v' m k v)
  have "x \<in> set (map fst (map_set m k v)) \<Longrightarrow> x = k \<or> x \<in> set (map fst m)" for x
    using map_set_keys [of m k v] by auto
  with 2 show ?case
    by (fastforce simp: map_ordered_def dest: order_less_trans)
qed (simp add: map_ordered_def)

lemma map_of_set: "map_of (map_set m k v) k' = (if k' = k then Some v else map_of m k')"
  by (induction m k v rule: map_set.induct) auto

interpretation std_map: map_interface map_of map_set "[]" map_ordered
  by unfold_locales (simp_all add: map_ordered_set map_of_set, simp add: map_ordered_def)

lemmas std_map_simps = map_of_set

text \<open>\<open>std::map::erase\<close> with a key.\<close>

fun map_erase :: "('k \<times> 'v) list \<Rightarrow> 'k \<Rightarrow> ('k \<times> 'v) list" where
  "map_erase [] k = []"
| "map_erase ((k', v') # m) k = (if k' = k then m else (k', v') # map_erase m k)"

lemma map_erase_subset: "set (map_erase m k) \<subseteq> set m"
  by (induction m k rule: map_erase.induct) auto

lemma map_ordered_Cons: "map_ordered (kv # m) \<longleftrightarrow> (\<forall>kv' \<in> set m. fst kv < fst kv') \<and> map_ordered m"
  by (simp add: map_ordered_def)

lemma map_ordered_erase: "map_ordered m \<Longrightarrow> map_ordered (map_erase m k)"
  using map_erase_subset [of _ k] by (induction m k rule: map_erase.induct) (auto simp: map_ordered_Cons)

lemma map_of_erase: "map_ordered m \<Longrightarrow> map_of (map_erase m k) k' = (if k' = k then None else map_of m k')"
proof (induction m k rule: map_erase.induct)
  case (2 k1 v1 m k)
  have "map_of m k1 = None"
    using 2(2) by (force simp: map_of_eq_None_iff map_ordered_Cons)
  with 2 show ?case
    by (auto simp: map_ordered_Cons)
qed simp

interpretation std_map_erase: erasable_map map_of map_set "[]" map_ordered map_erase
  by unfold_locales (simp_all add: map_ordered_erase map_of_erase)

end
