(* ===== verification/HashMap.thy ===== *)
theory HashMap
  imports StdMap
begin

text \<open>
  \<open>heaplayers/myhashmap.h\<close> and \<open>heaplayers/hash.h\<close>: a hash table with chained bins. A bin is the list
  of its nodes from the first to the last; the memory of the nodes comes from the allocator of the
  table and is not part of the model. A missing key is read as zero.

  The table is an instance of \<open>erasable_map\<close>.
\<close>

section \<open>The table\<close>

definition hash :: "u64 \<Rightarrow> u64" where
  "hash v = v"

definition INITIAL_NUM_BINS :: nat where "INITIAL_NUM_BINS = 511"

record 'v hash_map =
  num_bins :: nat
  bins :: "(u64 \<times> 'v) list list"

definition MyHashMap :: "nat \<Rightarrow> 'v hash_map" where
  "MyHashMap sz = \<lparr>num_bins = sz, bins = replicate sz []\<rparr>"

definition bin_index :: "'v hash_map \<Rightarrow> u64 \<Rightarrow> nat" where
  "bin_index m k = unat (hash k) mod num_bins m"

text \<open>The walk of \<open>set\<close> through a bin: the changed bin, or nothing when the key is not there.\<close>

fun set_node :: "(u64 \<times> 'v) list \<Rightarrow> u64 \<Rightarrow> 'v \<Rightarrow> (u64 \<times> 'v) list option" where
  "set_node [] k v = None"
| "set_node ((k', v') # l) k v =
     (if k' = k then Some ((k', v) # l) else map_option (Cons (k', v')) (set_node l k v))"

definition hm_insert :: "'v hash_map \<Rightarrow> u64 \<Rightarrow> 'v \<Rightarrow> 'v hash_map" where
  "hm_insert m k v =
     (let b = bin_index m k in m\<lparr>bins := (bins m)[b := (k, v) # bins m ! b]\<rparr>)"

definition hm_set :: "'v hash_map \<Rightarrow> u64 \<Rightarrow> 'v \<Rightarrow> 'v hash_map" where
  "hm_set m k v =
     (let b = bin_index m k
      in case set_node (bins m ! b) k v of
           Some l \<Rightarrow> m\<lparr>bins := (bins m)[b := l]\<rparr>
         | None \<Rightarrow> hm_insert m k v)"

fun get_node :: "(u64 \<times> 'v :: zero) list \<Rightarrow> u64 \<Rightarrow> 'v" where
  "get_node [] k = 0"
| "get_node ((k', v') # l) k = (if k' = k then v' else get_node l k)"

definition hm_get :: "'v :: zero hash_map \<Rightarrow> u64 \<Rightarrow> 'v" where
  "hm_get m k = get_node (bins m ! bin_index m k) k"

fun erase_node :: "(u64 \<times> 'v) list \<Rightarrow> u64 \<Rightarrow> (u64 \<times> 'v) list" where
  "erase_node [] k = []"
| "erase_node ((k', v') # l) k = (if k' = k then l else (k', v') # erase_node l k)"

definition hm_erase :: "'v hash_map \<Rightarrow> u64 \<Rightarrow> 'v hash_map" where
  "hm_erase m k = (let b = bin_index m k in m\<lparr>bins := (bins m)[b := erase_node (bins m ! b) k]\<rparr>)"

section \<open>The table is a map\<close>

definition hm_ok :: "'v hash_map \<Rightarrow> bool" where
  "hm_ok m \<longleftrightarrow> 0 < num_bins m \<and> length (bins m) = num_bins m \<and> (\<forall>l \<in> set (bins m). distinct (map fst l))"

definition hm_find :: "'v hash_map \<Rightarrow> u64 \<Rightarrow> 'v option" where
  "hm_find m k = (if num_bins m = 0 then None else map_of (bins m ! bin_index m k) k)"

lemma set_node_None: "set_node l k v = None \<Longrightarrow> k \<notin> fst ` set l"
  by (induction l k v rule: set_node.induct) (auto split: if_splits)

lemma set_node_Some:
  "set_node l k v = Some l' \<Longrightarrow> map_of l' = (map_of l)(k \<mapsto> v) \<and> map fst l' = map fst l"
proof (induction l k v arbitrary: l' rule: set_node.induct)
  case (2 k' v' l k v)
  then show ?case
    by (cases "k' = k") (auto simp: fun_eq_iff)
qed simp

lemma erase_node_map_of:
  "distinct (map fst l) \<Longrightarrow> map_of (erase_node l k) = (map_of l)(k := None) \<and> distinct (map fst (erase_node l k)) \<and>
     fst ` set (erase_node l k) \<subseteq> fst ` set l"
proof (induction l)
  case (Cons a l)
  have "map_of l (fst a) = None"
    using Cons.prems by (simp add: map_of_eq_None_iff)
  then show ?case
    using Cons by (cases a) (auto simp: fun_eq_iff)
qed (auto simp: fun_eq_iff)

lemma get_node_map_of: "get_node l k = (case map_of l k of Some v \<Rightarrow> v | None \<Rightarrow> 0)"
  by (induction l) auto

lemma bin_in_range: "hm_ok m \<Longrightarrow> bin_index m k < length (bins m)"
  by (simp add: hm_ok_def bin_index_def)

lemma hm_bin: "hm_ok m \<Longrightarrow> distinct (map fst (bins m ! bin_index m k))"
  using bin_in_range [of m k] by (simp add: hm_ok_def)

text \<open>Replacing the bin of \<open>k\<close> by one that differs at \<open>k\<close> only.\<close>

lemma hm_upd:
  assumes "hm_ok m" and "map_of l = (map_of (bins m ! bin_index m k))(k := x)" and "distinct (map fst l)"
  shows "hm_ok (m\<lparr>bins := (bins m)[bin_index m k := l]\<rparr>)"
    and "hm_find (m\<lparr>bins := (bins m)[bin_index m k := l]\<rparr>) k' = (if k' = k then x else hm_find m k')"
proof -
  let ?m = "m\<lparr>bins := (bins m)[bin_index m k := l]\<rparr>"
  show "hm_ok ?m"
    using assms by (auto simp: hm_ok_def dest!: subsetD [OF set_update_subset_insert])
  have b: "bin_index ?m k' = bin_index m k'" "num_bins ?m = num_bins m" "num_bins m \<noteq> 0"
    using assms(1) by (simp_all add: bin_index_def hm_ok_def)
  show "hm_find ?m k' = (if k' = k then x else hm_find m k')"
    using b assms(2) bin_in_range [OF assms(1), of k]
    by (cases "bin_index m k' = bin_index m k") (auto simp: hm_find_def)
qed

lemma hm_set_find:
  assumes "hm_ok m"
  shows "hm_ok (hm_set m k v)" and "hm_find (hm_set m k v) k' = (if k' = k then Some v else hm_find m k')"
proof -
  let ?l = "bins m ! bin_index m k"
  obtain l where "hm_set m k v = m\<lparr>bins := (bins m)[bin_index m k := l]\<rparr>"
    and "map_of l = (map_of ?l)(k := Some v)" and "distinct (map fst l)"
  proof (cases "set_node ?l k v")
    case None
    then show ?thesis
      using that [of "(k, v) # ?l"] set_node_None [OF None] hm_bin [OF assms, of k]
      by (simp add: hm_set_def hm_insert_def Let_def)
  next
    case (Some l)
    then show ?thesis
      using that [of l] set_node_Some [OF Some] hm_bin [OF assms, of k] by (simp add: hm_set_def Let_def)
  qed
  then show "hm_ok (hm_set m k v)" and "hm_find (hm_set m k v) k' = (if k' = k then Some v else hm_find m k')"
    using hm_upd [OF assms] by simp_all
qed

lemma hm_erase_find:
  assumes "hm_ok m"
  shows "hm_ok (hm_erase m k)" and "hm_find (hm_erase m k) k' = (if k' = k then None else hm_find m k')"
  using hm_upd [OF assms] erase_node_map_of [OF hm_bin [OF assms, of k], of k]
  by (simp_all add: hm_erase_def Let_def)

lemma hm_empty: "hm_ok (MyHashMap (Suc n))" "hm_find (MyHashMap (Suc n)) k = None"
  by (simp_all add: hm_ok_def MyHashMap_def hm_find_def bin_index_def del: replicate.simps)

interpretation hash_table: erasable_map hm_find hm_set "MyHashMap (Suc n)" hm_ok hm_erase for n
  by unfold_locales (simp_all add: hm_set_find hm_erase_find hm_empty)

text \<open>The calls of a program, as the code runs them.\<close>

fun hm_run :: "(u64, 'v) map_call list \<Rightarrow> 'v hash_map \<Rightarrow> 'v hash_map" where
  "hm_run [] m = m"
| "hm_run (Put k v # cs) m = hm_run cs (hm_set m k v)"
| "hm_run (Erase k # cs) m = hm_run cs (hm_erase m k)"

lemma hm_run_calls: "hm_run cs m = hash_table.run_calls cs m"
  by (induction cs m rule: hm_run.induct) (simp_all add: hash_table.run_calls.simps)

text \<open>
  C34. The hash table is a map: after any series of \<open>set\<close> and \<open>erase\<close> calls on a table with at least
  one bin, \<open>get\<close> returns the value of the last \<open>set\<close> of the key that no \<open>erase\<close> followed, and zero
  when there is none, however the keys fall into the bins.
\<close>

theorem hash_map_correct:
  fixes cs :: "(u64, 'v :: zero) map_call list"
  assumes "0 < sz"
  shows "hm_get (hm_run cs (MyHashMap sz)) k =
    (case map_effect cs Map.empty k of Some v \<Rightarrow> v | None \<Rightarrow> 0)"
proof -
  obtain n where n: "sz = Suc n"
    using assms by (cases sz) auto
  let ?m = "hm_run cs (MyHashMap sz)"
  have "hm_find (MyHashMap (Suc n) :: 'v hash_map) = Map.empty"
    using hm_empty(2) by (auto simp: fun_eq_iff)
  moreover have "hm_ok ?m \<and> hm_find ?m = map_effect cs (hm_find (MyHashMap (Suc n)))"
    unfolding hm_run_calls n by (rule hash_table.run_calls_effect [OF hm_empty(1)])
  ultimately have "hm_ok ?m" "hm_find ?m = map_effect cs Map.empty"
    by simp_all
  then have "map_of (bins ?m ! bin_index ?m k) k = map_effect cs Map.empty k"
    by (metis hm_find_def hm_ok_def less_numeral_extra(3))
  then show ?thesis
    by (simp add: hm_get_def get_node_map_of)
qed

theorem hash_map_correct_witness:
  "hm_get (hm_run [Put 1 (10 :: nat), Put 512 20, Put 1 30, Erase 512] (MyHashMap 511)) 1 = 30 \<and>
   hm_get (hm_run [Put 1 (10 :: nat), Put 512 20, Put 1 30, Erase 512] (MyHashMap 511)) 512 = 0"
  using hash_map_correct [of 511 "[Put 1 (10 :: nat), Put 512 20, Put 1 30, Erase 512]" 1]
    hash_map_correct [of 511 "[Put 1 (10 :: nat), Put 512 20, Put 1 30, Erase 512]" 512]
  by simp

end
