(* ===== verification/SpinLock.thy ===== *)
theory SpinLock
  imports Prelude
begin

text \<open>
  \<open>heaplayers/spinlock.h\<close>: the spin lock that the heaps are parameterised with. Each thread runs
  \<open>lock\<close> and \<open>unlock\<close>; every access to the lock word is one step, and the steps of the threads
  interleave in any order. The exchange is the \<open>xchgq\<close> of the x86-64 build, which is atomic.
\<close>

definition UNLOCKED :: u64 where "UNLOCKED = 0"
definition LOCKED :: u64 where "LOCKED = 1"

text \<open>The value of \<open>anyThreadCreated\<close> in \<open>libgallocy.cpp\<close>.\<close>

definition anyThreadCreated :: int where "anyThreadCreated = 1"

text \<open>
  Where a thread is: outside of the lock, at the exchange of \<open>contendedLock\<close>, in its inner loop, or
  between \<open>lock\<close> and \<open>unlock\<close>.
\<close>

datatype place = Outside | Contended | Spinning | Inside

record spin_lock =
  mutex :: u64
  place_of :: "nat \<Rightarrow> place"

definition SpinLockType :: spin_lock where
  "SpinLockType = \<lparr>mutex = UNLOCKED, place_of = (\<lambda>_. Outside)\<rparr>"

text \<open>The old content, and the new one.\<close>

definition MyInterlockedExchange :: "u64 \<Rightarrow> u64 \<Rightarrow> u64 \<times> u64" where
  "MyInterlockedExchange oldval newval = (oldval, newval)"

definition spin_lock_call :: "int \<Rightarrow> u64 \<Rightarrow> place \<times> u64" where
  "spin_lock_call created m =
     (if created \<noteq> 0
      then (let (r, m') = MyInterlockedExchange m LOCKED in (if r \<noteq> UNLOCKED then Contended else Inside, m'))
      else (Inside, LOCKED))"

definition contendedLock :: "u64 \<Rightarrow> place \<times> u64" where
  "contendedLock m =
     (let (r, m') = MyInterlockedExchange m LOCKED in (if r = UNLOCKED then Inside else Spinning, m'))"

definition spin_wait :: "u64 \<Rightarrow> place \<times> u64" where
  "spin_wait m = (if m = LOCKED then Spinning else Contended, m)"

definition spin_unlock_call :: "u64 \<Rightarrow> place \<times> u64" where
  "spin_unlock_call m = (Outside, UNLOCKED)"

definition thread_step :: "int \<Rightarrow> place \<Rightarrow> u64 \<Rightarrow> place \<times> u64" where
  "thread_step created pl m =
     (case pl of
        Outside \<Rightarrow> spin_lock_call created m
      | Contended \<Rightarrow> contendedLock m
      | Spinning \<Rightarrow> spin_wait m
      | Inside \<Rightarrow> spin_unlock_call m)"

inductive lock_reach :: "int \<Rightarrow> spin_lock \<Rightarrow> bool" for created :: int where
  start: "lock_reach created SpinLockType"
| move: "lock_reach created l \<Longrightarrow> thread_step created (place_of l t) (mutex l) = (pl, m) \<Longrightarrow>
     lock_reach created (l\<lparr>mutex := m, place_of := (place_of l)(t := pl)\<rparr>)"

text \<open>The word is locked exactly when a thread is inside, and then only one is.\<close>

definition lock_ok :: "spin_lock \<Rightarrow> bool" where
  "lock_ok l \<longleftrightarrow>
     (mutex l = UNLOCKED \<longrightarrow> (\<forall>t. place_of l t \<noteq> Inside)) \<and>
     (mutex l \<noteq> UNLOCKED \<longrightarrow> mutex l = LOCKED \<and> (\<exists>!t. place_of l t = Inside))"

lemma lock_values: "LOCKED \<noteq> UNLOCKED"
  by (simp add: LOCKED_def UNLOCKED_def)

lemmas lock_step_defs = thread_step_def spin_lock_call_def contendedLock_def spin_wait_def spin_unlock_call_def
  MyInterlockedExchange_def

text \<open>The three kinds of steps: a thread gets in, leaves, or moves without touching the state of the lock.\<close>

lemma thread_step_cases:
  assumes "created \<noteq> 0" and "thread_step created pl m = (pl', m')" and "m = UNLOCKED \<or> m = LOCKED"
  shows "(pl \<noteq> Inside \<and> m = UNLOCKED \<and> m' = LOCKED \<and> pl' = Inside) \<or>
    (pl = Inside \<and> m' = UNLOCKED \<and> pl' = Outside) \<or>
    (pl \<noteq> Inside \<and> pl' \<noteq> Inside \<and> m' = m)"
  using assms lock_values by (cases pl) (auto simp: lock_step_defs split: if_splits)

lemma lock_ok_step:
  assumes "created \<noteq> 0" and "lock_ok l" and "thread_step created (place_of l t) (mutex l) = (pl, m)"
  shows "lock_ok (l\<lparr>mutex := m, place_of := (place_of l)(t := pl)\<rparr>)"
proof -
  have m: "mutex l = UNLOCKED \<or> mutex l = LOCKED"
    using assms(2) by (auto simp: lock_ok_def)
  consider (enter) "place_of l t \<noteq> Inside" "mutex l = UNLOCKED" "m = LOCKED" "pl = Inside"
    | (leave) "place_of l t = Inside" "m = UNLOCKED" "pl = Outside"
    | (other) "place_of l t \<noteq> Inside" "pl \<noteq> Inside" "m = mutex l"
    using thread_step_cases [OF assms(1,3) m] by blast
  then show ?thesis
  proof cases
    case enter
    then show ?thesis
      using assms(2) lock_values by (auto simp: lock_ok_def)
  next
    case leave
    then have "mutex l \<noteq> UNLOCKED"
      using assms(2) by (auto simp: lock_ok_def)
    then have "\<exists>!u. place_of l u = Inside"
      using assms(2) by (simp add: lock_ok_def)
    then show ?thesis
      using leave by (auto simp: lock_ok_def)
  next
    case other
    then have "((place_of l)(t := pl)) u = Inside \<longleftrightarrow> place_of l u = Inside" for u
      by simp
    then show ?thesis
      using assms(2) other(3) by (simp add: lock_ok_def)
  qed
qed

lemma lock_reach_ok:
  assumes "lock_reach created l" and "created \<noteq> 0"
  shows "lock_ok l"
  using assms
proof (induction rule: lock_reach.induct)
  case start
  then show ?case
    by (simp add: lock_ok_def SpinLockType_def)
next
  case (move l t pl m)
  then show ?case
    using lock_ok_step by blast
qed

text \<open>Without the flag the lock does not exclude anybody.\<close>

lemma no_flag_no_exclusion:
  "\<exists>l. lock_reach 0 l \<and> place_of l 0 = Inside \<and> place_of l 1 = Inside"
proof -
  let ?l = "SpinLockType\<lparr>mutex := LOCKED, place_of := (place_of SpinLockType)(0 := Inside)\<rparr>"
  have "lock_reach 0 ?l"
    by (rule lock_reach.move [OF lock_reach.start]) (simp add: SpinLockType_def lock_step_defs)
  then have "lock_reach 0 (?l\<lparr>mutex := LOCKED, place_of := (place_of ?l)(1 := Inside)\<rparr>)"
    by (rule lock_reach.move) (simp add: SpinLockType_def lock_step_defs)
  then show ?thesis
    by fastforce
qed

text \<open>
  C35. Mutual exclusion and progress of the spin lock: with \<open>anyThreadCreated\<close> as it is set, in every
  interleaving of any number of threads at most one is between \<open>lock\<close> and \<open>unlock\<close>; and while
  nobody is, a thread at the exchange, at the call of \<open>lock\<close> or in the waiting loop gets in with its
  next one or two steps.
\<close>

theorem spin_lock_excludes:
  assumes "lock_reach anyThreadCreated l"
  shows "(place_of l t = Inside \<longrightarrow> place_of l u = Inside \<longrightarrow> t = u) \<and>
    ((\<forall>t. place_of l t \<noteq> Inside) \<longrightarrow>
       (place_of l t \<in> {Outside, Contended} \<longrightarrow>
          fst (thread_step anyThreadCreated (place_of l t) (mutex l)) = Inside) \<and>
       (place_of l t = Spinning \<longrightarrow> thread_step anyThreadCreated (place_of l t) (mutex l) = (Contended, mutex l)))"
proof -
  have ok: "lock_ok l"
    using lock_reach_ok [OF assms] by (simp add: anyThreadCreated_def)
  have "mutex l = UNLOCKED" if "\<forall>t. place_of l t \<noteq> Inside"
    using ok that by (auto simp: lock_ok_def)
  moreover have "t = u" if "place_of l t = Inside" "place_of l u = Inside"
    using ok that by (cases "mutex l = UNLOCKED") (auto simp: lock_ok_def)
  ultimately show ?thesis
    using lock_values by (auto simp: lock_step_defs anyThreadCreated_def)
qed

theorem spin_lock_excludes_witness:
  "lock_reach anyThreadCreated (SpinLockType\<lparr>mutex := LOCKED, place_of := (place_of SpinLockType)(7 := Inside)\<rparr>) \<and>
   place_of (SpinLockType\<lparr>mutex := LOCKED, place_of := (place_of SpinLockType)(7 := Inside)\<rparr>) 7 = Inside \<and>
   fst (thread_step anyThreadCreated (place_of SpinLockType 3) (mutex SpinLockType)) = Inside"
proof -
  have "lock_reach anyThreadCreated (SpinLockType\<lparr>mutex := LOCKED, place_of := (place_of SpinLockType)(7 := Inside)\<rparr>)"
    by (rule lock_reach.move [OF lock_reach.start])
      (simp add: SpinLockType_def lock_step_defs anyThreadCreated_def)
  moreover have "fst (thread_step anyThreadCreated (place_of SpinLockType 3) (mutex SpinLockType)) = Inside"
    using spin_lock_excludes [OF lock_reach.start, of 3] by (simp add: SpinLockType_def)
  ultimately show ?thesis
    by simp
qed

end
