(* ===== verification/Threads.thy ===== *)
theory Threads
  imports SourceHeap
begin

text \<open>
  \<open>threads.cpp\<close>: stacks for threads, with a guard page at each end. The kernel is the parameter \<open>os\<close> of
  theory \<open>SourceHeap\<close>; \<open>mprotect\<close> with \<open>PROT_NONE\<close> takes whole pages out of the accessible regions. It
  fails on an address that is not page-aligned, and wherever the kernel refuses it, which the parameter \<open>refuses\<close> says. \<open>pthread_create\<close> and \<open>pthread_join\<close> only pass the call
  on to the next library.
\<close>

definition page_align_ptr :: "u64 \<Rightarrow> u64" where
  "page_align_ptr p = p AND NOT (PAGE_SZ - 1)"

section \<open>mprotect\<close>

fun cut :: "nat \<Rightarrow> nat \<Rightarrow> nat \<times> nat \<Rightarrow> (nat \<times> nat) list" where
  "cut a n (lo, len) =
     (if lo + len \<le> a \<or> a + n \<le> lo then [(lo, len)]
      else (if lo < a then [(lo, a - lo)] else []) @
           (if a + n < lo + len then [(a + n, lo + len - (a + n))] else []))"

definition protect :: "ram \<Rightarrow> nat \<Rightarrow> nat \<Rightarrow> ram" where
  "protect r a n = r\<lparr>mapped := concat (map (cut a n) (mapped r))\<rparr>"

definition mprotect_none :: "(u64 \<Rightarrow> bool) \<Rightarrow> ram \<Rightarrow> u64 \<Rightarrow> u64 \<Rightarrow> int \<times> ram" where
  "mprotect_none refuses r a len =
     (if 4096 dvd unat a \<and> \<not> refuses a then (0, protect r (unat a) ((unat len + 4095) div 4096 * 4096)) else (- 1, r))"

section \<open>Stacks\<close>

text \<open>
  A failing \<open>mmap\<close> is reported and the code goes on with the address \<open>MAP_FAILED\<close>, which is -1; a
  failing \<open>mprotect\<close> is only reported.
\<close>

definition allocate_thread_stack :: "os \<Rightarrow> (u64 \<Rightarrow> bool) \<Rightarrow> u64 \<Rightarrow> u64 \<Rightarrow> ram \<Rightarrow> (u64 \<times> ram) result" where
  "allocate_thread_stack os refuses location stack_size r =
     (let len = (stack_size + 2) * PAGE_SZ;
          (raw, r) = (case os_mmap os r location len of
                        None \<Rightarrow> (- 1, r)
                      | Some a \<Rightarrow> (a, map_zeroed r (unat a) (unat len)))
      in rbind (memset r raw 71 PAGE_SZ)
           (\<lambda>r. let (rc, r) = mprotect_none refuses r raw (PAGE_SZ - 1); top = raw + PAGE_SZ * (stack_size + 1)
                in rbind (memset r top 71 PAGE_SZ)
                     (\<lambda>r. let (rc, r) = mprotect_none refuses r top PAGE_SZ in Inr (raw + PAGE_SZ, r))))"

text \<open>The interposed functions, over the library function that \<open>dlsym\<close> finds.\<close>

definition intercepted_pthread_create :: "('a \<Rightarrow> int) \<Rightarrow> 'a \<Rightarrow> int" where
  "intercepted_pthread_create library_pthread_create args = library_pthread_create args"

definition intercepted_pthread_join :: "('a \<Rightarrow> int) \<Rightarrow> 'a \<Rightarrow> int" where
  "intercepted_pthread_join library_pthread_join args = library_pthread_join args"

section \<open>Facts on protected pages\<close>

lemma mapped_range_protect:
  "mapped_range (protect r a n) b k \<longleftrightarrow>
    (\<exists>(lo, len) \<in> set (mapped r). \<exists>(lo', len') \<in> set (cut a n (lo, len)). lo' \<le> b \<and> b + k \<le> lo' + len')"
  by (auto simp: mapped_range_def protect_def list_ex_iff simp del: cut.simps)

lemma protect_keeps:
  assumes "mapped_range r b k" and "b + k \<le> a \<or> a + n \<le> b" and "0 < k"
  shows "mapped_range (protect r a n) b k"
proof -
  obtain lo len where l: "(lo, len) \<in> set (mapped r)" "lo \<le> b" "b + k \<le> lo + len"
    using assms(1) by (auto simp: mapped_range_def list_ex_iff)
  then have "\<exists>(lo', len') \<in> set (cut a n (lo, len)). lo' \<le> b \<and> b + k \<le> lo' + len'"
    using assms(2,3) by auto
  then show ?thesis
    using l(1) unfolding mapped_range_protect by blast
qed

lemma protect_only_less:
  assumes "mapped_range (protect r a n) b k" and "0 < k"
  shows "mapped_range r b k \<and> (b + k \<le> a \<or> a + n \<le> b \<or> n = 0)"
proof -
  obtain lo len lo' len' where l: "(lo, len) \<in> set (mapped r)" "(lo', len') \<in> set (cut a n (lo, len))"
    "lo' \<le> b" "b + k \<le> lo' + len'"
    using assms(1) unfolding mapped_range_protect by blast
  then have "lo \<le> b \<and> b + k \<le> lo + len \<and> (b + k \<le> a \<or> a + n \<le> b \<or> n = 0)"
    using assms(2) by (auto split: if_splits)
  then show ?thesis
    using l(1) by (auto simp: mapped_range_def list_ex_iff)
qed

lemma protect_bytes [simp]: "bytes (protect r a n) = bytes r"
  by (simp add: protect_def)

lemma protect_unless_keeps:
  "mapped_range r b k \<Longrightarrow> b + k \<le> a \<or> a + n \<le> b \<or> refused \<Longrightarrow> 0 < k \<Longrightarrow>
    mapped_range (if refused then r else protect r a n) b k"
  using protect_keeps by auto

lemma memset_run:
  "mapped_range r (unat a) (unat n) \<Longrightarrow>
    memset r a c n = Inr (r\<lparr>bytes := write_bytes (bytes r) (unat a) (replicate (unat n) c)\<rparr>)"
  by (simp add: memset_def ram_write_def)

lemma mmap_specD:
  assumes "mmap_spec os" and "os_mmap os r hint len = Some a"
  shows "4096 dvd unat a" and "unat a + unat len < 2 ^ 64"
    and "\<And>lo k. (lo, k) \<in> set (mapped r) \<Longrightarrow> lo + k \<le> unat a \<or> unat a + unat len \<le> lo"
  using assms unfolding mmap_spec_def by blast+

lemma stack_sizes:
  assumes "(unat n + 2) * 4096 < 2 ^ 64" and "unat raw + (unat n + 2) * 4096 < 2 ^ 64"
  shows "unat ((n + 2) * PAGE_SZ) = (unat n + 2) * 4096" and "unat (raw + PAGE_SZ) = unat raw + 4096"
    and "unat (raw + PAGE_SZ * (n + 1)) = unat raw + 4096 * (unat n + 1)"
proof -
  have "unat n + 2 < 2 ^ 64"
    using assms(1) by simp
  then have n2: "unat (n + 2) = unat n + 2" "unat (n + 1) = unat n + 1"
    by (simp_all add: unat_add_small)
  have page: "unat PAGE_SZ = 4096"
    by (simp add: PAGE_SZ_def)
  have mult: "unat (x * y) = unat x * unat y mod 2 ^ 64" for x y :: u64
    by (simp add: unat_word_ariths(2))
  show "unat ((n + 2) * PAGE_SZ) = (unat n + 2) * 4096"
    unfolding mult n2 page using assms(1) by (rule mod_less)
  show "unat (raw + PAGE_SZ) = unat raw + 4096"
    using assms(2) by (subst unat_add_small) (simp_all add: PAGE_SZ_def)
  have "unat (PAGE_SZ * (n + 1)) = 4096 * (unat n + 1)"
    unfolding mult n2 page using assms(1) by (intro mod_less) simp
  then show "unat (raw + PAGE_SZ * (n + 1)) = unat raw + 4096 * (unat n + 1)"
    using assms(2) by (subst unat_add_small) simp_all
qed

text \<open>
  C32. A new thread stack has exactly the requested pages between two guard pages: the returned address
  is that of the lowest stack page, the stack is accessible and zero, no byte of a guard page can
  be accessed, and memory that was accessible before still is, with the same contents. Where the kernel
  refuses \<open>mprotect\<close>, the same address is returned and every byte of that guard page is accessible. When \<open>mmap\<close>
  fails, the code does not return but faults.
\<close>

theorem thread_stack_guarded:
  assumes "mmap_spec os" and "(unat n + 2) * 4096 < 2 ^ 64" and "n \<noteq> 0"
    and "\<not> mapped_range r (2 ^ 64 - 1) 4096"
  shows "case os_mmap os r location ((n + 2) * PAGE_SZ) of
      None \<Rightarrow> allocate_thread_stack os refuses location n r = Inl Segfault
    | Some raw \<Rightarrow>
        (\<exists>r'. allocate_thread_stack os refuses location n r = Inr (raw + PAGE_SZ, r') \<and>
           mapped_range r' (unat raw + 4096) (unat n * 4096) \<and>
           read_bytes (bytes r') (unat raw + 4096) (unat n * 4096) = replicate (unat n * 4096) 0 \<and>
           (\<forall>i < 4096. (mapped_range r' (unat raw + i) 1 \<longleftrightarrow> refuses raw) \<and>
              (mapped_range r' (unat raw + 4096 * (unat n + 1) + i) 1 \<longleftrightarrow> refuses (raw + PAGE_SZ * (n + 1)))) \<and>
           (\<forall>x. mapped_range r x 1 \<longrightarrow> mapped_range r' x 1 \<and> bytes r' x = bytes r x))"
proof (cases "os_mmap os r location ((n + 2) * PAGE_SZ)")
  case None
  then show ?thesis
    using assms(4) by (simp add: allocate_thread_stack_def Let_def memset_def ram_write_def PAGE_SZ_def
        unsigned_minus_1_eq_mask mask_eq_exp_minus_1 rbind_def)
next
  case (Some raw)
  let ?a = "unat raw" and ?n = "unat n"
  have len0: "unat ((n + 2) * PAGE_SZ) = (?n + 2) * 4096"
    using stack_sizes(1) [OF assms(2), of 0] assms(2) by simp
  have spec: "4096 dvd ?a" "?a + (?n + 2) * 4096 < 2 ^ 64"
    and apart: "\<And>lo k. (lo, k) \<in> set (mapped r) \<Longrightarrow> lo + k \<le> ?a \<or> ?a + (?n + 2) * 4096 \<le> lo"
    using mmap_specD [OF assms(1) Some] unfolding len0 by auto
  note sizes = stack_sizes [OF assms(2) spec(2)]
  let ?top = "?a + 4096 * (?n + 1)"
  let ?r1 = "map_zeroed r ?a ((?n + 2) * 4096)"
  let ?r2 = "?r1\<lparr>bytes := write_bytes (bytes ?r1) ?a (replicate 4096 71)\<rparr>"
  let ?r3 = "if refuses raw then ?r2 else protect ?r2 ?a 4096"
  let ?r4 = "?r3\<lparr>bytes := write_bytes (bytes ?r3) ?top (replicate 4096 71)\<rparr>"
  let ?r5 = "if refuses (raw + PAGE_SZ * (n + 1)) then ?r4 else protect ?r4 ?top 4096"
  have m1: "mapped_range ?r1 b k" if "?a \<le> b" "b + k \<le> ?a + (?n + 2) * 4096" for b k
    using mapped_range_sub [OF mapped_range_map_zeroed that] .
  have m2: "mapped_range ?r2 b k = mapped_range ?r1 b k" for b k
    by (rule mapped_range_cong) simp
  have m4: "mapped_range ?r4 b k = mapped_range ?r3 b k" for b k
    by (rule mapped_range_cong) simp
  have s1: "memset ?r1 raw 71 PAGE_SZ = Inr ?r2"
    using m1 [of ?a 4096] by (subst memset_run) (simp_all add: PAGE_SZ_def)
  have top: "mapped_range ?r3 ?top 4096"
    by (rule protect_unless_keeps, unfold m2, rule m1) simp_all
  have s2: "memset ?r3 (raw + PAGE_SZ * (n + 1)) 71 PAGE_SZ = Inr ?r4"
    using top sizes(3) by (subst memset_run) (simp_all add: PAGE_SZ_def)
  have p1: "mprotect_none refuses ?r2 raw (PAGE_SZ - 1) = (if refuses raw then - 1 else 0, ?r3)"
    using spec(1) by (simp add: mprotect_none_def PAGE_SZ_def)
  have "4096 dvd unat (raw + PAGE_SZ * (n + 1))" "(unat PAGE_SZ + 4095) div 4096 * 4096 = 4096"
    unfolding sizes(3) using spec(1) by (simp_all add: PAGE_SZ_def)
  then have p2: "mprotect_none refuses ?r4 (raw + PAGE_SZ * (n + 1)) PAGE_SZ =
      (if refuses (raw + PAGE_SZ * (n + 1)) then - 1 else 0, ?r5)"
    unfolding mprotect_none_def by (simp add: sizes(3))
  have "allocate_thread_stack os refuses location n r = Inr (raw + PAGE_SZ, ?r5)"
    unfolding allocate_thread_stack_def Let_def Some option.case prod.case len0 s1 rbind_simps p1 s2 p2 ..
  moreover have "mapped_range ?r5 (?a + 4096) (?n * 4096)"
    using assms(3) by (intro protect_unless_keeps, unfold m4, intro protect_unless_keeps, unfold m2, intro m1)
      (simp_all add: unat_gt_0)
  moreover have "read_bytes (bytes ?r5) (?a + 4096) (?n * 4096) = replicate (?n * 4096) 0"
    by (rule nth_equalityI) (auto simp: read_bytes_def map_zeroed_def write_bytes_def)
  moreover have "(mapped_range ?r5 (?a + i) 1 \<longleftrightarrow> refuses raw) \<and>
      (mapped_range ?r5 (?top + i) 1 \<longleftrightarrow> refuses (raw + PAGE_SZ * (n + 1)))" if i: "i < 4096" for i
  proof (intro conjI iffI)
    assume "mapped_range ?r5 (?a + i) 1"
    then have "mapped_range ?r3 (?a + i) 1"
      using protect_only_less [of ?r4 ?top 4096 "?a + i" 1] unfolding m4 [symmetric] by (simp split: if_splits)
    then show "refuses raw"
      using protect_only_less [of ?r2 ?a 4096 "?a + i" 1] i by (simp split: if_splits)
  next
    assume "mapped_range ?r5 (?top + i) 1"
    then show "refuses (raw + PAGE_SZ * (n + 1))"
      using protect_only_less [of ?r4 ?top 4096 "?top + i" 1] i by (simp split: if_splits)
  next
    assume "refuses raw"
    then show "mapped_range ?r5 (?a + i) 1"
      using i by (intro protect_unless_keeps, unfold m4, intro protect_unless_keeps, unfold m2, intro m1) simp_all
  next
    assume "refuses (raw + PAGE_SZ * (n + 1))"
    then show "mapped_range ?r5 (?top + i) 1"
      using i by (intro protect_unless_keeps, unfold m4, intro protect_unless_keeps, unfold m2, intro m1) simp_all
  qed
  moreover have "mapped_range ?r5 x 1 \<and> bytes ?r5 x = bytes r x" if x: "mapped_range r x 1" for x
  proof -
    have out: "x + 1 \<le> ?a \<or> ?a + (?n + 2) * 4096 \<le> x"
      using x apart by (auto simp: mapped_range_def list_ex_iff) force
    have "mapped_range ?r1 x 1"
      using x by (rule mapped_range_more) (auto simp: map_zeroed_mapped)
    then have "mapped_range ?r5 x 1"
      using out by (intro protect_unless_keeps, unfold m4, intro protect_unless_keeps, unfold m2) auto
    moreover have "bytes ?r5 x = bytes r x"
      using out by (auto simp: write_bytes_outside map_zeroed_outside)
    ultimately show ?thesis ..
  qed
  ultimately show ?thesis
    unfolding Some option.case by blast
qed

theorem thread_stack_guarded_witness:
  "\<exists>r'. allocate_thread_stack demo_os (\<lambda>_. False) 0 4 \<lparr>bytes = (\<lambda>_. 0), mapped = []\<rparr> = Inr (69632, r') \<and>
     mapped_range r' 69632 16384 \<and> \<not> mapped_range r' 65536 1 \<and> \<not> mapped_range r' 86016 1"
proof -
  let ?r = "\<lparr>bytes = (\<lambda>_. 0), mapped = []\<rparr>"
  have len: "(4 + 2) * PAGE_SZ = 24576"
    by (simp add: PAGE_SZ_def)
  have "\<exists>r'. allocate_thread_stack demo_os (\<lambda>_. False) 0 4 ?r = Inr (65536 + PAGE_SZ, r') \<and>
      mapped_range r' (unat (65536 :: u64) + 4096) (unat (4 :: u64) * 4096) \<and>
      (\<forall>i < 4096. \<not> mapped_range r' (unat (65536 :: u64) + i) 1 \<and>
         \<not> mapped_range r' (unat (65536 :: u64) + 4096 * (unat (4 :: u64) + 1) + i) 1)"
    using thread_stack_guarded [OF demo_os_spec, where n = 4 and r = ?r and location = 0 and refuses = "\<lambda>_. False"] unfolding len
    by (simp add: demo_os_def mapped_range_def) blast
  then obtain r' where "allocate_thread_stack demo_os (\<lambda>_. False) 0 4 ?r = Inr (65536 + PAGE_SZ, r')"
    "mapped_range r' (unat (65536 :: u64) + 4096) (unat (4 :: u64) * 4096)"
    "\<not> mapped_range r' (unat (65536 :: u64) + 0) 1"
    "\<not> mapped_range r' (unat (65536 :: u64) + 4096 * (unat (4 :: u64) + 1) + 0) 1"
    by (metis zero_less_numeral)
  then show ?thesis
    by (intro exI [of _ r']) (simp add: PAGE_SZ_def)
qed

end
