(* ===== verification/Diff.thy ===== *)
theory Diff
  imports Prelude
begin

text \<open>
  \<open>utils/diff.cpp\<close>: the alignment of two buffers. The matrix is a list of rows. Pointers to its
  elements are addresses: \<open>rows y\<close> is the word \<open>_matrix[y]\<close>, which for \<open>y = -1\<close> is the word in front of
  the array of row pointers, that is, its size header; an element takes 24 bytes. Costs are \<open>int\<close>s
  that do not overflow for buffers below 2 GB.
\<close>

datatype cell = Element (cell_x: nat) (cell_y: nat) (cell_value: int) (traceback: "(nat \<times> nat) option")

definition MATCH :: int where "MATCH = 1"
definition MISMATCH :: int where "MISMATCH = - 2"
definition GAP :: int where "GAP = - 1"

text \<open>The cost of a pair is the conditional of the source, whose condition is the constant \<open>MATCH\<close>.\<close>

definition pair_cost :: "char \<Rightarrow> char \<Rightarrow> int" where
  "pair_cost a b = (if MATCH \<noteq> 0 then (if a = b then 1 else 0) else MISMATCH)"

definition row0 :: "nat \<Rightarrow> cell list" where
  "row0 n = map (\<lambda>x. Element x 0 (GAP * int x) (if x = 0 then None else Some (0, x - 1))) [0..<n + 1]"

definition fill_cell :: "char \<Rightarrow> char \<Rightarrow> nat \<Rightarrow> nat \<Rightarrow> int \<Rightarrow> int \<Rightarrow> int \<Rightarrow> cell" where
  "fill_cell a b y x diag left up =
     (let diag_cost = diag + pair_cost a b; left_cost = left + GAP; up_cost = up + GAP;
          max_cost = max diag_cost (max left_cost up_cost)
      in Element x y max_cost
           (if diag_cost = max_cost then Some (y - 1, x - 1)
            else if left_cost = max_cost then Some (y, x - 1)
            else Some (y - 1, x)))"

text \<open>The rest of row \<open>y\<close> from column \<open>x\<close> on, given the row above from column \<open>x - 1\<close> on.\<close>

fun fill_row :: "char \<Rightarrow> string \<Rightarrow> nat \<Rightarrow> nat \<Rightarrow> cell list \<Rightarrow> cell \<Rightarrow> cell list" where
  "fill_row a (b # bs) y x (d # u # prev) left =
     (let c = fill_cell a b y x (cell_value d) (cell_value left) (cell_value u)
      in c # fill_row a bs y (x + 1) (u # prev) c)"
| "fill_row a bs y x prev left = []"

definition next_row :: "char \<Rightarrow> string \<Rightarrow> nat \<Rightarrow> cell list \<Rightarrow> cell list" where
  "next_row a bs y prev =
     (let c = Element 0 y (GAP * int y) (Some (y - 1, 0)) in c # fill_row a bs y 1 prev c)"

fun fill_rows :: "string \<Rightarrow> string \<Rightarrow> nat \<Rightarrow> cell list \<Rightarrow> cell list list" where
  "fill_rows [] bs y prev = []"
| "fill_rows (a # as) bs y prev =
     (let r = next_row a bs y prev in r # fill_rows as bs (y + 1) r)"

definition matrix :: "string \<Rightarrow> string \<Rightarrow> cell list list" where
  "matrix mem1 mem2 = (let r = row0 (length mem2) in r # fill_rows mem1 mem2 1 r)"

section \<open>Tracing back\<close>

definition cell_addr :: "(int \<Rightarrow> u64) \<Rightarrow> int \<Rightarrow> int \<Rightarrow> u64" where
  "cell_addr rows y x = rows y + 24 * of_int x"

definition ptr :: "(int \<Rightarrow> u64) \<Rightarrow> (nat \<times> nat) option \<Rightarrow> u64" where
  "ptr rows p = (case p of None \<Rightarrow> 0 | Some (y, x) \<Rightarrow> cell_addr rows (int y) (int x))"

text \<open>The walks end because a cell points to one that is nearer to the corner; \<open>fuel\<close> bounds them.\<close>

fun count_steps :: "nat \<Rightarrow> cell list list \<Rightarrow> cell \<Rightarrow> nat" where
  "count_steps 0 m cur = 0"
| "count_steps (Suc fuel) m cur =
     (case traceback cur of None \<Rightarrow> 0 | Some (y, x) \<Rightarrow> Suc (count_steps fuel m (m ! y ! x)))"

text \<open>
  The characters that one step writes to the two alignments, if any. An index \<open>-1\<close> into a buffer
  reads the byte in front of it, which is \<open>before\<close>.
\<close>

definition byte_at :: "char \<Rightarrow> string \<Rightarrow> int \<Rightarrow> char" where
  "byte_at before s i = (if i < 0 then before else s ! nat i)"

definition step_chars ::
  "(int \<Rightarrow> u64) \<Rightarrow> char \<Rightarrow> char \<Rightarrow> string \<Rightarrow> string \<Rightarrow> cell \<Rightarrow> (char \<times> char) option" where
  "step_chars rows before1 before2 mem1 mem2 cur =
     (let y = int (cell_y cur); x = int (cell_x cur); p = ptr rows (traceback cur);
          c1 = byte_at before1 mem1 (y - 1); c2 = byte_at before2 mem2 (x - 1)
      in if p = cell_addr rows (y - 1) (x - 1) then Some (c1, c2)
         else if p = cell_addr rows y (x - 1) then Some (CHR ''-'', c2)
         else if p = cell_addr rows (y - 1) x then Some (c1, CHR ''-'')
         else None)"

text \<open>All writes of the second walk: the index, and the bytes for the two alignments.\<close>

fun trace_writes ::
  "(int \<Rightarrow> u64) \<Rightarrow> char \<Rightarrow> char \<Rightarrow> string \<Rightarrow> string \<Rightarrow> nat \<Rightarrow> cell list list \<Rightarrow> int \<Rightarrow> cell \<Rightarrow>
     (int \<times> char \<times> char) list" where
  "trace_writes rows before1 before2 mem1 mem2 0 m idx cur = []"
| "trace_writes rows before1 before2 mem1 mem2 (Suc fuel) m idx cur =
     (case step_chars rows before1 before2 mem1 mem2 cur of None \<Rightarrow> [] | Some cs \<Rightarrow> [(idx, cs)]) @
     (case traceback cur of
        None \<Rightarrow> []
      | Some (y, x) \<Rightarrow> trace_writes rows before1 before2 mem1 mem2 fuel m (idx - 1) (m ! y ! x))"

text \<open>
  The result: the size asked for each alignment, and every write to them in order, first the
  terminator behind the last byte.
\<close>

definition diff ::
  "(int \<Rightarrow> u64) \<Rightarrow> char \<Rightarrow> char \<Rightarrow> string \<Rightarrow> string \<Rightarrow> nat \<times> (int \<times> char \<times> char) list" where
  "diff rows before1 before2 mem1 mem2 =
     (let m = matrix mem1 mem2; n = length mem1; k = length mem2; cur = m ! n ! k;
          longest = count_steps (n + k) m cur
      in (longest,
          (int longest, CHR 0x00, CHR 0x00) #
          trace_writes rows before1 before2 mem1 mem2 (n + k + 1) m (int longest - 1) cur))"

section \<open>What the matrix holds\<close>

fun score :: "string \<Rightarrow> string \<Rightarrow> nat \<Rightarrow> nat \<Rightarrow> int" where
  "score a b 0 x = GAP * int x"
| "score a b (Suc y) 0 = GAP * int (Suc y)"
| "score a b (Suc y) (Suc x) =
     max (score a b y x + pair_cost (a ! y) (b ! x)) (max (score a b (Suc y) x + GAP) (score a b y (Suc x) + GAP))"

definition best_step :: "string \<Rightarrow> string \<Rightarrow> nat \<Rightarrow> nat \<Rightarrow> (nat \<times> nat) option" where
  "best_step a b y x =
     (if y = 0 then (if x = 0 then None else Some (0, x - 1))
      else if x = 0 then Some (y - 1, 0)
      else if score a b (y - 1) (x - 1) + pair_cost (a ! (y - 1)) (b ! (x - 1)) = score a b y x then Some (y - 1, x - 1)
      else if score a b y (x - 1) + GAP = score a b y x then Some (y, x - 1)
      else Some (y - 1, x))"

definition ideal :: "string \<Rightarrow> string \<Rightarrow> nat \<Rightarrow> nat \<Rightarrow> cell" where
  "ideal a b y x = Element x y (score a b y x) (best_step a b y x)"

lemma row0_ideal: "row0 n = map (ideal a b 0) [0..<n + 1]"
  by (simp add: row0_def ideal_def best_step_def)

lemma fill_cell_ideal:
  "fill_cell (a ! y) (b ! x) (Suc y) (Suc x) (score a b y x) (score a b (Suc y) x) (score a b y (Suc x)) =
     ideal a b (Suc y) (Suc x)"
  by (simp add: fill_cell_def ideal_def best_step_def Let_def)

lemma fill_row_ideal:
  assumes "x < length b"
  shows "fill_row (a ! y) (drop x b) (Suc y) (Suc x) (map (ideal a b y) [x..<length b + 1]) (ideal a b (Suc y) x) =
    map (ideal a b (Suc y)) [Suc x..<length b + 1]"
  using assms
proof (induction "length b - x" arbitrary: x)
  case (Suc n)
  have d: "drop x b = b ! x # drop (Suc x) b"
    using Suc.prems by (simp add: Cons_nth_drop_Suc)
  have up: "[x..<Suc (length b)] = x # Suc x # [Suc (Suc x)..<Suc (length b)]" "[Suc x..<Suc (length b)] = Suc x # [Suc (Suc x)..<Suc (length b)]"
    using Suc.prems by (simp_all add: upt_rec del: upt_Suc)
  have c: "fill_cell (a ! y) (b ! x) (Suc y) (Suc x) (cell_value (ideal a b y x)) (cell_value (ideal a b (Suc y) x))
      (cell_value (ideal a b y (Suc x))) = ideal a b (Suc y) (Suc x)"
    using fill_cell_ideal [of a y b x] by (simp add: ideal_def)
  show ?case
  proof (cases "Suc x < length b")
    case True
    then show ?thesis
      using Suc.hyps(1) [of "Suc x"] Suc.hyps(2) up(2) by (simp add: d up(1) c Let_def del: upt_Suc)
  next
    case False
    then have "drop (Suc x) b = []" "[Suc (Suc x)..<Suc (length b)] = []"
      by simp_all
    then show ?thesis
      using c by (simp add: d up Let_def del: upt_Suc)
  qed
qed simp

lemma next_row_ideal:
  "next_row (a ! y) b (Suc y) (map (ideal a b y) [0..<length b + 1]) = map (ideal a b (Suc y)) [0..<length b + 1]"
proof (cases "b = []")
  case False
  have "[0..<length b + 1] = 0 # [Suc 0..<length b + 1]"
    by (simp add: upt_rec)
  moreover have "Element 0 (Suc y) (GAP * int (Suc y)) (Some (y, 0)) = ideal a b (Suc y) 0"
    by (simp add: ideal_def best_step_def)
  ultimately show ?thesis
    using fill_row_ideal [of 0 b a y] False by (simp add: next_row_def Let_def)
qed (simp add: next_row_def ideal_def best_step_def)

lemma fill_rows_ideal:
  "y \<le> length a \<Longrightarrow> fill_rows (drop y a) b (Suc y) (map (ideal a b y) [0..<length b + 1]) =
     map (\<lambda>y. map (ideal a b y) [0..<length b + 1]) [Suc y..<length a + 1]"
proof (induction "length a - y" arbitrary: y)
  case (Suc n)
  then have y: "y < length a"
    by simp
  have d: "drop y a = a ! y # drop (Suc y) a"
    using y by (simp add: Cons_nth_drop_Suc)
  have up: "[Suc y..<length a + 1] = Suc y # [Suc (Suc y)..<length a + 1]"
    using y by (simp add: upt_rec)
  have "fill_rows (drop (Suc y) a) b (Suc (Suc y)) (map (ideal a b (Suc y)) [0..<length b + 1]) =
      map (\<lambda>y. map (ideal a b y) [0..<length b + 1]) [Suc (Suc y)..<length a + 1]"
    using Suc.hyps y by (intro Suc.hyps(1)) auto
  then show ?case
    unfolding d up using next_row_ideal [of a y b] by (simp only: fill_rows.simps Let_def list.map Suc_eq_plus1 [symmetric])
qed simp

lemma matrix_ideal:
  "matrix a b = map (\<lambda>y. map (ideal a b y) [0..<length b + 1]) [0..<length a + 1]"
proof -
  have "[0..<length a + 1] = 0 # [Suc 0..<length a + 1]"
    by (simp add: upt_rec)
  then show ?thesis
    unfolding matrix_def Let_def row0_ideal [of "length b" a b] using fill_rows_ideal [of 0 a b]
    by (simp only: drop0 le0 list.map One_nat_def simp_thms)
qed

lemma matrix_cell:
  assumes "y \<le> length a" and "x \<le> length b"
  shows "matrix a b ! y ! x = ideal a b y x"
  using assms by (simp add: matrix_ideal del: upt_Suc)

section \<open>Alignments\<close>

text \<open>
  An alignment of two strings: columns that spell the strings from top to bottom, with gaps but no
  column of two gaps. \<open>shown\<close> is how the program prints a column.
\<close>

type_synonym column = "char option \<times> char option"

definition is_alignment :: "string \<Rightarrow> string \<Rightarrow> column list \<Rightarrow> bool" where
  "is_alignment a b cols \<longleftrightarrow>
     (None, None) \<notin> set cols \<and> List.map_filter fst cols = a \<and> List.map_filter snd cols = b"

fun col_cost :: "column \<Rightarrow> int" where
  "col_cost (Some a, Some b) = pair_cost a b"
| "col_cost _ = GAP"

definition total :: "column list \<Rightarrow> int" where
  "total cols = sum_list (map col_cost cols)"

definition shown :: "column \<Rightarrow> char \<times> char" where
  "shown col = (let f = (\<lambda>c. case c of None \<Rightarrow> CHR ''-'' | Some c \<Rightarrow> c) in (f (fst col), f (snd col)))"

lemma map_filter_snoc: "List.map_filter f (xs @ [x]) = List.map_filter f xs @ (case f x of None \<Rightarrow> [] | Some y \<Rightarrow> [y])"
  by (simp add: List.map_filter_def split: option.splits)

lemma is_alignment_snoc:
  "is_alignment a b (cols @ [(p, q)]) \<longleftrightarrow> (p, q) \<noteq> (None, None) \<and>
     (\<exists>a' b'. is_alignment a' b' cols \<and> a = a' @ (case p of None \<Rightarrow> [] | Some c \<Rightarrow> [c]) \<and>
        b = b' @ (case q of None \<Rightarrow> [] | Some c \<Rightarrow> [c]))"
  by (auto simp: is_alignment_def map_filter_snoc)

lemma total_snoc: "total (cols @ [c]) = total cols + col_cost c"
  by (simp add: total_def)

lemma take_snoc: "take y a = a' @ [c] \<Longrightarrow> y \<le> length a \<Longrightarrow> \<exists>y'. y = Suc y' \<and> a' = take y' a \<and> c = a ! y' \<and> y' < length a"
  by (cases y) (auto simp: take_Suc_conv_app_nth Suc_le_eq)

lemma score_0: "score a b y 0 = GAP * int y"
  by (cases y) simp_all

lemma score_step:
  "score a b y x + GAP \<le> score a b (Suc y) x"
  "score a b y x + GAP \<le> score a b y (Suc x)"
  "score a b y x + pair_cost (a ! y) (b ! x) \<le> score a b (Suc y) (Suc x)"
proof -
  show "score a b y x + GAP \<le> score a b (Suc y) x"
    by (cases x) (simp_all add: GAP_def score_0)
  show "score a b y x + GAP \<le> score a b y (Suc x)"
    by (cases y) (simp_all add: GAP_def)
  show "score a b y x + pair_cost (a ! y) (b ! x) \<le> score a b (Suc y) (Suc x)"
    by simp
qed

text \<open>No alignment is better than the matrix says.\<close>

lemma score_upper:
  "is_alignment (take y a) (take x b) cols \<Longrightarrow> y \<le> length a \<Longrightarrow> x \<le> length b \<Longrightarrow> total cols \<le> score a b y x"
proof (induction cols arbitrary: y x rule: rev_induct)
  case Nil
  then have "y = 0 \<or> a = []" "x = 0 \<or> b = []"
    by (auto simp: is_alignment_def List.map_filter_def)
  then show ?case
    using Nil by (auto simp: total_def GAP_def)
next
  case (snoc c cols)
  obtain p q where c: "c = (p, q)"
    by (cases c)
  obtain a' b' where al: "is_alignment a' b' cols" and a': "take y a = a' @ (case p of None \<Rightarrow> [] | Some c \<Rightarrow> [c])"
    and b': "take x b = b' @ (case q of None \<Rightarrow> [] | Some c \<Rightarrow> [c])" and pq: "(p, q) \<noteq> (None, None)"
    using snoc.prems(1) by (auto simp: c is_alignment_snoc)
  consider (both) e f where "p = Some e" "q = Some f" | (up) e where "p = Some e" "q = None"
    | (left) f where "p = None" "q = Some f"
    using pq by (cases p; cases q) auto
  then show ?case
  proof cases
    case both
    obtain y' x' where y: "y = Suc y'" "a' = take y' a" "e = a ! y'" "y' < length a"
      and x: "x = Suc x'" "b' = take x' b" "f = b ! x'" "x' < length b"
      using a' b' both take_snoc [of y a a' e] take_snoc [of x b b' f] snoc.prems by auto
    have "total cols \<le> score a b y' x'"
      using snoc.IH al y x by simp
    then show ?thesis
      using score_step(3) [of a b y' x'] by (simp add: c both total_snoc x y)
  next
    case up
    obtain y' where y: "y = Suc y'" "a' = take y' a" "y' < length a"
      using a' up take_snoc [of y a a' e] snoc.prems by auto
    have "total cols \<le> score a b y' x"
      using snoc.IH [of y' x] al y b' up snoc.prems by simp
    then show ?thesis
      using score_step(1) [of a b y' x] by (simp add: c up total_snoc y)
  next
    case left
    obtain x' where x: "x = Suc x'" "b' = take x' b" "x' < length b"
      using b' left take_snoc [of x b b' f] snoc.prems by auto
    have "total cols \<le> score a b y x'"
      using snoc.IH [of y x'] al x a' left snoc.prems by simp
    then show ?thesis
      using score_step(2) [of a b y x'] by (simp add: c left total_snoc x)
  qed
qed

text \<open>The alignment that the walk back follows.\<close>

definition step_column :: "string \<Rightarrow> string \<Rightarrow> nat \<Rightarrow> nat \<Rightarrow> nat \<times> nat \<Rightarrow> column" where
  "step_column a b y x to =
     (if fst to < y then Some (a ! (y - 1)) else None, if snd to < x then Some (b ! (x - 1)) else None)"

lemma score_max:
  "score a b (Suc y) (Suc x) = score a b y x + pair_cost (a ! y) (b ! x) \<or>
   score a b (Suc y) (Suc x) = score a b (Suc y) x + GAP \<or>
   score a b (Suc y) (Suc x) = score a b y (Suc x) + GAP"
  by (simp add: max_def)

lemma best_step_cases:
  assumes "best_step a b y x = Some (y', x')"
  shows "(y = Suc y' \<and> x = Suc x' \<and> score a b y x = score a b y' x' + pair_cost (a ! y') (b ! x')) \<or>
     (y = y' \<and> x = Suc x' \<and> score a b y x = score a b y' x' + GAP) \<or>
     (y = Suc y' \<and> x = x' \<and> score a b y x = score a b y' x' + GAP)"
proof (cases y; cases x)
  fix m n
  assume yx: "y = Suc m" "x = Suc n"
  show ?thesis
    using assms score_max [of a b m n] unfolding yx
    by (simp add: best_step_def del: score.simps split: if_splits)
qed (use assms in \<open>auto simp: best_step_def GAP_def score_0\<close>)

lemma best_step_None: "best_step a b y x = None \<longleftrightarrow> y = 0 \<and> x = 0"
  by (auto simp: best_step_def)

fun path :: "string \<Rightarrow> string \<Rightarrow> nat \<Rightarrow> nat \<Rightarrow> nat \<Rightarrow> column list" where
  "path a b 0 y x = []"
| "path a b (Suc fuel) y x =
     (case best_step a b y x of
        None \<Rightarrow> []
      | Some (y', x') \<Rightarrow> path a b fuel y' x' @ [step_column a b y x (y', x')])"

lemma path_alignment:
  "y + x \<le> fuel \<Longrightarrow> y \<le> length a \<Longrightarrow> x \<le> length b \<Longrightarrow>
     is_alignment (take y a) (take x b) (path a b fuel y x) \<and> total (path a b fuel y x) = score a b y x"
proof (induction fuel arbitrary: y x)
  case (Suc fuel)
  show ?case
  proof (cases "best_step a b y x")
    case None
    then have "y = 0" "x = 0"
      by (simp_all add: best_step_None)
    then show ?thesis
      using None by (simp add: is_alignment_def total_def List.map_filter_def)
  next
    case (Some to)
    obtain y' x' where s: "best_step a b y x = Some (y', x')"
      using Some by (cases to) simp
    have le: "y' + x' \<le> fuel" "y' \<le> length a" "x' \<le> length b"
      using best_step_cases [OF s] Suc.prems by auto
    note IH = Suc.IH [OF le]
    show ?thesis
      using best_step_cases [OF s] IH Suc.prems
      by (auto simp: s step_column_def is_alignment_snoc total_snoc take_Suc_conv_app_nth Suc_le_eq)
  qed
qed (simp add: is_alignment_def total_def List.map_filter_def)

lemma count_steps_path:
  "y \<le> length a \<Longrightarrow> x \<le> length b \<Longrightarrow> count_steps fuel (matrix a b) (ideal a b y x) = length (path a b fuel y x)"
proof (induction fuel arbitrary: y x)
  case (Suc fuel)
  have "count_steps fuel (matrix a b) (matrix a b ! y' ! x') = length (path a b fuel y' x')"
    if s: "best_step a b y x = Some (y', x')" for y' x'
  proof -
    have le: "y' \<le> length a" "x' \<le> length b"
      using best_step_cases [OF s] Suc.prems by auto
    show ?thesis
      unfolding matrix_cell [OF le] by (rule Suc.IH [OF le])
  qed
  then show ?case
    by (auto simp: ideal_def split: option.splits)
qed simp

section \<open>Addresses\<close>

text \<open>
  What the allocator promises of the matrix: each row is a block of its own, with at least the eight
  bytes of a size header between two rows, none of them near the null page, and the word in front of
  the row pointers is a size and not the address of the first row.
\<close>

definition layout :: "(int \<Rightarrow> u64) \<Rightarrow> nat \<Rightarrow> nat \<Rightarrow> bool" where
  "layout rows n k \<longleftrightarrow>
     (\<forall>y \<le> n. 24 < unat (rows (int y)) \<and> unat (rows (int y)) + 24 * (k + 1) < 2 ^ 64) \<and>
     (\<forall>y \<le> n. \<forall>z \<le> n. y < z \<longrightarrow>
        unat (rows (int y)) + 24 * (k + 1) + 8 \<le> unat (rows (int z)) \<or>
        unat (rows (int z)) + 24 * (k + 1) + 8 \<le> unat (rows (int y))) \<and>
     rows (- 1) \<noteq> rows 0 \<and> rows (- 1) \<noteq> 0"

lemma layout_row: "layout rows n k \<Longrightarrow> y \<le> n \<Longrightarrow> 24 < unat (rows (int y)) \<and> unat (rows (int y)) + 24 * (k + 1) < 2 ^ 64"
  by (simp add: layout_def)

lemma layout_apart:
  assumes "layout rows n k" and "y \<le> n" and "z \<le> n" and "y \<noteq> z"
  shows "unat (rows (int y)) + 24 * (k + 1) + 8 \<le> unat (rows (int z)) \<or>
    unat (rows (int z)) + 24 * (k + 1) + 8 \<le> unat (rows (int y))"
  using assms unfolding layout_def by (metis linorder_neqE_nat)

lemma unat_cell_addr:
  assumes "layout rows n k" and "y \<le> n" and "x \<le> k"
  shows "unat (cell_addr rows (int y) (int x)) = unat (rows (int y)) + 24 * x"
proof -
  have r: "unat (rows (int y)) + 24 * (k + 1) < 2 ^ 64"
    using layout_row assms by blast
  have x: "unat (24 * of_nat x :: u64) = 24 * x"
    using r assms(3) by (intro of_nat_inverse) simp_all
  have "unat (rows (int y) + 24 * of_nat x) = unat (rows (int y)) + unat (24 * of_nat x :: u64)"
    using r assms(3) x by (intro unat_add_small) simp
  then show ?thesis
    using x by (simp add: cell_addr_def)
qed

lemma unat_before_row:
  assumes "layout rows n k" and "y \<le> n"
  shows "unat (cell_addr rows (int y) (- 1)) = unat (rows (int y)) - 24"
proof -
  have "24 \<le> unat (rows (int y))"
    using layout_row [OF assms] by simp
  then have "unat (rows (int y) - 24) = unat (rows (int y)) - unat (24 :: u64)"
    by (intro unat_sub_le) simp
  then show ?thesis
    by (simp add: cell_addr_def)
qed

lemma cell_addr_inj:
  assumes "layout rows n k" and "y \<le> n" and "x \<le> k" and "z \<le> n" and "w \<le> k"
    and "cell_addr rows (int y) (int x) = cell_addr rows (int z) (int w)"
  shows "y = z \<and> x = w"
proof -
  have eq: "unat (rows (int y)) + 24 * x = unat (rows (int z)) + 24 * w"
    using unat_cell_addr [OF assms(1)] assms by metis
  have "y = z"
  proof (rule ccontr)
    assume "y \<noteq> z"
    then show False
      using layout_apart [OF assms(1,2,4)] eq assms(3,5) by auto
  qed
  then show ?thesis
    using eq by simp
qed

text \<open>The tests of a step find the column, also at the borders.\<close>

lemma step_chars_column:
  assumes l: "layout rows n k" and y: "y \<le> n" and x: "x \<le> k" and s: "best_step a b y x = Some (y', x')"
  shows "step_chars rows p1 p2 a b (ideal a b y x) = Some (shown (step_column a b y x (y', x')))"
proof -
  have p: "ptr rows (traceback (ideal a b y x)) = cell_addr rows (int y') (int x')"
    by (simp add: ptr_def ideal_def s)
  have le: "y' \<le> n" "x' \<le> k"
    using best_step_cases [OF s] y x by auto
  note inj = cell_addr_inj [OF l le]
  consider (diag) "y = Suc y'" "x = Suc x'" | (left) "y = y'" "x = Suc x'" | (up) "y = Suc y'" "x = x'"
    using best_step_cases [OF s] by blast
  then show ?thesis
  proof cases
    case diag
    then show ?thesis
      using p by (simp add: step_chars_def Let_def ideal_def byte_at_def shown_def step_column_def)
  next
    case left
    have "cell_addr rows (int y') (int x') \<noteq> cell_addr rows (int y - 1) (int x - 1)"
    proof (cases y)
      case 0
      then show ?thesis
        using left l by (auto simp: cell_addr_def layout_def)
    next
      case (Suc m)
      then show ?thesis
        using inj [of m x'] left le y by auto
    qed
    then show ?thesis
      using p left by (simp add: step_chars_def Let_def ideal_def byte_at_def shown_def step_column_def)
  next
    case up
    have d: "cell_addr rows (int y') (int x') \<noteq> cell_addr rows (int y - 1) (int x - 1)"
    proof -
      have "cell_addr rows (int y - 1) (int x - 1) = cell_addr rows (int y') (int x') - 24"
        using up by (simp add: cell_addr_def algebra_simps)
      moreover have "u \<noteq> u - 24" for u :: u64
      proof
        assume "u = u - 24"
        then have "(24 :: u64) = 0"
          by (metis diff_self diff_diff_eq2 diff_add_cancel add_diff_cancel_left')
        then show False
          by simp
      qed
      ultimately show ?thesis
        by metis
    qed
    have "cell_addr rows (int y') (int x') \<noteq> cell_addr rows (int y) (int x - 1)"
    proof (cases x)
      case 0
      have "unat (rows (int y')) \<noteq> unat (rows (int y)) - 24"
        using layout_apart [OF l y le(1)] layout_row [OF l y] up(1) by auto
      then show ?thesis
        using unat_before_row [OF l y] unat_cell_addr [OF l le] up 0 by auto
    next
      case (Suc m)
      then show ?thesis
        using inj [of y m] up y x by auto
    qed
    then show ?thesis
      using p up d by (simp add: step_chars_def Let_def ideal_def byte_at_def shown_def step_column_def)
  qed
qed

text \<open>
  At the corner there is no traceback, but the address that the first test computes is null when the
  word in front of the row pointers is 24.
\<close>

lemma step_chars_corner:
  assumes "layout rows n k"
  shows "step_chars rows p1 p2 a b (ideal a b 0 0) = (if rows (- 1) = 24 then Some (p1, p2) else None)"
proof -
  have "24 < unat (rows 0)" and r: "rows (- 1) \<noteq> 0"
    using layout_row [OF assms, of 0] assms by (auto simp: layout_def)
  then have "rows 0 \<noteq> 24"
    by auto
  then show ?thesis
    using r by (auto simp: step_chars_def Let_def ideal_def best_step_def ptr_def cell_addr_def byte_at_def)
qed

section \<open>All writes\<close>

lemma trace_writes_path:
  assumes l: "layout rows (length a) (length b)"
  shows "y + x \<le> fuel \<Longrightarrow> y \<le> length a \<Longrightarrow> x \<le> length b \<Longrightarrow>
    trace_writes rows p1 p2 a b (Suc fuel) (matrix a b) idx (ideal a b y x) =
      (let cols = path a b fuel y x
       in map (\<lambda>i. (idx - int i, shown (rev cols ! i))) [0..<length cols] @
          (if rows (- 1) = 24 then [(idx - int (length cols), p1, p2)] else []))"
proof (induction fuel arbitrary: y x idx)
  case 0
  then show ?case
    using step_chars_corner [OF l, of p1 p2 a b] by (simp add: ideal_def best_step_def Let_def)
next
  case (Suc fuel)
  show ?case
  proof (cases "best_step a b y x")
    case None
    then have "y = 0" "x = 0"
      by (simp_all add: best_step_None)
    moreover have "best_step a b 0 0 = None"
      by (simp add: best_step_def)
    ultimately show ?thesis
      using step_chars_corner [OF l, of p1 p2 a b] by (simp add: ideal_def Let_def)
  next
    case (Some to)
    obtain y' x' where s: "best_step a b y x = Some (y', x')"
      using Some by (cases to) simp
    have le: "y' + x' \<le> fuel" "y' \<le> length a" "x' \<le> length b"
      using best_step_cases [OF s] Suc.prems by auto
    let ?col = "step_column a b y x (y', x')" and ?cols = "path a b fuel y' x'"
    have tb: "traceback (ideal a b y x) = Some (y', x')"
      by (simp add: ideal_def s)
    have "trace_writes rows p1 p2 a b (Suc (Suc fuel)) (matrix a b) idx (ideal a b y x) =
        (idx, shown ?col) # trace_writes rows p1 p2 a b (Suc fuel) (matrix a b) (idx - 1) (ideal a b y' x')"
      using step_chars_column [OF l Suc.prems(2,3) s] tb matrix_cell [OF le(2,3)]
      by (subst trace_writes.simps) simp
    moreover have "map (\<lambda>i. (idx - int i, shown (rev (?cols @ [?col]) ! i))) [0..<length (?cols @ [?col])] =
        (idx, shown ?col) # map (\<lambda>i. (idx - 1 - int i, shown (rev ?cols ! i))) [0..<length ?cols]"
      by (intro nth_equalityI) (auto simp: nth_Cons' simp del: upt_Suc)
    moreover have "path a b (Suc fuel) y x = ?cols @ [?col]"
      by (simp add: s)
    ultimately show ?thesis
      using Suc.IH [OF le, of "idx - 1"] by (simp add: Let_def algebra_simps del: trace_writes.simps path.simps)
  qed
qed

lemma rev_writes:
  "map (\<lambda>i. (int (length cols) - 1 - int i, f (rev cols ! i))) [0..<length cols] =
     rev (map (\<lambda>i. (int i, f (cols ! i))) [0..<length cols])"
  by (intro nth_equalityI) (auto simp: rev_nth of_nat_diff)

text \<open>
  C36. \<open>diff\<close> finds an optimal alignment: with the costs that the code uses (1 for equal bytes, 0 for
  different ones, -1 for a gap) no alignment of the two buffers scores better, and the bytes written
  to the two outputs are its columns, from the last to the first. Each output also gets a zero byte
  behind its last byte, outside the size that was asked for; and when the word in front of the row
  pointers is 24 (their size when the first buffer has two bytes), a last write goes to index -1.
\<close>

theorem diff_optimal:
  assumes "layout rows (length mem1) (length mem2)"
  shows "\<exists>cols. is_alignment mem1 mem2 cols \<and>
    (\<forall>other. is_alignment mem1 mem2 other \<longrightarrow> total other \<le> total cols) \<and>
    diff rows p1 p2 mem1 mem2 =
      (length cols,
       (int (length cols), CHR 0x00, CHR 0x00) #
       rev (map (\<lambda>i. (int i, shown (cols ! i))) [0..<length cols]) @
       (if rows (- 1) = 24 then [(- 1, p1, p2)] else []))"
proof -
  let ?n = "length mem1" and ?k = "length mem2"
  let ?cols = "path mem1 mem2 (?n + ?k) ?n ?k"
  have al: "is_alignment mem1 mem2 ?cols" "total ?cols = score mem1 mem2 ?n ?k"
    using path_alignment [of ?n ?k "?n + ?k" mem1 mem2] by simp_all
  have best: "total other \<le> total ?cols" if "is_alignment mem1 mem2 other" for other
    unfolding al(2) using that by (intro score_upper) simp_all
  have "diff rows p1 p2 mem1 mem2 =
      (length ?cols,
       (int (length ?cols), CHR 0x00, CHR 0x00) #
       rev (map (\<lambda>i. (int i, shown (?cols ! i))) [0..<length ?cols]) @
       (if rows (- 1) = 24 then [(- 1, p1, p2)] else []))"
    using trace_writes_path [OF assms, of ?n ?k "?n + ?k" p1 p2 "int (length ?cols) - 1"]
      rev_writes [of ?cols shown]
    by (simp add: diff_def Let_def matrix_cell count_steps_path del: trace_writes.simps path.simps)
  then show ?thesis
    using al(1) best by blast
qed

definition demo_rows :: "int \<Rightarrow> u64" where
  "demo_rows y = (if y = - 1 then 24 else 4096 + 256 * of_int y)"

theorem diff_optimal_witness:
  "\<exists>cols. is_alignment ''ab'' ''b'' cols \<and>
    diff demo_rows CHR ''x'' CHR ''y'' ''ab'' ''b'' =
      (length cols,
       (int (length cols), CHR 0x00, CHR 0x00) #
       rev (map (\<lambda>i. (int i, shown (cols ! i))) [0..<length cols]) @ [(- 1, CHR ''x'', CHR ''y'')])"
proof -
  have row: "unat (demo_rows (int y)) = 4096 + 256 * y" if "y \<le> 2" for y
  proof -
    from that consider "y = 0" | "y = 1" | "y = 2" by linarith
    then show ?thesis by cases (simp_all add: demo_rows_def)
  qed
  have "layout demo_rows (length ''ab'') (length ''b'')"
    unfolding layout_def using row by (auto simp: demo_rows_def)
  from diff_optimal [OF this, of "CHR ''x''" "CHR ''y''"] show ?thesis
    by (auto simp: demo_rows_def)
qed

end
