(* ===== verification/StringUtils.thy ===== *)
theory StringUtils
  imports Prelude
begin

text \<open>
  \<open>utils/stringutils.cpp\<close>: trimming, splitting, prefix and suffix tests, hexadecimal dumps and IPv4
  addresses. The C library functions the code calls (\<open>isspace\<close>, \<open>std::getline\<close>, \<open>inet_pton\<close>,
  \<open>inet_ntoa\<close>, decimal output of a stream) are modelled by what their documentation says.
\<close>

section \<open>Characters and numbers\<close>

definition char_code :: "char \<Rightarrow> nat" where
  "char_code c = of_char c"

definition isspace :: "char \<Rightarrow> bool" where
  "isspace c \<longleftrightarrow> char_code c = 32 \<or> (9 \<le> char_code c \<and> char_code c \<le> 13)"

definition digit :: "nat \<Rightarrow> char" where
  "digit d = char_of (48 + d)"

definition isdigit :: "char \<Rightarrow> bool" where
  "isdigit c \<longleftrightarrow> 48 \<le> char_code c \<and> char_code c \<le> 57"

fun show_nat :: "nat \<Rightarrow> string" where
  "show_nat n = (if n < 10 then [digit n] else show_nat (n div 10) @ [digit (n mod 10)])"

declare show_nat.simps [simp del]

definition crlf :: string where "crlf = [CHR 0x0D, CHR 0x0A]"

section \<open>stringutils.cpp\<close>

definition ltrim :: "string \<Rightarrow> string" where
  "ltrim s = dropWhile isspace s"

definition rtrim :: "string \<Rightarrow> string" where
  "rtrim s = rev (dropWhile isspace (rev s))"

definition trim :: "string \<Rightarrow> string" where
  "trim s = ltrim (rtrim s)"

text \<open>
  The loop over \<open>std::getline\<close>: it fails at the end of the stream, so an empty string has no parts
  and a delimiter at the end adds none.
\<close>

function (sequential) split :: "string \<Rightarrow> char \<Rightarrow> string list" where
  "split [] delim = []"
| "split s delim =
     takeWhile (\<lambda>c. c \<noteq> delim) s # split (drop 1 (dropWhile (\<lambda>c. c \<noteq> delim) s)) delim"
  by pat_completeness auto

termination
  by (relation "measure (\<lambda>(s, d). length s)")
    (auto simp: less_Suc_eq_le intro: order_trans [OF diff_le_self] length_dropWhile_le)

definition lut :: string where "lut = ''0123456789ABCDEF''"

definition string_to_hex :: "string \<Rightarrow> string" where
  "string_to_hex input =
     concat (map (\<lambda>c. [lut ! (char_code c div 16), lut ! (char_code c mod 16)]) input)"

definition startswith :: "string \<Rightarrow> string \<Rightarrow> bool" where
  "startswith haystack needle \<longleftrightarrow>
     length needle \<le> length haystack \<and> take (length needle) haystack = needle"

definition endswith :: "string \<Rightarrow> string \<Rightarrow> bool" where
  "endswith haystack needle \<longleftrightarrow>
     length needle \<le> length haystack \<and> drop (length haystack - length needle) haystack = needle"

text \<open>
  \<open>inet_pton(AF_INET, ...)\<close>: four decimal numbers up to 255 without leading zeros, separated by
  dots. The state is the octets so far, the number being read and whether it has a digit.
\<close>

fun pton4 :: "string \<Rightarrow> nat list \<Rightarrow> nat \<Rightarrow> bool \<Rightarrow> nat list option" where
  "pton4 [] done cur seen = (if seen \<and> length done = 3 then Some (done @ [cur]) else None)"
| "pton4 (c # cs) done cur seen =
     (if isdigit c
      then (let new = cur * 10 + (char_code c - 48)
            in if seen \<and> cur = 0 \<or> 255 < new then None
               else if \<not> seen \<and> length done = 4 then None
               else pton4 cs done new True)
      else if char_code c = 46 \<and> seen
      then (if length done = 3 then None else pton4 cs (done @ [cur]) 0 False)
      else None)"

definition c_str :: "string \<Rightarrow> string" where
  "c_str s = takeWhile (\<lambda>c. char_code c \<noteq> 0) s"

definition inet_pton :: "string \<Rightarrow> nat list option" where
  "inet_pton s = pton4 s [] 0 False"

definition parse_internet_address :: "string \<Rightarrow> u64" where
  "parse_internet_address ip_address =
     (case inet_pton (c_str ip_address) of
        None \<Rightarrow> 0
      | Some buf \<Rightarrow> foldl (\<lambda>ip b. push_bit 8 ip OR (of_nat b AND 255)) 0 buf)"

text \<open>
  \<open>htonl\<close> swaps the bytes of its 32-bit argument on a little-endian machine, and \<open>inet_ntoa\<close> prints
  the bytes in the order they have in memory.
\<close>

definition htonl :: "u32 \<Rightarrow> u32" where
  "htonl x = push_bit 24 (x AND 255) OR push_bit 8 (x AND 65280) OR
     drop_bit 8 (x AND 16711680) OR drop_bit 24 x"

definition inet_ntoa :: "u32 \<Rightarrow> string" where
  "inet_ntoa a =
     show_nat (unat (a AND 255)) @ ''.'' @ show_nat (unat (drop_bit 8 a AND 255)) @ ''.'' @
     show_nat (unat (drop_bit 16 a AND 255)) @ ''.'' @ show_nat (unat (drop_bit 24 a AND 255))"

definition unparse_internet_address :: "u64 \<Rightarrow> string" where
  "unparse_internet_address ip_address = inet_ntoa (htonl (ucast ip_address))"

section \<open>Decimal numbers\<close>

lemma char_code_digit: "d < 10 \<Longrightarrow> char_code (digit d) = 48 + d"
  by (simp add: char_code_def digit_def of_char_of)

lemma isdigit_digit: "d < 10 \<Longrightarrow> isdigit (digit d)"
  by (simp add: isdigit_def char_code_digit)

lemma show_nat_small: "n < 10 \<Longrightarrow> show_nat n = [digit n]"
  by (simp add: show_nat.simps)

lemma show_nat_step: "10 \<le> n \<Longrightarrow> show_nat n = show_nat (n div 10) @ [digit (n mod 10)]"
  by (subst show_nat.simps) simp

lemma show_nat_ne: "show_nat n \<noteq> []"
  by (subst show_nat.simps) simp

lemma set_show_nat: "c \<in> set (show_nat n) \<Longrightarrow> isdigit c"
proof (induction n rule: show_nat.induct)
  case (1 n)
  then show ?case
    by (subst (asm) show_nat.simps) (auto simp: isdigit_digit split: if_splits)
qed

section \<open>Trimming\<close>

lemma rtrim_decomp: "\<exists>b. s = rtrim s @ b \<and> list_all isspace b"
proof -
  have "s = rev (dropWhile isspace (rev s)) @ rev (takeWhile isspace (rev s))"
    by (metis rev_append rev_rev_ident takeWhile_dropWhile_id)
  moreover have "list_all isspace (rev (takeWhile isspace (rev s)))"
    by (auto simp: list_all_iff dest: set_takeWhileD)
  ultimately show ?thesis
    unfolding rtrim_def by blast
qed

lemma rtrim_last: "rtrim s \<noteq> [] \<Longrightarrow> \<not> isspace (last (rtrim s))"
  unfolding rtrim_def by (simp add: last_rev hd_dropWhile)

text \<open>
  \<open>trim\<close> removes whitespace at both ends and nothing else: the string is whitespace, the result
  and whitespace, and the result neither starts nor ends with whitespace.
\<close>

theorem trim_exact:
  "(\<exists>a b. s = a @ trim s @ b \<and> list_all isspace a \<and> list_all isspace b) \<and>
   (trim s = [] \<or> \<not> isspace (hd (trim s)) \<and> \<not> isspace (last (trim s)))"
proof -
  obtain b where b: "s = rtrim s @ b" "list_all isspace b"
    using rtrim_decomp by blast
  have l: "rtrim s = takeWhile isspace (rtrim s) @ trim s"
    by (simp add: trim_def ltrim_def)
  have "list_all isspace (takeWhile isspace (rtrim s))"
    by (auto simp: list_all_iff dest: set_takeWhileD)
  moreover have "s = takeWhile isspace (rtrim s) @ trim s @ b"
    using b(1) l by (metis append.assoc)
  moreover have "\<not> isspace (hd (trim s))" if "trim s \<noteq> []"
    using that unfolding trim_def ltrim_def by (simp add: hd_dropWhile)
  moreover have "\<not> isspace (last (trim s))" if t: "trim s \<noteq> []"
  proof -
    have "rtrim s \<noteq> []"
      using l t by auto
    moreover have "last (rtrim s) = last (trim s)"
      using l t by (metis last_appendR)
    ultimately show ?thesis
      using rtrim_last [of s] by simp
  qed
  ultimately show ?thesis
    using b(2) by blast
qed

lemma trim_append_space: "isspace c \<Longrightarrow> trim (s @ [c]) = trim s"
  by (simp add: trim_def rtrim_def)

lemma trim_cons_space:
  assumes "isspace c"
  shows "trim (c # s) = trim s"
proof (cases "rtrim s = []")
  case True
  then have "list_all isspace s"
    by (auto simp: rtrim_def list_all_iff)
  then have "rtrim (c # s) = []"
    using assms by (auto simp: rtrim_def list_all_iff)
  then show ?thesis
    using True by (simp add: trim_def ltrim_def)
next
  case False
  then obtain x where "x \<in> set (rev s)" "\<not> isspace x"
    by (auto simp: rtrim_def)
  then have "rtrim (c # s) = c # rtrim s"
    by (simp add: rtrim_def dropWhile_append1)
  then show ?thesis
    using assms by (simp add: trim_def ltrim_def)
qed

section \<open>Splitting\<close>

fun join :: "char \<Rightarrow> string list \<Rightarrow> string" where
  "join d [] = []"
| "join d [x] = x"
| "join d (x # xs) = x @ d # join d xs"

lemma split_no_delim: "x \<in> set (split s d) \<Longrightarrow> d \<notin> set x"
  by (induction s d rule: split.induct) (auto dest: set_takeWhileD)

lemma split_cons: "d \<notin> set x \<Longrightarrow> split (x @ d # rest) d = x # split rest d"
proof -
  assume d: "d \<notin> set x"
  have "takeWhile (\<lambda>c. c \<noteq> d) (x @ d # rest) = x" "dropWhile (\<lambda>c. c \<noteq> d) (x @ d # rest) = d # rest"
    using d by (induction x) auto
  moreover obtain c cs where "x @ d # rest = c # cs"
    by (cases x) auto
  ultimately show ?thesis
    using split.simps(2) [of c cs d] by simp
qed

lemma split_single: "d \<notin> set x \<Longrightarrow> x \<noteq> [] \<Longrightarrow> split x d = [x]"
proof -
  assume d: "d \<notin> set x" and "x \<noteq> []"
  then obtain c cs where x: "x = c # cs"
    by (cases x) auto
  have "takeWhile (\<lambda>c. c \<noteq> d) x = x" "dropWhile (\<lambda>c. c \<noteq> d) x = []"
    using d by (auto simp: takeWhile_eq_all_conv)
  then show ?thesis
    using split.simps(2) [of c cs d] x by simp
qed

lemma split_Nil_iff: "split s d = [] \<longleftrightarrow> s = []"
  by (cases s) auto

lemma split_join_eq: "s = join d (split s d) \<or> s = join d (split s d) @ [d]"
proof (induction s d rule: split.induct)
  case (2 c cs d)
  let ?s = "c # cs"
  let ?x = "takeWhile (\<lambda>c. c \<noteq> d) ?s" and ?r = "dropWhile (\<lambda>c. c \<noteq> d) ?s"
  have s: "?s = ?x @ ?r"
    by simp
  show ?case
  proof (cases ?r)
    case Nil
    then have "split ?s d = [?x]" "?x = ?s"
      using s split.simps(2) [of c cs d] by (simp_all only: Nil drop_Nil split.simps(1) append_Nil2)
    then show ?thesis
      by (simp only: join.simps) simp
  next
    case (Cons e r)
    then have e: "e = d"
      using hd_dropWhile [of "\<lambda>c. c \<noteq> d" ?s] by auto
    have sp: "split ?s d = ?x # split r d"
      using split.simps(2) [of c cs d] by (simp only: Cons drop_Suc_Cons One_nat_def drop_0)
    have eq: "?s = ?x @ d # r"
      using s by (simp only: Cons e)
    have IH: "r = join d (split r d) \<or> r = join d (split r d) @ [d]"
      using 2 by (simp only: Cons drop_Suc_Cons One_nat_def drop_0)
    show ?thesis
    proof (cases "split r d")
      case Nil
      then have "r = []"
        using split_Nil_iff by blast
      then show ?thesis
        using eq sp Nil by (metis join.simps(2))
    next
      case (Cons y ys)
      then have "join d (split ?s d) = ?x @ d # join d (split r d)"
        by (simp only: sp join.simps)
      then show ?thesis
        using eq IH by (metis append.assoc append_Cons)
    qed
  qed
qed simp

text \<open>
  \<open>split\<close> loses nothing but one delimiter at the end: no part contains the delimiter, and joining
  the parts with it gives the string back, up to a final delimiter.
\<close>

theorem split_join:
  "list_all (\<lambda>x. d \<notin> set x) (split s d) \<and> (s = join d (split s d) \<or> s = join d (split s d) @ [d])"
  using split_join_eq split_no_delim by (metis list_all_iff)

section \<open>IPv4 addresses\<close>

definition ip_octet :: "u64 \<Rightarrow> nat \<Rightarrow> nat" where
  "ip_octet ip i = unat (drop_bit (8 * (3 - i)) ip AND 255)"

lemma u32_masks:
  "(255 :: u32) = mask 8" "(65280 :: u32) = push_bit 8 (mask 8)"
  "(16711680 :: u32) = push_bit 16 (mask 8)" "(255 :: u64) = mask 8"
  by (simp_all add: mask_eq_exp_minus_1 push_bit_eq_mult)

lemma htonl_bytes:
  "htonl x AND 255 = drop_bit 24 x AND 255" "drop_bit 8 (htonl x) AND 255 = drop_bit 16 x AND 255"
  "drop_bit 16 (htonl x) AND 255 = drop_bit 8 x AND 255" "drop_bit 24 (htonl x) AND 255 = x AND 255"
  unfolding htonl_def u32_masks by (rule bit_word_eqI, force simp: bit_simps)+

lemma ucast_octet:
  "k \<le> 24 \<Longrightarrow> unat (drop_bit k (ucast ip :: u32) AND 255) = unat (drop_bit k (ip :: u64) AND 255)"
proof -
  assume k: "k \<le> 24"
  have "drop_bit k (ucast ip :: u32) AND 255 = ucast (drop_bit k ip AND (255 :: u64))"
    unfolding u32_masks using k by (intro bit_word_eqI) (auto simp: bit_simps)
  moreover have "unat (drop_bit k ip AND (255 :: u64)) < 2 ^ 32"
    using word_and_le1 [of "drop_bit k ip" 255] by (simp add: word_le_nat_alt)
  ultimately show ?thesis
    by (simp add: unsigned_ucast_eq take_bit_nat_eq_self)
qed

lemma unparse_octets:
  "unparse_internet_address ip =
     show_nat (ip_octet ip 0) @ ''.'' @ show_nat (ip_octet ip 1) @ ''.'' @
     show_nat (ip_octet ip 2) @ ''.'' @ show_nat (ip_octet ip 3)"
  using ucast_octet [of 0 ip] ucast_octet [of 8 ip] ucast_octet [of 16 ip] ucast_octet [of 24 ip]
  unfolding unparse_internet_address_def inet_ntoa_def htonl_bytes ip_octet_def by simp

lemma pton4_digit:
  assumes "d < 10" and "\<not> (seen \<and> cur = 0)" and "cur * 10 + d \<le> 255" and "length acc \<le> 3"
  shows "pton4 (digit d # cs) acc cur seen = pton4 cs acc (cur * 10 + d) True"
  using assms by (auto simp: isdigit_digit char_code_digit Let_def)

lemma pton4_show:
  assumes n: "n \<le> 255" and l: "length acc \<le> 3"
  shows "pton4 (show_nat n @ rest) acc 0 False = pton4 rest acc n True"
proof -
  consider "n < 10" | "10 \<le> n" "n < 100" | "100 \<le> n"
    by linarith
  then show ?thesis
  proof cases
    case 1
    then show ?thesis
      using n l pton4_digit [of n False 0 acc rest] by (simp add: show_nat_small del: pton4.simps)
  next
    case 2
    then have "show_nat n = [digit (n div 10), digit (n mod 10)]"
      by (simp add: show_nat_step show_nat_small)
    then show ?thesis
      using 2 n l by (simp add: pton4_digit del: pton4.simps)
  next
    case 3
    have "show_nat n = [digit (n div 100), digit (n div 10 mod 10), digit (n mod 10)]"
      using 3 n by (simp add: show_nat_step show_nat_small flip: div_mult2_eq)
    moreover have "n div 100 * 10 + n div 10 mod 10 = n div 10"
      using div_mult2_eq [of n 10 10] by simp
    ultimately show ?thesis
      using 3 n l by (simp add: pton4_digit del: pton4.simps)
  qed
qed

lemma pton4_dot:
  "length acc < 3 \<Longrightarrow> pton4 (CHR ''.'' # cs) acc cur True = pton4 cs (acc @ [cur]) 0 False"
  by (simp add: isdigit_def char_code_def)

lemma inet_pton_show:
  assumes "a \<le> 255" "b \<le> 255" "c \<le> 255" "d \<le> 255"
  shows "inet_pton (show_nat a @ ''.'' @ show_nat b @ ''.'' @ show_nat c @ ''.'' @ show_nat d)
    = Some [a, b, c, d]"
  using assms pton4_show [of d "[a, b, c]" "[]"]
  by (simp add: inet_pton_def pton4_show pton4_dot del: pton4.simps) simp

lemma c_str_id: "(\<And>c. c \<in> set s \<Longrightarrow> char_code c \<noteq> 0) \<Longrightarrow> c_str s = s"
  by (simp add: c_str_def takeWhile_eq_all_conv)

lemma ip_octet_le: "ip_octet ip i \<le> 255"
proof -
  have "drop_bit (8 * (3 - i)) ip AND 255 \<le> 255"
    by (rule word_and_le1)
  then show ?thesis
    by (simp add: ip_octet_def word_le_nat_alt)
qed

lemma octet_step:
  fixes ip :: u64
  assumes "k' = k + 8" and "j' = j + 8"
  shows "push_bit 8 (drop_bit k' ip AND mask j) OR (drop_bit k ip AND mask 8) = drop_bit k ip AND mask j'"
  unfolding assms by (rule bit_word_eqI) (auto simp: bit_simps not_less less_diff_conv2 add.commute)

lemma octets_join:
  "foldl (\<lambda>ip b. push_bit 8 ip OR (of_nat b AND 255)) 0
     [ip_octet ip 0, ip_octet ip 1, ip_octet ip 2, ip_octet ip 3] = ip AND mask 32"
proof -
  have w: "of_nat (ip_octet ip i) AND 255 = drop_bit (8 * (3 - i)) ip AND mask 8" for i
    by (simp add: ip_octet_def and.assoc mask_eq_exp_minus_1)
  have "push_bit 8 0 OR (drop_bit 24 ip AND mask 8) = drop_bit 24 ip AND mask 8"
    by simp
  moreover have "push_bit 8 (drop_bit 24 ip AND mask 8) OR (drop_bit 16 ip AND mask 8) = drop_bit 16 ip AND mask 16"
    "push_bit 8 (drop_bit 16 ip AND mask 16) OR (drop_bit 8 ip AND mask 8) = drop_bit 8 ip AND mask 24"
    "push_bit 8 (drop_bit 8 ip AND mask 24) OR (drop_bit 0 ip AND mask 8) = drop_bit 0 ip AND mask 32"
    by (rule octet_step; simp)+
  moreover have "8 * (3 - 0) = (24 :: nat)" "8 * (3 - 1) = (16 :: nat)" "8 * (3 - 2) = (8 :: nat)"
    "8 * (3 - 3) = (0 :: nat)"
    by simp_all
  ultimately show ?thesis
    by (simp only: foldl.simps w) simp
qed

lemma parse_unparse: "parse_internet_address (unparse_internet_address ip) = ip AND mask 32"
proof -
  have "char_code c \<noteq> 0" if "c \<in> set (unparse_internet_address ip)" for c
    using that
    by (auto simp: unparse_octets char_code_def isdigit_def dest!: set_show_nat)
  then have "c_str (unparse_internet_address ip) = unparse_internet_address ip"
    by (rule c_str_id)
  moreover have "inet_pton (unparse_internet_address ip) =
      Some [ip_octet ip 0, ip_octet ip 1, ip_octet ip 2, ip_octet ip 3]"
    unfolding unparse_octets by (intro inet_pton_show ip_octet_le)
  ultimately show ?thesis
    by (simp only: parse_internet_address_def option.case octets_join)
qed

text \<open>
  C27. Printing an address and parsing it again gives the low 32 bits of the address back, so the two
  functions are inverse on IPv4 addresses.
\<close>

theorem parse_unparse_address: "parse_internet_address (unparse_internet_address ip) = ip AND mask 32"
  by (rule parse_unparse)

end
