(* ===== verification/ObjUtils.thy ===== *)
theory ObjUtils
  imports StringUtils
begin

text \<open>
  \<open>utils/objutils.h\<close>: printing of a vector. What \<open>operator<<\<close> writes for the address and for the elements are
  arguments. \<open>pretty_print_map\<close> cannot be instantiated, because its loop variable is a pair and not an
  iterator, and has no model.
\<close>

definition endl :: string where "endl = [CHR 0x0A]"

text \<open>The loop; the distance to the end is the number of elements that are left.\<close>

fun print_elements :: "('a \<Rightarrow> string) \<Rightarrow> 'a list \<Rightarrow> string" where
  "print_elements put [] = []"
| "print_elements put (x # v) = put x @ (if length (x # v) > 1 then '', '' else []) @ print_elements put v"

definition pretty_print_vector :: "string \<Rightarrow> ('a \<Rightarrow> string) \<Rightarrow> 'a list \<Rightarrow> string" where
  "pretty_print_vector addr put v =
     ''Vector('' @ addr @ '') {'' @ endl @ print_elements put v @ endl @ ''}'' @ endl"

text \<open>The elements are read back from the second line by splitting at commas, if no element has one.\<close>

lemma split_elements:
  assumes "list_all (\<lambda>x. CHR '','' \<notin> set (put x) \<and> put x \<noteq> [] \<and> trim (put x) = put x) v"
  shows "map trim (split (print_elements put v) CHR '','') = map put v \<and>
    map trim (split (CHR '' '' # print_elements put v) CHR '','') = (if v = [] then [[]] else map put v)"
  using assms
proof (induction v)
  case (Cons x v)
  let ?c = "CHR '',''"
  have space: "trim (CHR '' '' # s) = trim s" for s
    by (rule trim_cons_space) (simp add: isspace_def char_code_def)
  have x: "?c \<notin> set (put x)" "?c \<notin> set (CHR '' '' # put x)" "put x \<noteq> []" "trim (put x) = put x"
    using Cons.prems by simp_all
  show ?case
  proof (cases "v = []")
    case True
    then show ?thesis
      using split_single [OF x(1) x(3)] split_single [OF x(2)] x(4) space by (simp del: split.simps)
  next
    case False
    then have "print_elements put (x # v) = put x @ ?c # CHR '' '' # print_elements put v"
      by (cases v) simp_all
    moreover have "split (CHR '' '' # put x @ ?c # r) ?c = (CHR '' '' # put x) # split r ?c" for r
      using split_cons [OF x(2), of r] by (simp del: split.simps)
    ultimately show ?thesis
      using split_cons [OF x(1)] x(4) space Cons False by (simp del: split.simps print_elements.simps)
  qed
qed (simp add: trim_def ltrim_def rtrim_def isspace_def char_code_def)

text \<open>
  What is printed for a vector has three lines, and its elements are those of the vector: they are the trimmed parts
  of the second line between the commas.
\<close>

theorem pretty_print_vector_lines:
  assumes "list_all (\<lambda>x. CHR '','' \<notin> set (put x) \<and> CHR 0x0A \<notin> set (put x) \<and> put x \<noteq> [] \<and> trim (put x) = put x) v"
    and "CHR 0x0A \<notin> set addr"
  shows "case split (pretty_print_vector addr put v) (CHR 0x0A) of
      [first, second, third] \<Rightarrow> first = ''Vector('' @ addr @ '') {'' \<and> third = ''}'' \<and>
        map trim (split second CHR '','') = map put v
    | _ \<Rightarrow> False"
proof -
  have "CHR 0x0A \<notin> set (print_elements put v)"
    using assms(1) by (induction v) auto
  moreover have "CHR 0x0A \<notin> set (''Vector('' @ addr @ '') {'')"
    using assms(2) by simp
  ultimately have "split (pretty_print_vector addr put v) (CHR 0x0A) =
      [''Vector('' @ addr @ '') {'', print_elements put v, ''}'']"
    using split_cons [of "CHR 0x0A" "''Vector('' @ addr @ '') {''" "print_elements put v @ endl @ ''}'' @ endl"]
      split_cons [of "CHR 0x0A" "print_elements put v" "''}'' @ endl"] split_cons [of "CHR 0x0A" "''}''" "[]"]
    by (simp add: pretty_print_vector_def endl_def del: split.simps(2))
  moreover have "map trim (split (print_elements put v) CHR '','') = map put v"
    using assms(1) split_elements [of put v] by (simp add: list_all_iff)
  ultimately show ?thesis
    by simp
qed

end
