(* ===== verification/Peer.thy ===== *)
theory Peer
  imports StringUtils
begin

text \<open>
  \<open>common/peer.h\<close> and \<open>common/peer.cpp\<close>: the identity of a node. Two peers are equal when address
  and port agree; the order that maps and sets of peers use looks at the address only.
\<close>

datatype peer = Peer (internet_address_integer: u64) (port_integer: u16)

record sockaddr_in =
  sin_family :: u16
  sin_port :: u16
  sin_addr :: u32

definition htons :: "u16 \<Rightarrow> u16" where
  "htons x = push_bit 8 (x AND 255) OR drop_bit 8 x"

definition AF_INET :: u16 where "AF_INET = 2"

definition no_peer :: peer where
  "no_peer = Peer 0 0"

text \<open>The class has its own copies of the two conversions of \<open>utils/stringutils.cpp\<close>.\<close>

definition peer_parse_internet_address :: "string \<Rightarrow> u64" where
  "peer_parse_internet_address ip_address =
     (case inet_pton (c_str ip_address) of
        None \<Rightarrow> 0
      | Some buf \<Rightarrow> foldl (\<lambda>ip b. push_bit 8 ip OR (of_nat b AND 255)) 0 buf)"

definition peer_unparse_internet_address :: "u64 \<Rightarrow> string" where
  "peer_unparse_internet_address ip_address = inet_ntoa (htonl (ucast ip_address))"

lemma peer_conversions [simp]:
  "peer_parse_internet_address = parse_internet_address"
  "peer_unparse_internet_address = unparse_internet_address"
  by (rule ext, simp add: peer_parse_internet_address_def parse_internet_address_def)
    (rule ext, simp add: peer_unparse_internet_address_def unparse_internet_address_def)

definition Peer_sockaddr :: "sockaddr_in \<Rightarrow> peer" where
  "Peer_sockaddr client_name = Peer (peer_parse_internet_address (inet_ntoa (sin_addr client_name))) 8080"

definition Peer_string :: "string \<Rightarrow> u16 \<Rightarrow> peer" where
  "Peer_string internet_address port = Peer (peer_parse_internet_address internet_address) port"

definition get_string :: "peer \<Rightarrow> string" where
  "get_string p =
     peer_unparse_internet_address (internet_address_integer p) @ '':'' @ show_nat (unat (port_integer p))"

definition get_canonical_id :: "peer \<Rightarrow> u64" where
  "get_canonical_id p = internet_address_integer p"

definition get_port :: "peer \<Rightarrow> u16" where
  "get_port p = port_integer p"

definition get_socket :: "peer \<Rightarrow> sockaddr_in" where
  "get_socket p =
     \<lparr>sin_family = AF_INET, sin_port = htons (port_integer p),
      sin_addr = htonl (ucast (internet_address_integer p AND 4294967295))\<rparr>"

definition peer_eq :: "peer \<Rightarrow> peer \<Rightarrow> bool" where
  "peer_eq p q \<longleftrightarrow> get_canonical_id p = get_canonical_id q \<and> get_port p = get_port q"

definition peer_ne :: "peer \<Rightarrow> peer \<Rightarrow> bool" where
  "peer_ne p q \<longleftrightarrow> \<not> peer_eq p q"

text \<open>The specialisation of \<open>std::less\<close>, which orders peers in maps and sets by their address alone.\<close>

definition peer_less :: "peer \<Rightarrow> peer \<Rightarrow> bool" where
  "peer_less lhs rhs \<longleftrightarrow> get_canonical_id lhs < get_canonical_id rhs"

instantiation peer :: preorder
begin

definition less_eq_peer :: "peer \<Rightarrow> peer \<Rightarrow> bool" where
  "less_eq_peer p q \<longleftrightarrow> get_canonical_id p \<le> get_canonical_id q"

definition less_peer :: "peer \<Rightarrow> peer \<Rightarrow> bool" where
  "less_peer p q \<longleftrightarrow> peer_less p q"

instance
  by standard (auto simp: less_eq_peer_def less_peer_def peer_less_def)

end

lemma peer_eq_iff [simp]: "peer_eq p q \<longleftrightarrow> p = q"
  by (cases p; cases q) (auto simp: peer_eq_def get_canonical_id_def get_port_def)

lemma peer_ne_iff [simp]: "peer_ne p q \<longleftrightarrow> p \<noteq> q"
  by (simp add: peer_ne_def)

text \<open>
  A peer made from the socket name that \<open>get_socket\<close> gives has the IPv4 address back but always
  port 8080: the real port is lost.
\<close>

theorem socket_roundtrip:
  "Peer_sockaddr (get_socket p) = Peer (get_canonical_id p AND mask 32) 8080"
proof -
  let ?ip = "internet_address_integer p AND 4294967295"
  have "inet_ntoa (htonl (ucast ?ip)) = unparse_internet_address ?ip"
    by (simp add: unparse_internet_address_def)
  then have "Peer_sockaddr (get_socket p) = Peer (?ip AND mask 32) 8080"
    by (simp add: Peer_sockaddr_def get_socket_def parse_unparse)
  moreover have "(4294967295 :: u64) = mask 32"
    by (simp add: mask_eq_exp_minus_1)
  ultimately show ?thesis
    by (simp add: get_canonical_id_def and.assoc)
qed

end
