(* ===== verification/Transport.thy ===== *)
theory Transport
  imports Peer
begin

text \<open>
  \<open>http/transport.cpp\<close>: HTTP over UDP. The system is a parameter: the results of the calls that set the
  socket up, what each \<open>sendto\<close> returns, and what each \<open>recvfrom\<close> returns and puts into the buffer.
  The transports that are only declared (TCP, RDP) have no code.
\<close>

definition UDP_TIMEOUT_100_MS :: nat where "UDP_TIMEOUT_100_MS = 100000"
definition UDP_BUFSIZE :: nat where "UDP_BUFSIZE = 65507"

record udp_transport =
  sock :: int
  rcvtimeo_usec :: nat
  dst_addr :: sockaddr_in
  listen_addr :: sockaddr_in

record udp_setup =
  res_socket :: int
  res_setsockopt :: int
  res_bind :: int

definition UDPTransport :: "udp_setup \<Rightarrow> u64 \<Rightarrow> u16 \<Rightarrow> u16 \<Rightarrow> udp_transport result" where
  "UDPTransport sys dest_addr dest_port listen_port =
     (if res_socket sys < 0 then Inl Exited
      else if res_setsockopt sys < 0 then Inl Exited
      else if res_bind sys < 0 then Inl Exited
      else Inr \<lparr>sock = res_socket sys, rcvtimeo_usec = UDP_TIMEOUT_100_MS,
                dst_addr = \<lparr>sin_family = AF_INET, sin_port = htons dest_port,
                  sin_addr = htonl (ucast (dest_addr AND 0xFFFFFFFF))\<rparr>,
                listen_addr = \<lparr>sin_family = AF_INET, sin_port = htons listen_port, sin_addr = htonl 0\<rparr>\<rparr>)"

text \<open>Each element is what \<open>recvfrom\<close> returns and the datagram it had; a longer one is cut off.\<close>

fun udp_read :: "(int \<times> string) list \<Rightarrow> string" where
  "udp_read [] = []"
| "udp_read ((recvlen, buf) # rs) =
     (if 0 < recvlen then take (nat recvlen) (take UDP_BUFSIZE buf) @ udp_read rs else [])"

text \<open>
  \<open>write\<close>: the list holds the results of the calls of \<open>sendto\<close>; the result of the model is nothing when
  the loop goes on after them, else the bytes that were offered in each call and whether the loop
  ended or \<open>substr\<close> threw. The result of \<open>sendto\<close> goes through an unsigned 32-bit variable, so the
  test for a negative one never succeeds.
\<close>

fun udp_write_loop :: "string \<Rightarrow> u32 \<Rightarrow> int list \<Rightarrow> (string list \<times> unit result) option" where
  "udp_write_loop http total_sent rs =
     (if unat total_sent = length http then Some ([], Inr ())
      else if length http < unat total_sent then Some ([], Inl (Uncaught out_of_range))
      else case rs of
             [] \<Rightarrow> None
           | r # rs \<Rightarrow>
               (let sent = word_of_int r :: u32
                in map_option (\<lambda>(offers, e). (drop (unat total_sent) http # offers, e))
                     (udp_write_loop http (total_sent + sent) rs)))"

declare udp_write_loop.simps [simp del]

definition udp_write :: "string \<Rightarrow> int list \<Rightarrow> (string list \<times> unit result) option" where
  "udp_write http rs = udp_write_loop http 0 rs"

section \<open>Datagrams\<close>

text \<open>
  What is documented of \<open>sendto\<close> on a datagram socket: a message is accepted whole, in which case its length is
  returned, or refused with -1; one of more than 65507 bytes, which no IPv4 datagram can carry, is
  refused. The network may lose, repeat and reorder datagrams but does not join or cut them; \<open>arrival\<close> is what
  \<open>recvfrom\<close> returns for a datagram.
\<close>

definition sendto_datagram :: "string \<Rightarrow> int \<Rightarrow> bool" where
  "sendto_datagram msg r \<longleftrightarrow> r = - 1 \<or> r = int (length msg) \<and> length msg \<le> 65507"

definition arrival :: "string \<Rightarrow> int \<times> string" where
  "arrival d = (int (length d), d)"

lemma udp_write_once:
  assumes "http \<noteq> []" and "length http < 2 ^ 32 - 1" and "sendto_datagram http r"
  shows "udp_write http (r # rs) = Some ([http], if r = - 1 then Inl (Uncaught out_of_range) else Inr ())"
proof (cases "r = - 1")
  case True
  have "unat (- 1 :: u32) = 2 ^ 32 - 1"
    by (simp add: unsigned_minus_1_eq_mask mask_eq_exp_minus_1)
  then show ?thesis
    unfolding udp_write_def using assms(1,2) True
    by (subst udp_write_loop.simps, subst udp_write_loop.simps) (simp add: Let_def)
next
  case False
  then have r: "(word_of_int r :: u32) = of_nat (length http)"
    using assms(3) by (simp add: sendto_datagram_def)
  have "unat (of_nat (length http) :: u32) = length http"
    by (rule of_nat_inverse [OF refl]) (use assms(2) in simp)
  then show ?thesis
    unfolding udp_write_def using assms(1) False r
    by (subst udp_write_loop.simps, subst udp_write_loop.simps) (simp add: Let_def)
qed

lemma udp_read_all:
  assumes "list_all (\<lambda>d. d \<noteq> [] \<and> length d \<le> UDP_BUFSIZE) ds" and "r \<le> 0"
  shows "udp_read (map arrival ds @ [(r, junk)]) = concat ds"
  using assms by (induction ds) (auto simp: arrival_def)

text \<open>
  C40. HTTP over UDP. \<open>write\<close> hands a message that is not empty to the system in one piece: it is one datagram, or,
  when the system refuses it (as it does from 65508 bytes on), \<open>write\<close> ends in an exception, because
  the test for an error compares an unsigned number. \<open>read\<close> joins all datagrams of such messages that
  arrive before its socket times out, in the order in which they arrive. So it returns a message
  alone when exactly its datagram arrives, returns two messages as one when both do, and
  nothing tells that one was lost or came twice.
\<close>

theorem udp_messages:
  assumes "list_all (\<lambda>(http, r). http \<noteq> [] \<and> length http < 2 ^ 32 - 1 \<and> sendto_datagram http r) sent"
    and "set ds \<subseteq> {http. \<exists>r. (http, r) \<in> set sent \<and> r \<noteq> - 1}" and "t \<le> 0"
  shows "list_all (\<lambda>(http, r). udp_write http [r] =
      Some ([http], if r = - 1 \<or> 65507 < length http then Inl (Uncaught out_of_range) else Inr ())) sent \<and>
    udp_read (map arrival ds @ [(t, junk)]) = concat ds"
proof
  have "udp_write http [r] = Some ([http], if r = - 1 \<or> 65507 < length http then Inl (Uncaught out_of_range) else Inr ())"
    if "(http, r) \<in> set sent" for http r
  proof -
    have ok: "http \<noteq> []" "length http < 2 ^ 32 - 1" "sendto_datagram http r"
      using assms(1) that by (auto simp: list_all_iff)
    moreover from this(3) have "r = - 1 \<or> 65507 < length http \<longleftrightarrow> r = - 1"
      by (auto simp: sendto_datagram_def)
    ultimately show ?thesis
      using udp_write_once [OF ok, of "[]"] by presburger
  qed
  then show "list_all (\<lambda>(http, r). udp_write http [r] =
      Some ([http], if r = - 1 \<or> 65507 < length http then Inl (Uncaught out_of_range) else Inr ())) sent"
    by (auto simp: list_all_iff)
  have "list_all (\<lambda>d. d \<noteq> [] \<and> length d \<le> UDP_BUFSIZE) ds"
    using assms(1,2) by (fastforce simp: list_all_iff sendto_datagram_def UDP_BUFSIZE_def)
  then show "udp_read (map arrival ds @ [(t, junk)]) = concat ds"
    by (rule udp_read_all [OF _ assms(3)])
qed

theorem udp_messages_witness:
  "udp_write ''GET /admin'' [10] = Some ([''GET /admin''], Inr ()) \<and>
   udp_write ''late'' [- 1] = Some ([''late''], Inl (Uncaught out_of_range)) \<and>
   udp_read (map arrival [''GET /'', ''GET /admin'', ''GET /''] @ [(- 1, [])]) = ''GET /GET /adminGET /''"
  using udp_messages [of "[(''GET /admin'', 10), (''late'', - 1), (''GET /'', 5)]" "[''GET /'', ''GET /admin'', ''GET /'']" "- 1" "[]"]
  by (simp add: sendto_datagram_def)

end
