(* ===== verification/Logging.thy ===== *)
theory Logging
  imports StringUtils
begin

text \<open>
  \<open>utils/logging.cpp\<close>: the line that a log message becomes. The time is a parameter, the text that
  \<open>strftime\<close> makes of it.
\<close>

definition coloured :: "string \<Rightarrow> string \<Rightarrow> string" where
  "coloured code message = CHR 0x1B # code @ message @ CHR 0x1B # ''[0m''"

definition L_RED :: "string \<Rightarrow> string" where "L_RED = coloured ''[0;31m''"
definition L_YELLOW :: "string \<Rightarrow> string" where "L_YELLOW = coloured ''[0;33m''"
definition L_GREEN :: "string \<Rightarrow> string" where "L_GREEN = coloured ''[0;32m''"
definition L_BLUE :: "string \<Rightarrow> string" where "L_BLUE = coloured ''[0;34m''"
definition L_GREY :: "string \<Rightarrow> string" where "L_GREY = coloured ''[0;37m''"

definition level_string :: "string \<Rightarrow> string" where
  "level_string level =
     (if level = ''DEBUG'' then L_GREY (''  ['' @ level @ '']'')
      else if level = ''INFO'' then L_GREEN (''   ['' @ level @ '']'')
      else if level = ''WARNING'' then L_YELLOW (''['' @ level @ '']'')
      else if level = ''ERROR'' then L_RED (''  ['' @ level @ '']'')
      else if level = ''APP'' then L_BLUE (''    ['' @ level @ '']'')
      else level)"

text \<open>\<open>at\<close> throws when the path of the module has no parts.\<close>

definition log_line :: "string \<Rightarrow> string \<Rightarrow> string \<Rightarrow> string \<Rightarrow> string result" where
  "log_line utc_now module level raw_message =
     (let path_parts = split (c_str module) (CHR ''/'')
      in if path_parts = [] then Inl (Uncaught out_of_range)
         else Inr (c_str
                (c_str (level_string (c_str level)) @ '' - '' @ trim utc_now @ '' - '' @
                 take 6 (trim (last path_parts)) @ '' - '' @ trim (c_str raw_message) @ [CHR 0x0A])))"

text \<open>The levels are padded to the same width.\<close>

lemma level_strings:
  "level_string ''DEBUG'' = coloured ''[0;37m'' ''  [DEBUG]''"
  "level_string ''INFO'' = coloured ''[0;32m'' ''   [INFO]''"
  "level_string ''WARNING'' = coloured ''[0;33m'' ''[WARNING]''"
  "level_string ''ERROR'' = coloured ''[0;31m'' ''  [ERROR]''"
  "level_string ''APP'' = coloured ''[0;34m'' ''    [APP]''"
  by (simp_all add: level_string_def L_RED_def L_YELLOW_def L_GREEN_def L_BLUE_def L_GREY_def)

lemma level_width:
  "list_all (\<lambda>level. length (level_string level) = 20) [''DEBUG'', ''INFO'', ''WARNING'', ''ERROR'', ''APP'']"
  by (simp add: level_strings coloured_def)

lemma log_line_throws: "log_line utc_now [] level raw_message = Inl (Uncaught out_of_range)"
  by (simp add: log_line_def c_str_def)

end
