(* ===== verification/JsonLexer.thy ===== *)
theory JsonLexer
  imports StringUtils "HOL-Library.Sublist"
begin

text \<open>
  The scanner of the JSON library (\<open>external/json.hpp\<close>, class \<open>lexer\<close>). A pointer into the text is the
  rest of the buffer from there, with the terminating null character as its last element; reading
  behind that is \<open>Undefined\<close>. The function \<open>scan\<close> of the library is a state machine with one label per
  state: here each label, or each loop of labels, is a function of the pointer \<open>m_cursor\<close>, and where the
  code goes back to \<open>m_marker\<close> the function returns the pointer it was called with.
\<close>

definition nul :: char where "nul = CHR 0x00"

definition deref :: "string \<Rightarrow> char result" where
  "deref p = (case p of [] \<Rightarrow> Inl Undefined | c # _ \<Rightarrow> Inr c)"

lemma deref_simps [simp]: "deref [] = Inl Undefined" "deref (c # p) = Inr c"
  by (simp_all add: deref_def)

datatype token =
    uninitialized | literal_true | literal_false | literal_null | value_string | value_number
  | begin_array | begin_object | end_array | end_object | name_separator | value_separator
  | parse_error | end_of_input

text \<open>
  The table of character classes: 32 is a blank, 64 a character that may stand in a string as it is,
  128 a digit. The masks are single bits.
\<close>

definition yybm :: "nat list" where
  "yybm =
     [0, 0, 0, 0, 0, 0, 0, 0,
      0, 32, 32, 0, 0, 32, 0, 0,
      64, 64, 64, 64, 64, 64, 64, 64,
      64, 64, 64, 64, 64, 64, 64, 64,
      96, 64, 0, 64, 64, 64, 64, 64,
      64, 64, 64, 64, 64, 64, 64, 64,
      192, 192, 192, 192, 192, 192, 192, 192,
      192, 192, 64, 64, 64, 64, 64, 64,
      64, 64, 64, 64, 64, 64, 64, 64,
      64, 64, 64, 64, 64, 64, 64, 64,
      64, 64, 64, 64, 64, 64, 64, 64,
      64, 64, 64, 64, 0, 64, 64, 64,
      64, 64, 64, 64, 64, 64, 64, 64,
      64, 64, 64, 64, 64, 64, 64, 64,
      64, 64, 64, 64, 64, 64, 64, 64,
      64, 64, 64, 64, 64, 64, 64, 64,
      64, 64, 64, 64, 64, 64, 64, 64,
      64, 64, 64, 64, 64, 64, 64, 64,
      64, 64, 64, 64, 64, 64, 64, 64,
      64, 64, 64, 64, 64, 64, 64, 64,
      64, 64, 64, 64, 64, 64, 64, 64,
      64, 64, 64, 64, 64, 64, 64, 64,
      64, 64, 64, 64, 64, 64, 64, 64,
      64, 64, 64, 64, 64, 64, 64, 64,
      64, 64, 64, 64, 64, 64, 64, 64,
      64, 64, 64, 64, 64, 64, 64, 64,
      64, 64, 64, 64, 64, 64, 64, 64,
      64, 64, 64, 64, 64, 64, 64, 64,
      64, 64, 64, 64, 64, 64, 64, 64,
      64, 64, 64, 64, 64, 64, 64, 64,
      64, 64, 64, 64, 64, 64, 64, 64,
      64, 64, 64, 64, 64, 64, 64, 64]"

definition yybm_has :: "nat \<Rightarrow> char \<Rightarrow> bool" where
  "yybm_has m c \<longleftrightarrow> (yybm ! char_code c) div m mod 2 = 1"

section \<open>Blanks, words, strings\<close>

text \<open>Labels 2 to 5: skip blanks.\<close>

fun scan_blanks :: "string \<Rightarrow> string result" where
  "scan_blanks [] = Inl Undefined"
| "scan_blanks (c # p) = (if yybm_has 32 c then scan_blanks p else Inr (c # p))"

text \<open>Labels 50 to 62: the letters of \<open>false\<close>, \<open>true\<close> and \<open>null\<close> behind the first.\<close>

fun scan_word :: "string \<Rightarrow> string \<Rightarrow> string option result" where
  "scan_word [] p = Inr (Some p)"
| "scan_word (w # ws) [] = Inl Undefined"
| "scan_word (w # ws) (c # p) = (if c \<noteq> w then Inr None else scan_word ws p)"

definition is_hex :: "char \<Rightarrow> bool" where
  "is_hex c \<longleftrightarrow> isdigit c \<or> 65 \<le> char_code c \<and> char_code c \<le> 70 \<or> 97 \<le> char_code c \<and> char_code c \<le> 102"

definition simple_escapes :: string where
  "simple_escapes = [CHR 0x22, CHR ''/'', CHR 0x5C, CHR ''b'', CHR ''f'', CHR ''n'', CHR ''r'', CHR ''t'']"

text \<open>
  Labels 30 and 31 (inside a string), 33 (behind a backslash) and 36 to 39 (the digits of \<open>\u\<close>). The
  result is the pointer behind the closing quote, \<open>None\<close> at label 32.
\<close>

fun scan_31 :: "string \<Rightarrow> string option result"
  and scan_33 :: "string \<Rightarrow> string option result"
  and scan_36 :: "string \<Rightarrow> string option result"
  and scan_37 :: "string \<Rightarrow> string option result"
  and scan_38 :: "string \<Rightarrow> string option result"
  and scan_39 :: "string \<Rightarrow> string option result" where
  "scan_31 [] = Inl Undefined"
| "scan_31 (c # p) =
     (if yybm_has 64 c then scan_31 p
      else if char_code c \<le> 15 then Inr None
      else if char_code c \<le> 34 then Inr (Some p)
      else scan_33 p)"
| "scan_33 [] = Inl Undefined"
| "scan_33 (c # p) =
     (if c \<in> set simple_escapes then scan_31 p
      else if c = CHR ''u'' then scan_36 p
      else Inr None)"
| "scan_36 [] = Inl Undefined"
| "scan_36 (c # p) = (if is_hex c then scan_37 p else Inr None)"
| "scan_37 [] = Inl Undefined"
| "scan_37 (c # p) = (if is_hex c then scan_38 p else Inr None)"
| "scan_38 [] = Inl Undefined"
| "scan_38 (c # p) = (if is_hex c then scan_39 p else Inr None)"
| "scan_39 [] = Inl Undefined"
| "scan_39 (c # p) = (if is_hex c then scan_31 p else Inr None)"

section \<open>Numbers\<close>

text \<open>Label 45: the digits of the exponent.\<close>

fun scan_45 :: "string \<Rightarrow> string result" where
  "scan_45 [] = Inl Undefined"
| "scan_45 (c # p) = (if isdigit c then scan_45 p else Inr (c # p))"

text \<open>Label 44: behind the sign of the exponent, where a digit must follow.\<close>

definition scan_44 :: "string \<Rightarrow> string \<Rightarrow> string result" where
  "scan_44 marker p = rbind (deref p) (\<lambda>c. if isdigit c then scan_45 (tl p) else Inr marker)"

text \<open>Label 43: behind \<open>e\<close> or \<open>E\<close>.\<close>

definition scan_43 :: "string \<Rightarrow> string \<Rightarrow> string result" where
  "scan_43 marker p =
     rbind (deref p)
       (\<lambda>c. if c = CHR ''+'' \<or> c = CHR ''-'' then scan_44 marker (tl p)
             else if isdigit c then scan_45 (tl p)
             else Inr marker)"

definition is_exp :: "char \<Rightarrow> bool" where
  "is_exp c \<longleftrightarrow> c = CHR ''E'' \<or> c = CHR ''e''"

text \<open>Label 47: the digits of the fraction behind the first; \<open>m_marker\<close> moves along.\<close>

fun scan_47 :: "string \<Rightarrow> string result" where
  "scan_47 [] = Inl Undefined"
| "scan_47 (c # p) =
     (if isdigit c then scan_47 p else if is_exp c then scan_43 (c # p) p else Inr (c # p))"

text \<open>Label 42: behind the decimal point.\<close>

definition scan_42 :: "string \<Rightarrow> string \<Rightarrow> string result" where
  "scan_42 marker p = rbind (deref p) (\<lambda>c. if isdigit c then scan_47 (tl p) else Inr marker)"

text \<open>Labels 23 and 49: behind a leading zero.\<close>

definition scan_23 :: "string \<Rightarrow> string result" where
  "scan_23 p =
     rbind (deref p)
       (\<lambda>c. if c = CHR ''.'' then scan_42 p (tl p) else if is_exp c then scan_43 p (tl p) else Inr p)"

text \<open>Labels 25, 40 and 41: the digits behind a first digit that is not zero.\<close>

fun scan_41 :: "string \<Rightarrow> string result" where
  "scan_41 [] = Inl Undefined"
| "scan_41 (c # p) = (if yybm_has 128 c then scan_41 p else scan_23 (c # p))"

text \<open>Label 22: behind a minus sign; \<open>None\<close> is a parse error.\<close>

definition scan_22 :: "string \<Rightarrow> string option result" where
  "scan_22 p =
     rbind (deref p)
       (\<lambda>c. if c = CHR ''0'' then rbind (scan_23 (tl p)) (\<lambda>q. Inr (Some q))
             else if isdigit c then rbind (scan_41 (tl p)) (\<lambda>q. Inr (Some q))
             else Inr None)"

section \<open>scan\<close>

text \<open>
  The value is the token, \<open>m_start\<close> and \<open>m_cursor\<close>. \<open>accept\<close> is label 19 or the label of the token,
  \<open>marker\<close> is where label 32 puts the cursor.
\<close>

definition accept :: "token \<Rightarrow> string \<Rightarrow> string \<Rightarrow> string option \<Rightarrow> (token \<times> string \<times> string) result" where
  "accept t start marker m =
     (case m of None \<Rightarrow> Inr (parse_error, start, marker) | Some p \<Rightarrow> Inr (t, start, p))"

lemma scan_blanks_length [termination_simp]: "scan_blanks p = Inr q \<Longrightarrow> length q \<le> length p"
  by (induction p) (auto split: if_splits)

fun scan :: "string \<Rightarrow> (token \<times> string \<times> string) result" where
  "scan [] = Inl Undefined"
| "scan (c # p) =
     (if c = nul then Inr (end_of_input, c # p, p)
      else if yybm_has 32 c then (case scan_blanks p of Inl e \<Rightarrow> Inl e | Inr q \<Rightarrow> scan q)
      else if c = CHR 0x22
      then rbind (deref p)
             (\<lambda>d. if char_code d \<le> 15 then Inr (parse_error, c # p, p)
                   else rbind (scan_31 p) (accept value_string (c # p) p))
      else if c = CHR '','' then Inr (value_separator, c # p, p)
      else if c = CHR ''-'' then rbind (scan_22 p) (accept value_number (c # p) p)
      else if c = CHR ''0'' then rbind (scan_23 p) (\<lambda>q. Inr (value_number, c # p, q))
      else if isdigit c then rbind (scan_41 p) (\<lambda>q. Inr (value_number, c # p, q))
      else if c = CHR '':'' then Inr (name_separator, c # p, p)
      else if c = CHR ''['' then Inr (begin_array, c # p, p)
      else if c = CHR '']'' then Inr (end_array, c # p, p)
      else if c = CHR ''f'' then rbind (scan_word ''alse'' p) (accept literal_false (c # p) p)
      else if c = CHR ''n'' then rbind (scan_word ''ull'' p) (accept literal_null (c # p) p)
      else if c = CHR ''t'' then rbind (scan_word ''rue'' p) (accept literal_true (c # p) p)
      else if c = CHR ''{'' then Inr (begin_object, c # p, p)
      else if c = CHR ''}'' then Inr (end_object, c # p, p)
      else rbind (deref p) (\<lambda>_. Inr (parse_error, c # p, p)))"

declare scan.simps [simp del]

section \<open>Character classes\<close>

definition is_blank :: "char \<Rightarrow> bool" where
  "is_blank c \<longleftrightarrow> char_code c = 9 \<or> char_code c = 10 \<or> char_code c = 13 \<or> char_code c = 32"

definition is_plain :: "char \<Rightarrow> bool" where
  "is_plain c \<longleftrightarrow> 16 \<le> char_code c \<and> char_code c \<noteq> 34 \<and> char_code c \<noteq> 92"

lemma yybm_classes:
  "list_all2 (\<lambda>v n. (v div 32 mod 2 = 1 \<longleftrightarrow> n = 9 \<or> n = 10 \<or> n = 13 \<or> n = 32) \<and>
     (v div 64 mod 2 = 1 \<longleftrightarrow> 16 \<le> n \<and> n \<noteq> 34 \<and> n \<noteq> 92) \<and>
     (v div 128 mod 2 = 1 \<longleftrightarrow> 48 \<le> n \<and> n \<le> 57)) yybm [0..<256]"
proof -
  have "[0..<256] = 0 # 1 # [2..<256]"
    by (simp add: upt_conv_Cons numeral_2_eq_2)
  then show ?thesis
    unfolding yybm_def by (simp add: upt_rec_numeral)
qed

lemma char_code_less: "char_code c < 256"
  by (simp add: char_code_def)

lemma char_code_eq_iff: "char_code c = char_code d \<longleftrightarrow> c = d"
  by (simp add: char_code_def)

lemma yybm_has [simp]:
  "yybm_has 32 c \<longleftrightarrow> is_blank c" "yybm_has 64 c \<longleftrightarrow> is_plain c" "yybm_has 128 c \<longleftrightarrow> isdigit c"
proof -
  have "char_code c < length [0..<256]"
    using char_code_less by simp
  note list_all2_nthD2 [OF yybm_classes this]
  then show "yybm_has 32 c \<longleftrightarrow> is_blank c" "yybm_has 64 c \<longleftrightarrow> is_plain c" "yybm_has 128 c \<longleftrightarrow> isdigit c"
    using char_code_less [of c] by (simp_all add: yybm_has_def is_blank_def is_plain_def isdigit_def)
qed

lemma nul_class [simp]:
  "\<not> is_blank nul" "\<not> is_plain nul" "\<not> isdigit nul" "\<not> is_hex nul" "nul \<notin> set simple_escapes" "char_code nul = 0"
  by (simp_all add: nul_def is_blank_def is_plain_def isdigit_def is_hex_def simple_escapes_def char_code_def)

lemma nul_ne [simp]:
  "nul \<noteq> CHR ''+''" "nul \<noteq> CHR ''-''" "nul \<noteq> CHR ''.''" "nul \<noteq> CHR ''0''" "nul \<noteq> CHR ''E''" "nul \<noteq> CHR ''e''" "nul \<noteq> CHR ''u''"
  by (simp_all add: nul_def)

lemma is_exp_nul [simp]: "\<not> is_exp nul"
  by (simp add: is_exp_def)

section \<open>The scanner stays in the buffer\<close>

text \<open>
  A state that starts at a pointer with a null character ahead ends at such a pointer, no further to the
  left, so a suffix of the text where it started.
\<close>

definition stays :: "string \<Rightarrow> string \<Rightarrow> bool" where
  "stays p q \<longleftrightarrow> nul \<in> set q \<and> suffix q p"

definition stays_res :: "string \<Rightarrow> string result \<Rightarrow> bool" where
  "stays_res p r = (case r of Inl _ \<Rightarrow> False | Inr q \<Rightarrow> stays p q)"

definition stays_opt :: "string \<Rightarrow> string option result \<Rightarrow> bool" where
  "stays_opt p r = (case r of Inl _ \<Rightarrow> False | Inr m \<Rightarrow> case_option True (stays p) m)"

lemma stays_simps [simp]:
  "stays_res p (Inl e) = False" "stays_res p (Inr q) = stays p q"
  "stays_opt p (Inl e) = False" "stays_opt p (Inr None) = True" "stays_opt p (Inr (Some q)) = stays p q"
  by (simp_all add: stays_res_def stays_opt_def)

lemma stays_refl [simp]: "nul \<in> set p \<Longrightarrow> stays p p"
  by (simp add: stays_def)

lemma stays_Cons:
  "stays p q \<Longrightarrow> stays (c # p) q" "stays_res p r \<Longrightarrow> stays_res (c # p) r" "stays_opt p m \<Longrightarrow> stays_opt (c # p) m"
  by (auto simp: stays_def stays_res_def stays_opt_def suffix_Cons split: sum.splits option.splits)

lemma suffix_rest [simp]: "suffix p (c # p)"
  by (simp add: suffix_ConsI)

lemma scan_blanks_stays: "nul \<in> set p \<Longrightarrow> stays_res p (scan_blanks p)"
  by (induction p) (auto intro: stays_Cons simp: stays_def)

lemma scan_word_stays: "nul \<notin> set ws \<Longrightarrow> nul \<in> set p \<Longrightarrow> stays_opt p (scan_word ws p)"
  by (induction ws p rule: scan_word.induct) (auto intro: stays_Cons)

lemma scan_31_stays:
  "nul \<in> set p \<Longrightarrow> stays_opt p (scan_31 p)"
  "nul \<in> set p \<Longrightarrow> stays_opt p (scan_33 p)"
  "nul \<in> set p \<Longrightarrow> stays_opt p (scan_36 p)"
  "nul \<in> set p \<Longrightarrow> stays_opt p (scan_37 p)"
  "nul \<in> set p \<Longrightarrow> stays_opt p (scan_38 p)"
  "nul \<in> set p \<Longrightarrow> stays_opt p (scan_39 p)"
  by (induction p and p and p and p and p and p rule: scan_31_scan_33_scan_36_scan_37_scan_38_scan_39.induct)
    (auto intro: stays_Cons)

lemma scan_45_stays: "nul \<in> set p \<Longrightarrow> stays_res p (scan_45 p)"
  by (induction p) (auto intro: stays_Cons simp: stays_def)

lemma stays_mono:
  "stays p q \<Longrightarrow> suffix p p' \<Longrightarrow> stays p' q"
  "stays_res p r \<Longrightarrow> suffix p p' \<Longrightarrow> stays_res p' r"
  "stays_opt p m \<Longrightarrow> suffix p p' \<Longrightarrow> stays_opt p' m"
  by (auto simp: stays_def stays_res_def stays_opt_def dest: suffix_order.trans split: sum.splits option.splits)

lemma scan_44_stays: "nul \<in> set p \<Longrightarrow> stays p' marker \<Longrightarrow> suffix p p' \<Longrightarrow> stays_res p' (scan_44 marker p)"
  by (cases p) (auto simp: scan_44_def dest: suffix_ConsD intro: stays_mono(2) [OF scan_45_stays])

lemma scan_43_stays: "nul \<in> set p \<Longrightarrow> stays p' marker \<Longrightarrow> suffix p p' \<Longrightarrow> stays_res p' (scan_43 marker p)"
  by (cases p) (auto simp: scan_43_def dest: suffix_ConsD intro: stays_mono(2) [OF scan_45_stays] scan_44_stays)

lemma scan_47_stays: "nul \<in> set p \<Longrightarrow> stays_res p (scan_47 p)"
proof (induction p)
  case (Cons c p)
  then show ?case
    by (auto intro: stays_Cons scan_43_stays)
qed simp

lemma scan_42_stays: "nul \<in> set p \<Longrightarrow> stays p' marker \<Longrightarrow> suffix p p' \<Longrightarrow> stays_res p' (scan_42 marker p)"
  by (cases p) (auto simp: scan_42_def dest: suffix_ConsD intro: stays_mono(2) [OF scan_47_stays])

lemma scan_23_stays: "nul \<in> set p \<Longrightarrow> stays_res p (scan_23 p)"
  by (cases p) (auto simp: scan_23_def intro!: scan_42_stays scan_43_stays)

lemma scan_41_stays: "nul \<in> set p \<Longrightarrow> stays_res p (scan_41 p)"
proof (induction p)
  case (Cons c p)
  then show ?case
    using scan_23_stays [of "c # p"] by (auto intro: stays_Cons)
qed simp

lemma rbind_Some_stays: "stays_res p r \<Longrightarrow> stays_opt p (rbind r (\<lambda>q. Inr (Some q)))"
  by (cases r) auto

lemma scan_22_stays: "nul \<in> set p \<Longrightarrow> stays_opt p (scan_22 p)"
  by (cases p) (auto simp: scan_22_def
      intro!: rbind_Some_stays intro: stays_Cons(2) [OF scan_23_stays] stays_Cons(2) [OF scan_41_stays])

text \<open>
  A scan in a buffer with a null character ahead returns a token and moves on. The token is the end of
  the input, or the null character is still ahead.
\<close>

definition scanned :: "string \<Rightarrow> (token \<times> string \<times> string) result \<Rightarrow> bool" where
  "scanned p r =
     (case r of Inl _ \<Rightarrow> False
      | Inr (t, start, q) \<Rightarrow>
          suffix start p \<and> start \<noteq> [] \<and> suffix q (tl start) \<and> (t = end_of_input \<or> nul \<in> set q))"

lemma scanned_Inr [simp]:
  "scanned p (Inr (t, start, q)) \<longleftrightarrow>
     suffix start p \<and> start \<noteq> [] \<and> suffix q (tl start) \<and> (t = end_of_input \<or> nul \<in> set q)"
  by (simp add: scanned_def)

lemma scanned_accept:
  "stays_opt p m \<Longrightarrow> nul \<in> set p \<Longrightarrow> scanned (c # p) (rbind m (accept t (c # p) p))"
  by (cases m) (auto simp: accept_def stays_def split: option.splits)

lemma scanned_number:
  "stays_res p r \<Longrightarrow> scanned (c # p) (rbind r (\<lambda>q. Inr (t, c # p, q)))"
  by (cases r) (auto simp: stays_def)

lemma scanned_if:
  "(b \<Longrightarrow> scanned p x) \<Longrightarrow> (\<not> b \<Longrightarrow> scanned p y) \<Longrightarrow> scanned p (if b then x else y)"
  by simp

lemma scan_nul_ahead: "nul \<in> set p \<Longrightarrow> scanned p (scan p)"
proof (induction p rule: scan.induct)
  case (2 c p)
  show ?case
  proof (cases "c = nul")
    case False
    then have p: "nul \<in> set p"
      using 2 by simp
    then obtain d where d: "deref p = Inr d"
      by (cases p) auto
    consider (blank) "is_blank c" | (token) "\<not> is_blank c"
      by blast
    then show ?thesis
    proof cases
      case blank
      obtain q where q: "scan_blanks p = Inr q" "stays p q"
        using scan_blanks_stays [OF p] by (cases "scan_blanks p") auto
      then have "scanned q (scan q)"
        using 2 False blank by (auto simp: stays_def)
      then show ?thesis
        using q False blank by (auto simp: scan.simps(2) [of c] scanned_def stays_def suffix_Cons dest: suffix_order.trans split: sum.splits)
    next
      case token
      have "nul \<notin> set ''alse''" "nul \<notin> set ''ull''" "nul \<notin> set ''rue''"
        by (simp_all add: nul_def)
      then show ?thesis
        unfolding scan.simps(2)
        using False token p d
        by (intro scanned_if) (auto intro!: scanned_if scanned_accept scanned_number scan_31_stays(1) scan_22_stays
            scan_word_stays scan_23_stays scan_41_stays)
    qed
  qed (simp add: scan.simps(2))
qed simp

end
