(* ===== verification/JsonNumber.thy ===== *)
theory JsonNumber
  imports JsonLexer Complex_Main
begin

text \<open>
  Floating-point numbers as the JSON library uses them. A finite number is a sign and a magnitude, a
  rational number. \<open>strtold\<close> reads the longest prefix that is a decimal or hexadecimal number and
  rounds its exact value to the nearest \<open>long double\<close>, ties to even: 64 bits of significand with
  exponents from -16445 to 16384, the extended format of x86. A \<open>double\<close> has 53 bits and exponents from
  -1074 to 1024.
\<close>

datatype long_double = Finite bool rat | Infinite bool

section \<open>Rounding\<close>

fun log2_nat :: "nat \<Rightarrow> nat" where
  "log2_nat n = (if n < 2 then 0 else Suc (log2_nat (n div 2)))"

declare log2_nat.simps [simp del]

text \<open>The greatest \<open>e\<close> with \<open>2 ^ e \<le> q\<close>, for positive \<open>q\<close>.\<close>

definition exponent_of :: "rat \<Rightarrow> int" where
  "exponent_of q =
     (let (a, b) = quotient_of q;
          e = int (log2_nat (nat a)) - int (log2_nat (nat b))
      in if 2 powi e \<le> q then e else e - 1)"

definition round_half_even :: "rat \<Rightarrow> int" where
  "round_half_even x =
     (let f = \<lfloor>x\<rfloor>; d = x - of_int f
      in if d < 1 / 2 then f else if 1 / 2 < d then f + 1 else if even f then f else f + 1)"

definition round_float :: "nat \<Rightarrow> int \<Rightarrow> rat \<Rightarrow> rat" where
  "round_float prec emin q =
     (if q = 0 then 0
      else let u = 2 powi (max (exponent_of q - (int prec - 1)) emin)
           in of_int (round_half_even (q / u)) * u)"

definition to_long_double :: "bool \<Rightarrow> rat \<Rightarrow> long_double" where
  "to_long_double neg q =
     (let r = round_float 64 (- 16445) q in if 2 powi 16384 \<le> r then Infinite neg else Finite neg r)"

section \<open>strtold\<close>

definition digit_value :: "char \<Rightarrow> nat" where
  "digit_value c =
     (if isdigit c then char_code c - 48
      else if 97 \<le> char_code c then char_code c - 87 else char_code c - 55)"

definition digits_value :: "nat \<Rightarrow> string \<Rightarrow> nat" where
  "digits_value base ds = foldl (\<lambda>v c. v * base + digit_value c) 0 ds"

text \<open>An optional sign.\<close>

definition strip_sign :: "string \<Rightarrow> bool \<times> string" where
  "strip_sign p =
     (case p of [] \<Rightarrow> (False, [])
      | c # q \<Rightarrow> if c = CHR ''-'' then (True, q) else if c = CHR ''+'' then (False, q) else (False, p))"

text \<open>An optional exponent: its letter, an optional sign and at least one digit, or nothing.\<close>

definition strto_exponent :: "string \<Rightarrow> string \<Rightarrow> int \<times> string" where
  "strto_exponent letters p =
     (case p of [] \<Rightarrow> (0, [])
      | e # q \<Rightarrow>
          if e \<in> set letters
          then (let (neg, r) = strip_sign q;
                    ds = takeWhile isdigit r;
                    v = int (digits_value 10 ds)
                in if ds = [] then (0, p) else (if neg then - v else v, dropWhile isdigit r))
          else (0, p))"

text \<open>
  Digits, an optional point with more digits and an optional exponent; \<open>None\<close> when there is no digit.
\<close>

definition strto_number ::
  "(char \<Rightarrow> bool) \<Rightarrow> nat \<Rightarrow> string \<Rightarrow> nat \<Rightarrow> string \<Rightarrow> (rat \<times> string) option" where
  "strto_number isd base letters ebase p =
     (let ds = takeWhile isd p;
          p1 = dropWhile isd p;
          (fs, p2) = (case p1 of [] \<Rightarrow> ([], [])
                      | c # q \<Rightarrow> if c = CHR ''.'' then (takeWhile isd q, dropWhile isd q) else ([], p1));
          (e, p3) = strto_exponent letters p2
      in if ds = [] \<and> fs = [] then None
         else Some (of_nat (digits_value base (ds @ fs)) / of_nat base ^ length fs * of_nat ebase powi e, p3))"

text \<open>
  \<open>strtold\<close> on text that starts with a digit or with a sign and a digit, which is how the library calls
  it: a hexadecimal number if \<open>0x\<close> and a hexadecimal digit or a point with one follow.
\<close>

definition strtold :: "string \<Rightarrow> long_double \<times> string" where
  "strtold s =
     (let (neg, p) = strip_sign s;
          hex = (case p of z # x # q \<Rightarrow>
                   if z = CHR ''0'' \<and> (x = CHR ''x'' \<or> x = CHR ''X'') then strto_number is_hex 16 ''pP'' 2 q else None
                 | _ \<Rightarrow> None);
          num = (case hex of Some r \<Rightarrow> Some r | None \<Rightarrow> strto_number isdigit 10 ''eE'' 10 p)
      in case num of
           None \<Rightarrow> (Finite False 0, s)
         | Some (q, r) \<Rightarrow> (to_long_double neg q, r))"

section \<open>Conversions\<close>

definition with_sign :: "bool \<Rightarrow> rat \<Rightarrow> rat" where
  "with_sign neg q = (if neg then - q else q)"

text \<open>Towards zero. A value that the target type does not have is undefined.\<close>

definition toward_zero :: "bool \<Rightarrow> rat \<Rightarrow> int" where
  "toward_zero neg q = (if neg then - \<lfloor>q\<rfloor> else \<lfloor>q\<rfloor>)"

definition float_to_int :: "int \<Rightarrow> int \<Rightarrow> long_double \<Rightarrow> int result" where
  "float_to_int lo hi x =
     (case x of
        Infinite _ \<Rightarrow> Inl Undefined
      | Finite neg q \<Rightarrow> if lo \<le> toward_zero neg q \<and> toward_zero neg q \<le> hi then Inr (toward_zero neg q) else Inl Undefined)"

definition to_int64 :: "long_double \<Rightarrow> u64 result" where
  "to_int64 x = rbind (float_to_int (- (2 ^ 63)) (2 ^ 63 - 1) x) (\<lambda>i. Inr (word_of_int i))"

text \<open>\<open>static_cast<double>\<close> of a magnitude below \<open>2 ^ 63\<close>, which never becomes infinite.\<close>

definition to_double :: "rat \<Rightarrow> rat" where
  "to_double q = round_float 53 (- 1074) q"

section \<open>Integers are read exactly\<close>

lemma log2_nat_le: "0 < n \<Longrightarrow> 2 ^ log2_nat n \<le> n"
proof (induction n rule: log2_nat.induct)
  case (1 n)
  show ?case
  proof (cases "n < 2")
    case False
    then have "2 ^ log2_nat n = 2 * (2 :: nat) ^ log2_nat (n div 2)"
      by (subst log2_nat.simps) simp
    also have "\<dots> \<le> 2 * (n div 2)"
      using 1 False by simp
    finally show ?thesis
      by simp
  qed (use 1 in \<open>simp add: log2_nat.simps\<close>)
qed

lemma quotient_of_nat: "quotient_of (of_nat n) = (int n, 1)"
  using quotient_of_int [of "int n"] by (simp add: of_int_of_nat_eq)

lemma log2_nat_1 [simp]: "log2_nat (Suc 0) = 0"
  by (simp add: log2_nat.simps)

lemma exponent_of_nat: "0 < n \<Longrightarrow> exponent_of (of_nat n) = int (log2_nat n)"
proof -
  assume "0 < n"
  then have "(2 :: rat) ^ log2_nat n \<le> of_nat n"
    using log2_nat_le by (metis of_nat_le_iff of_nat_numeral of_nat_power)
  then show ?thesis
    by (simp add: exponent_of_def quotient_of_nat)
qed

lemma round_half_even_int [simp]: "round_half_even (of_int i) = i"
  by (simp add: round_half_even_def)

lemma log2_nat_less: "n < 2 ^ k \<Longrightarrow> 0 < k \<Longrightarrow> log2_nat n < k"
proof (rule ccontr)
  assume n: "n < 2 ^ k" "0 < k" and "\<not> log2_nat n < k"
  then have "k \<le> log2_nat n"
    by simp
  moreover from this have "0 < n"
    using n by (cases n) (auto simp: log2_nat.simps)
  ultimately have "2 ^ k \<le> n"
    using log2_nat_le [of n] order_trans [OF power_increasing [of k "log2_nat n" "2 :: nat"]] by simp
  then show False
    using n by simp
qed

lemma round_float_nat:
  assumes "n < 2 ^ prec" and "0 < prec" and "emin \<le> 0"
  shows "round_float prec emin (of_nat n) = of_nat n"
proof (cases "n = 0")
  case False
  define e where "e = max (exponent_of (of_nat n) - (int prec - 1)) emin"
  have "e \<le> 0"
    using assms log2_nat_less [of n prec] False by (simp add: e_def exponent_of_nat)
  then obtain k where k: "e = - int k"
    by (metis int_nat_eq minus_le_iff minus_minus nat_0_le nat_int neg_0_le_iff_le of_nat_nat)
  have "of_nat n / (2 :: rat) powi e = of_int (int n * 2 ^ k)"
    by (simp add: k power_int_minus field_simps)
  then have "round_half_even (of_nat n / 2 powi e) = int n * 2 ^ k"
    by (simp only: round_half_even_int)
  then show ?thesis
    using False by (simp add: round_float_def Let_def flip: e_def) (simp add: k power_int_minus)
qed (simp add: round_float_def)

lemma to_long_double_nat: "n < 2 ^ 64 \<Longrightarrow> to_long_double neg (of_nat n) = Finite neg (of_nat n)"
proof -
  assume n: "n < 2 ^ 64"
  have "rat_of_nat n < of_nat (2 ^ 64)"
    using n by (simp only: of_nat_less_iff)
  also have "\<dots> = (2 :: rat) ^ 64"
    by simp
  also have "(2 :: rat) ^ 64 \<le> 2 ^ 16384"
    by (rule power_increasing) simp_all
  also have "(2 :: rat) ^ 16384 = 2 powi 16384"
    by (simp only: power_int_numeral)
  finally have "\<not> 2 powi 16384 \<le> rat_of_nat n"
    by (simp only: not_le)
  then show ?thesis
    using round_float_nat [OF n, of "- 16445"]
    by (simp only: to_long_double_def Let_def if_False zero_less_numeral neg_le_0_iff_le zero_le_numeral)
qed

lemma digits_value_append: "digits_value b (ds @ [c]) = digits_value b ds * b + digit_value c"
  by (simp add: digits_value_def)

lemma digit_value_digit: "d < 10 \<Longrightarrow> digit_value (digit d) = d"
  by (simp add: digit_value_def isdigit_digit char_code_digit)

lemma digits_value_show: "digits_value 10 (show_nat n) = n"
proof (induction n rule: show_nat.induct)
  case (1 n)
  show ?case
  proof (cases "n < 10")
    case True
    then show ?thesis
      by (simp add: show_nat_small digits_value_def digit_value_digit)
  next
    case False
    then show ?thesis
      using 1 by (simp add: show_nat_step digits_value_append digit_value_digit)
  qed
qed

text \<open>What may follow a number in a text that was printed.\<close>

definition delimiter :: "char \<Rightarrow> bool" where
  "delimiter c \<longleftrightarrow> c = CHR '','' \<or> c = CHR '']'' \<or> c = CHR ''}'' \<or> is_blank c \<or> c = nul"

lemma char_of_code: "char_code c = n \<longleftrightarrow> n < 256 \<and> c = char_of n"
  using char_code_less [of c] by (auto simp: char_code_def)

lemma delimiter_not:
  assumes "delimiter c"
  shows "\<not> isdigit c" "c \<noteq> CHR ''.''" "\<not> is_exp c" "c \<noteq> CHR ''e''" "c \<noteq> CHR ''E''" "c \<noteq> CHR ''x''" "c \<noteq> CHR ''X''"
  using assms
  by (auto simp: delimiter_def is_blank_def isdigit_def is_exp_def char_code_def nul_def)

lemma takeWhile_digits:
  assumes "delimiter d"
  shows "takeWhile isdigit (show_nat n @ d # rest) = show_nat n" "dropWhile isdigit (show_nat n @ d # rest) = d # rest"
  using delimiter_not(1) [OF assms] set_show_nat [of _ n] by (simp_all add: takeWhile_append dropWhile_append)

lemma strto_number_show:
  assumes "delimiter d"
  shows "strto_number isdigit 10 ''eE'' 10 (show_nat n @ d # rest) = Some (of_nat n, d # rest)"
  using delimiter_not [OF assms]
  by (simp add: strto_number_def takeWhile_digits [OF assms] strto_exponent_def digits_value_show show_nat_ne)

lemma show_nat_Cons:
  obtains c cs where "show_nat n = c # cs" "isdigit c" "\<forall>x \<in> set cs. isdigit x"
  using show_nat_ne [of n] set_show_nat [of _ n] by (cases "show_nat n") auto

lemma isdigit_ne: "isdigit c \<Longrightarrow> c \<noteq> CHR ''-''" "isdigit c \<Longrightarrow> c \<noteq> CHR ''+''" "isdigit c \<Longrightarrow> c \<noteq> CHR ''x''"
  "isdigit c \<Longrightarrow> c \<noteq> CHR ''X''" "isdigit c \<Longrightarrow> c \<noteq> nul" "isdigit c \<Longrightarrow> \<not> is_blank c" "isdigit c \<Longrightarrow> c \<noteq> CHR 0x22"
  "isdigit c \<Longrightarrow> c \<noteq> CHR '',''"
  by (auto simp: isdigit_def char_code_def nul_def is_blank_def)

lemma strtold_digits:
  assumes "delimiter d" "n < 2 ^ 64"
  shows "strtold (show_nat n @ d # rest) = (Finite False (of_nat n), d # rest)"
    and "strtold (CHR ''-'' # show_nat n @ d # rest) = (Finite True (of_nat n), d # rest)"
proof -
  obtain c cs where c: "show_nat n = c # cs" "isdigit c" "\<forall>x \<in> set cs. isdigit x"
    using show_nat_Cons .
  have hex: "(case show_nat n @ d # rest of z # x # q \<Rightarrow>
      if z = CHR ''0'' \<and> (x = CHR ''x'' \<or> x = CHR ''X'') then strto_number is_hex 16 ''pP'' 2 q else None
    | _ \<Rightarrow> None) = None"
    using c delimiter_not [OF assms(1)] by (cases cs) (auto dest: isdigit_ne)
  have sign: "strip_sign (show_nat n @ d # rest) = (False, show_nat n @ d # rest)"
    using c isdigit_ne by (simp add: strip_sign_def)
  show "strtold (show_nat n @ d # rest) = (Finite False (of_nat n), d # rest)"
    unfolding strtold_def sign
    by (simp only: Let_def prod.case hex strto_number_show [OF assms(1)] option.case to_long_double_nat [OF assms(2)])
  show "strtold (CHR ''-'' # show_nat n @ d # rest) = (Finite True (of_nat n), d # rest)"
    unfolding strtold_def strip_sign_def
    by (simp only: Let_def list.case simp_thms if_True prod.case hex strto_number_show [OF assms(1)] option.case
        to_long_double_nat [OF assms(2)])
qed

text \<open>The numbers of \<open>int64_t\<close>, and how a stream prints them.\<close>

definition show_int64 :: "u64 \<Rightarrow> string" where
  "show_int64 w = (let i = sint w in if i < 0 then CHR ''-'' # show_nat (nat (- i)) else show_nat (nat i))"

lemma sint_bounds: "- (2 ^ 63) \<le> sint (w :: u64)" "sint (w :: u64) \<le> 2 ^ 63 - 1"
  using sint_greater_eq [of w] sint_less [of w] by simp_all

lemma word_of_int_sint: "word_of_int (sint w) = (w :: u64)"
  using scast_id [of w] by simp

lemma to_int64_nat:
  assumes "sint w = (if neg then - int n else int n)"
  shows "to_int64 (Finite neg (of_nat n)) = Inr w" and "with_sign neg (of_nat n) = of_int (sint w)"
proof -
  have "toward_zero neg (of_nat n) = sint w"
    using assms by (simp add: toward_zero_def)
  then show "to_int64 (Finite neg (of_nat n)) = Inr w"
    using sint_bounds [of w] by (simp only: to_int64_def float_to_int_def long_double.case if_True simp_thms rbind_simps word_of_int_sint)
  show "with_sign neg (of_nat n) = of_int (sint w)"
    unfolding assms by (simp add: with_sign_def)
qed

lemma strtold_int64:
  assumes "delimiter d"
  shows "\<exists>neg q. strtold (show_int64 w @ d # rest) = (Finite neg q, d # rest) \<and>
    with_sign neg q = of_int (sint w) \<and> to_int64 (Finite neg q) = Inr w"
proof (cases "sint w < 0")
  case True
  then have "nat (- sint w) < 2 ^ 64"
    using sint_bounds [of w] by simp
  then have "strtold (show_int64 w @ d # rest) = (Finite True (of_nat (nat (- sint w))), d # rest)"
    using strtold_digits(2) [OF assms] True by (simp add: show_int64_def)
  moreover have "sint w = (if True then - int (nat (- sint w)) else int (nat (- sint w)))"
    using True by simp
  note to_int64_nat [OF this]
  ultimately show ?thesis
    by blast
next
  case False
  then have "nat (sint w) < 2 ^ 64"
    using sint_bounds [of w] by simp
  then have "strtold (show_int64 w @ d # rest) = (Finite False (of_nat (nat (sint w))), d # rest)"
    using strtold_digits(1) [OF assms] False by (simp add: show_int64_def)
  moreover have "sint w = (if False then - int (nat (sint w)) else int (nat (sint w)))"
    using False by simp
  note to_int64_nat [OF this]
  ultimately show ?thesis
    by blast
qed

end
