(* ===== verification/Json.thy ===== *)
theory Json
  imports JsonNumber StdMap
begin

text \<open>
  The values of the JSON library (\<open>external/json.hpp\<close>, class \<open>basic_json\<close>) and the operations on them that
  the code uses: construction from initializer lists, \<open>operator[]\<close>, \<open>push_back\<close>, iteration and the implicit
  conversions to C++ types, which throw \<open>std::domain_error\<close> on another type. Integers are \<open>int64_t\<close>; a
  \<open>uint64_t\<close> is converted to and from them bit by bit. A floating-point number is a sign and a magnitude.
  An object is a \<open>std::map\<close>, a list in the order of the keys. The type \<open>discarded\<close> only arises from parser
  callbacks, which the code never passes.
\<close>

datatype json =
    JNull
  | JBool bool
  | JInt u64
  | JFloat bool rat
  | JString string
  | JArray "json list"
  | JObject "(string \<times> json) list"

section \<open>Construction\<close>

text \<open>
  An initializer list makes an object if every element is an array of two whose first is a string, and
  an array otherwise. \<open>emplace\<close> keeps the value of a key that is already there.
\<close>

definition json_emplace :: "(string \<times> json) list \<Rightarrow> string \<Rightarrow> json \<Rightarrow> (string \<times> json) list" where
  "json_emplace m k v = (case map_of m k of None \<Rightarrow> map_set m k v | Some _ \<Rightarrow> m)"

fun json_pair :: "json \<Rightarrow> (string \<times> json) option" where
  "json_pair (JArray [JString k, v]) = Some (k, v)"
| "json_pair _ = None"

definition json_init :: "json list \<Rightarrow> json" where
  "json_init init =
     (if list_all (\<lambda>e. json_pair e \<noteq> None) init
      then JObject (foldl (\<lambda>m e. case json_pair e of None \<Rightarrow> m | Some (k, v) \<Rightarrow> json_emplace m k v) [] init)
      else JArray init)"

text \<open>The form in which the code writes an object: a list of pairs in braces.\<close>

definition json_object :: "(string \<times> json) list \<Rightarrow> json" where
  "json_object kvs = json_init (map (\<lambda>kv. json_init [JString (fst kv), snd kv]) kvs)"

definition json_array :: "json list \<Rightarrow> json" where
  "json_array init = JArray init"

fun json_push_back :: "json \<Rightarrow> json \<Rightarrow> json result" where
  "json_push_back (JArray xs) v = Inr (JArray (xs @ [v]))"
| "json_push_back JNull v = Inr (JArray [v])"
| "json_push_back _ v = Inl (Uncaught domain_error)"

section \<open>Access\<close>

text \<open>
  \<open>operator[]\<close> with a key: null becomes an object, and a missing key is added with the value null. The
  result is the element and the value as it is afterwards.
\<close>

fun json_index :: "json \<Rightarrow> string \<Rightarrow> (json \<times> json) result" where
  "json_index (JObject kvs) k =
     Inr (case map_of kvs k of None \<Rightarrow> (JNull, JObject (map_set kvs k JNull)) | Some v \<Rightarrow> (v, JObject kvs))"
| "json_index JNull k = Inr (JNull, JObject [(k, JNull)])"
| "json_index _ k = Inl (Uncaught domain_error)"

definition json_at :: "json \<Rightarrow> string \<Rightarrow> json result" where
  "json_at j k = rbind (json_index j k) (\<lambda>r. Inr (fst r))"

text \<open>\<open>j[k].push_back(v)\<close>: the element is a reference into the object, which keeps the longer array.\<close>

definition json_push_at :: "json \<Rightarrow> string \<Rightarrow> json \<Rightarrow> json result" where
  "json_push_at j k v =
     rbind (json_index j k)
       (\<lambda>(e, j'). rbind (json_push_back e v)
         (\<lambda>e'. Inr (case j' of JObject kvs \<Rightarrow> JObject (map_set kvs k e') | _ \<Rightarrow> j')))"

text \<open>\<open>get_impl\<close>, by the type that is asked for.\<close>

definition json_unsigned :: "nat \<Rightarrow> json \<Rightarrow> u64 result" where
  "json_unsigned w j =
     (case j of
        JInt n \<Rightarrow> Inr (take_bit w n)
      | JFloat neg q \<Rightarrow> rbind (float_to_int 0 (2 ^ w - 1) (Finite neg q)) (\<lambda>i. Inr (word_of_int i))
      | _ \<Rightarrow> Inl (Uncaught domain_error))"

definition json_u64 :: "json \<Rightarrow> u64 result" where
  "json_u64 = json_unsigned 64"

definition json_u16 :: "json \<Rightarrow> u16 result" where
  "json_u16 j = rbind (json_unsigned 16 j) (\<lambda>n. Inr (ucast n))"

fun json_bool :: "json \<Rightarrow> bool result" where
  "json_bool (JBool b) = Inr b"
| "json_bool _ = Inl (Uncaught domain_error)"

fun json_string :: "json \<Rightarrow> string result" where
  "json_string (JString s) = Inr s"
| "json_string _ = Inl (Uncaught domain_error)"

text \<open>A range-based \<open>for\<close>: over nothing for null, over the value itself for a scalar.\<close>

fun json_elems :: "json \<Rightarrow> json list" where
  "json_elems JNull = []"
| "json_elems (JArray xs) = xs"
| "json_elems (JObject kvs) = map snd kvs"
| "json_elems j = [j]"

definition json_field_u64 :: "json \<Rightarrow> string \<Rightarrow> u64 result" where
  "json_field_u64 j k = rbind (json_at j k) json_u64"

definition json_field_bool :: "json \<Rightarrow> string \<Rightarrow> bool result" where
  "json_field_bool j k = rbind (json_at j k) json_bool"

definition json_field_string :: "json \<Rightarrow> string \<Rightarrow> string result" where
  "json_field_string j k = rbind (json_at j k) json_string"

lemmas json_fields = json_field_u64_def json_field_bool_def json_field_string_def

lemma json_at_simps [simp]:
  "json_at (JObject kvs) k = Inr (case map_of kvs k of None \<Rightarrow> JNull | Some v \<Rightarrow> v)"
  "json_at JNull k = Inr JNull"
  "json_at (JBool b) k = Inl (Uncaught domain_error)"
  "json_at (JInt n) k = Inl (Uncaught domain_error)"
  "json_at (JFloat neg q) k = Inl (Uncaught domain_error)"
  "json_at (JString s) k = Inl (Uncaught domain_error)"
  "json_at (JArray xs) k = Inl (Uncaught domain_error)"
  by (simp_all add: json_at_def split: option.splits)

lemma json_u64_simps [simp]:
  "json_u64 (JInt n) = Inr n" "json_u64 JNull = Inl (Uncaught domain_error)"
  "json_u64 (JBool b) = Inl (Uncaught domain_error)" "json_u64 (JString s) = Inl (Uncaught domain_error)"
  "json_u64 (JArray xs) = Inl (Uncaught domain_error)" "json_u64 (JObject kvs) = Inl (Uncaught domain_error)"
  by (simp_all add: json_u64_def json_unsigned_def take_bit_word_eq_self)

lemma json_u16_simps [simp]:
  "json_u16 (JInt n) = Inr (ucast n)" "json_u16 JNull = Inl (Uncaught domain_error)"
  by (simp_all add: json_u16_def json_unsigned_def unsigned_take_bit_eq) (rule bit_word_eqI, auto simp: bit_simps)

section \<open>Objects\<close>

definition emplace_all :: "(string \<times> json) list \<Rightarrow> (string \<times> json) list \<Rightarrow> (string \<times> json) list" where
  "emplace_all kvs m = foldl (\<lambda>m kv. json_emplace m (fst kv) (snd kv)) m kvs"

lemma json_object_eq: "json_object kvs = JObject (emplace_all kvs [])"
proof -
  have "json_init [JString k, v] = JArray [JString k, v]" for k v
    by (simp add: json_init_def)
  then show ?thesis
    by (simp add: json_object_def json_init_def emplace_all_def list_all_iff foldl_map case_prod_beta)
qed

lemma map_of_emplace: "map_of (json_emplace m k v) k' = (case map_of m k' of None \<Rightarrow> if k' = k then Some v else None | r \<Rightarrow> r)"
  by (auto simp: json_emplace_def map_of_set split: option.splits)

lemma map_of_emplace_all:
  "map_of (emplace_all kvs m) k = (case map_of m k of None \<Rightarrow> map_of kvs k | r \<Rightarrow> r)"
  unfolding emplace_all_def
  by (induction kvs arbitrary: m) (auto simp: map_of_emplace split: option.splits)

lemma json_at_object [simp]:
  "json_at (json_object kvs) k = Inr (case map_of kvs k of None \<Rightarrow> JNull | Some v \<Rightarrow> v)"
  by (simp add: json_object_eq map_of_emplace_all)

lemma json_object_ne_null [simp]: "json_object kvs \<noteq> JNull"
  by (simp add: json_object_eq)

text \<open>Appending one by one makes the array of all.\<close>

lemma json_push_backs:
  "foldl (\<lambda>r v. rbind r (\<lambda>j. json_push_back j v)) (Inr (JArray xs)) vs = Inr (JArray (xs @ vs))"
  by (induction vs arbitrary: xs) simp_all

section \<open>Well-formed values\<close>

text \<open>The keys of every object are in order and distinct.\<close>

fun json_wf :: "json \<Rightarrow> bool" where
  "json_wf (JArray xs) \<longleftrightarrow> list_all json_wf xs"
| "json_wf (JObject kvs) \<longleftrightarrow> map_ordered kvs \<and> list_all (\<lambda>kv. json_wf (snd kv)) kvs"
| "json_wf _ \<longleftrightarrow> True"

text \<open>Values without floating-point numbers, which are those the code writes.\<close>

fun json_exact :: "json \<Rightarrow> bool" where
  "json_exact (JArray xs) \<longleftrightarrow> list_all json_exact xs"
| "json_exact (JObject kvs) \<longleftrightarrow> map_ordered kvs \<and> list_all (\<lambda>kv. json_exact (snd kv)) kvs"
| "json_exact (JFloat _ _) \<longleftrightarrow> False"
| "json_exact _ \<longleftrightarrow> True"

lemma map_set_values: "list_all (\<lambda>kv. P (snd kv)) m \<Longrightarrow> P v \<Longrightarrow> list_all (\<lambda>kv. P (snd kv)) (map_set m k v)"
  by (induction m k v rule: map_set.induct) auto

lemma emplace_all_inv:
  assumes "list_all (\<lambda>kv. P (snd kv)) kvs" "list_all (\<lambda>kv. P (snd kv)) m" "map_ordered m"
  shows "list_all (\<lambda>kv. P (snd kv)) (emplace_all kvs m) \<and> map_ordered (emplace_all kvs m)"
  using assms
proof (induction kvs arbitrary: m)
  case (Cons kv kvs)
  have "list_all (\<lambda>kv. P (snd kv)) (json_emplace m (fst kv) (snd kv)) \<and> map_ordered (json_emplace m (fst kv) (snd kv))"
    using Cons.prems by (auto simp: json_emplace_def map_set_values map_ordered_set split: option.splits)
  then show ?case
    using Cons.IH [of "json_emplace m (fst kv) (snd kv)"] Cons.prems by (simp add: emplace_all_def)
qed (simp add: emplace_all_def)

lemma json_exact_object [simp]: "list_all (\<lambda>kv. json_exact (snd kv)) kvs \<Longrightarrow> json_exact (json_object kvs)"
  using emplace_all_inv [of json_exact kvs "[]"] by (simp add: json_object_eq map_ordered_def)

end
