(* ===== verification/JsonDump.thy ===== *)
theory JsonDump
  imports Json
begin

text \<open>
  How the JSON library prints (\<open>external/json.hpp\<close>, \<open>extra_space\<close>, \<open>escape_string\<close>, \<open>dump\<close>).
  \<open>escape_string\<close> fills a string of the right size in place; its memory is modelled with the terminating
  null character behind it, because \<open>sprintf\<close> and the code write there too.
\<close>

section \<open>escape_string\<close>

definition short_escape :: "char \<Rightarrow> char option" where
  "short_escape c =
     (if c = CHR 0x22 then Some (CHR 0x22)
      else if c = CHR 0x5C then Some (CHR 0x5C)
      else if c = CHR 0x08 then Some (CHR ''b'')
      else if c = CHR 0x0C then Some (CHR ''f'')
      else if c = CHR 0x0A then Some (CHR ''n'')
      else if c = CHR 0x0D then Some (CHR ''r'')
      else if c = CHR 0x09 then Some (CHR ''t'')
      else None)"

text \<open>\<open>char\<close> is signed, so \<open>c >= 0x00 and c <= 0x1f\<close> holds for the codes below 32 only.\<close>

fun extra_space :: "string \<Rightarrow> nat" where
  "extra_space [] = 0"
| "extra_space (c # s) =
     (if short_escape c \<noteq> None then 1 else if char_code c \<le> 31 then 5 else 0) + extra_space s"

definition hex_digit :: "nat \<Rightarrow> char" where
  "hex_digit n = (if n < 10 then char_of (48 + n) else char_of (87 + n))"

text \<open>What \<open>sprintf\<close> prints for \<open>u%04x\<close> and a code below 32.\<close>

definition sprintf_u04x :: "nat \<Rightarrow> string" where
  "sprintf_u04x n = [CHR ''u'', CHR ''0'', CHR ''0'', hex_digit (n div 16), hex_digit (n mod 16)]"

definition write_at :: "nat \<Rightarrow> string \<Rightarrow> string \<Rightarrow> string" where
  "write_at pos xs buf = take pos buf @ xs @ drop (pos + length xs) buf"

fun escape_loop :: "string \<Rightarrow> nat \<Rightarrow> string \<Rightarrow> string" where
  "escape_loop [] pos result = result"
| "escape_loop (c # s) pos result =
     (case short_escape c of
        Some e \<Rightarrow>
          escape_loop s (pos + 2) (if c = CHR 0x5C then result else result[pos + 1 := e])
      | None \<Rightarrow>
          if char_code c \<le> 31
          then escape_loop s (pos + 6)
                 ((write_at (pos + 1) (sprintf_u04x (char_code c) @ [nul]) result)[pos + 6 := CHR 0x5C])
          else escape_loop s (pos + 1) (result[pos := c]))"

definition escape_buffer :: "string \<Rightarrow> string" where
  "escape_buffer s = escape_loop s 0 (replicate (length s + extra_space s) (CHR 0x5C) @ [nul])"

definition escape_string :: "string \<Rightarrow> string" where
  "escape_string s = (if extra_space s = 0 then s else take (length s + extra_space s) (escape_buffer s))"

section \<open>dump\<close>

text \<open>
  A \<open>double\<close> printed with 15 digits, as \<open>%g\<close> does: rounded to 15 significant digits, without zeros at
  the end of the fraction, with an exponent if it is below -4 or at least 15.
\<close>

definition strip_zeros :: "string \<Rightarrow> string" where
  "strip_zeros ds = rev (dropWhile (\<lambda>c. c = CHR ''0'') (rev ds))"

definition decimal_exponent :: "rat \<Rightarrow> int" where
  "decimal_exponent q =
     (let (a, b) = quotient_of q;
          e = int (length (show_nat (nat a))) - int (length (show_nat (nat b)))
      in if 10 powi e \<le> q then e else e - 1)"

definition with_point :: "string \<Rightarrow> string \<Rightarrow> string" where
  "with_point ds fs = (let z = strip_zeros fs in if z = [] then ds else ds @ ''.'' @ z)"

definition show_exponent :: "int \<Rightarrow> string" where
  "show_exponent e =
     (let ds = show_nat (nat \<bar>e\<bar>)
      in ''e'' @ (if e < 0 then ''-'' else ''+'') @ (if length ds < 2 then ''0'' @ ds else ds))"

definition show_double :: "bool \<Rightarrow> rat \<Rightarrow> string" where
  "show_double neg q =
     (if neg then ''-'' else []) @
     (if q = 0 then ''0''
      else let e0 = decimal_exponent q;
               m0 = round_half_even (q / 10 powi (e0 - 14));
               (m, e) = (if m0 = 10 ^ 15 then (10 ^ 14, e0 + 1) else (m0, e0));
               ds = show_nat (nat m)
           in if e < - 4 \<or> 15 \<le> e then with_point (take 1 ds) (drop 1 ds) @ show_exponent e
              else if 0 \<le> e then with_point (take (nat e + 1) ds) (drop (nat e + 1) ds)
              else with_point ''0'' (replicate (nat (- e) - 1) (CHR ''0'') @ ds))"

fun separate :: "string \<Rightarrow> string list \<Rightarrow> string" where
  "separate sep [] = []"
| "separate sep [x] = x"
| "separate sep (x # y # xs) = x @ sep @ separate sep (y # xs)"

definition spaces :: "u32 \<Rightarrow> string" where
  "spaces n = replicate (unat n) (CHR '' '')"

definition newline :: "bool \<Rightarrow> string" where
  "newline pretty = (if pretty then [CHR 0x0A] else [])"

definition quoted :: "string \<Rightarrow> string" where
  "quoted s = CHR 0x22 # escape_string s @ [CHR 0x22]"

fun dump_to :: "bool \<Rightarrow> u32 \<Rightarrow> u32 \<Rightarrow> json \<Rightarrow> string" where
  "dump_to pretty step current (JObject kvs) =
     (if kvs = [] then ''{}''
      else let indent = (if pretty then current + step else current)
           in ''{'' @ newline pretty @
              separate ('','' @ newline pretty)
                (map (\<lambda>kv. spaces indent @ quoted (fst kv) @ '':'' @ (if pretty then '' '' else []) @
                   dump_to pretty step indent (snd kv)) kvs) @
              newline pretty @ spaces current @ ''}'')"
| "dump_to pretty step current (JArray xs) =
     (if xs = [] then ''[]''
      else let indent = (if pretty then current + step else current)
           in ''['' @ newline pretty @
              separate ('','' @ newline pretty) (map (\<lambda>v. spaces indent @ dump_to pretty step indent v) xs) @
              newline pretty @ spaces current @ '']'')"
| "dump_to pretty step current (JString s) = quoted s"
| "dump_to pretty step current (JBool b) = (if b then ''true'' else ''false'')"
| "dump_to pretty step current (JInt n) = show_int64 n"
| "dump_to pretty step current (JFloat neg q) = show_double neg q"
| "dump_to pretty step current JNull = ''null''"

text \<open>\<open>dump(indent)\<close>: a negative indentation, the default, prints on one line.\<close>

definition json_dump_indent :: "int \<Rightarrow> json \<Rightarrow> string" where
  "json_dump_indent indent j = (if 0 \<le> indent then dump_to True (word_of_int indent) 0 j else dump_to False 0 0 j)"

definition json_dump :: "json \<Rightarrow> string" where
  "json_dump j = json_dump_indent (- 1) j"

section \<open>What escape_string computes\<close>

definition escape_char :: "char \<Rightarrow> string" where
  "escape_char c =
     (case short_escape c of
        Some e \<Rightarrow> [CHR 0x5C, e]
      | None \<Rightarrow> if char_code c \<le> 31 then CHR 0x5C # sprintf_u04x (char_code c) else [c])"

lemma length_escape_char:
  "length (escape_char c) = 1 + (if short_escape c \<noteq> None then 1 else if char_code c \<le> 31 then 5 else 0)"
  by (auto simp: escape_char_def sprintf_u04x_def split: option.splits)

lemma short_escape_backslash: "short_escape c = Some e \<Longrightarrow> c = CHR 0x5C \<longleftrightarrow> e = CHR 0x5C"
  by (auto simp: short_escape_def split: if_splits)


definition long_escape :: "char \<Rightarrow> bool" where
  "long_escape c \<longleftrightarrow> short_escape c = None \<and> char_code c \<le> 31"

lemma list_update_append_cons: "(xs @ y # ys)[length xs := z] = xs @ z # ys"
  by (simp add: list_update_append)

lemma escape_step_short:
  "(out @ CHR 0x5C # CHR 0x5C # rest)[length out + 1 := e] = (out @ [CHR 0x5C, e]) @ rest"
  using list_update_append_cons [of "out @ [CHR 0x5C]"] by simp

lemma escape_step_long:
  assumes "length xs = 5"
  shows "(write_at (length out + 1) (xs @ [nul]) (out @ replicate 6 (CHR 0x5C) @ y # rest))[length out + 6 := z] =
    (out @ CHR 0x5C # xs) @ z # rest"
proof -
  have "write_at (length out + 1) (xs @ [nul]) (out @ replicate 6 (CHR 0x5C) @ y # rest) =
      (out @ CHR 0x5C # xs) @ nul # rest"
    using assms by (simp add: write_at_def numeral_eq_Suc)
  then show ?thesis
    using list_update_append_cons [of "out @ CHR 0x5C # xs" nul rest z] assms by simp
qed

lemma escape_loop_fills:
  "escape_loop s (length out) (out @ replicate (length s + extra_space s) (CHR 0x5C) @ [t]) =
     out @ concat (map escape_char s) @ [if s \<noteq> [] \<and> long_escape (last s) then CHR 0x5C else t]"
proof (induction s arbitrary: out t)
  case (Cons c s)
  let ?rest = "\<lambda>t. replicate (length s + extra_space s) (CHR 0x5C) @ [t]"
  consider (short) e where "short_escape c = Some e" | (long) "long_escape c"
    | (plain) "short_escape c = None" "\<not> long_escape c"
    by (cases "short_escape c") auto
  then show ?case
  proof cases
    case short
    have "(if c = CHR 0x5C then out @ CHR 0x5C # CHR 0x5C # ?rest t
        else (out @ CHR 0x5C # CHR 0x5C # ?rest t)[length out + 1 := e]) = (out @ [CHR 0x5C, e]) @ ?rest t"
      using escape_step_short short_escape_backslash [OF short] by auto
    moreover have "long_escape (last (c # s)) \<longleftrightarrow> s \<noteq> [] \<and> long_escape (last s)"
      using short by (simp add: long_escape_def)
    ultimately show ?thesis
      using short Cons.IH [of "out @ [CHR 0x5C, e]" t]
      by (simp add: escape_char_def del: last.simps split del: if_split)
  next
    case long
    define xs where "xs = sprintf_u04x (char_code c)"
    have xs: "length xs = 5"
      by (simp add: xs_def sprintf_u04x_def)
    define t' where "t' = (if s = [] then CHR 0x5C else t)"
    obtain y rest where y: "?rest t = y # rest" "?rest t' = CHR 0x5C # rest"
      by (cases s) (auto simp: t'_def)
    have "(write_at (length out + 1) (xs @ [nul]) (out @ replicate 6 (CHR 0x5C) @ ?rest t))[length out + 6 := CHR 0x5C] =
        (out @ CHR 0x5C # xs) @ ?rest t'"
      unfolding y by (rule escape_step_long [OF xs])
    moreover have "replicate (length (c # s) + extra_space (c # s)) (CHR 0x5C) @ [t] = replicate 6 (CHR 0x5C) @ ?rest t"
      using long by (simp add: long_escape_def numeral_eq_Suc)
    ultimately show ?thesis
      using long xs Cons.IH [of "out @ CHR 0x5C # xs" t']
      by (auto simp: escape_char_def long_escape_def xs_def t'_def simp del: replicate.simps)
  next
    case plain
    then show ?thesis
      using Cons.IH [of "out @ [c]" t] by (auto simp: escape_char_def long_escape_def list_update_append)
  qed
qed simp

lemma length_escape: "length (concat (map escape_char s)) = length s + extra_space s"
  by (induction s) (simp_all add: length_escape_char)

lemma no_extra_space: "extra_space s = 0 \<Longrightarrow> concat (map escape_char s) = s"
  by (induction s) (auto simp: escape_char_def split: if_splits)

lemma escape_string_eq: "escape_string s = concat (map escape_char s)"
  using escape_loop_fills [of s "[]" nul]
  by (simp add: escape_string_def escape_buffer_def no_extra_space length_escape [symmetric])

text \<open>
  Filling the prepared string in place gives the escapes of the characters one after the other, in
  exactly the space that \<open>extra_space\<close> computed, and nothing in the result is a control character. The
  terminator behind the string is overwritten with a backslash when the last character is printed as
  \<open>\u00xx\<close>.
\<close>

theorem escape_in_place:
  "escape_string s = concat (map escape_char s) \<and>
   length (escape_string s) = length s + extra_space s \<and>
   list_all (\<lambda>c. 32 \<le> char_code c) (escape_string s) \<and>
   escape_buffer s = concat (map escape_char s) @ [if s \<noteq> [] \<and> long_escape (last s) then CHR 0x5C else nul]"
proof -
  have "list_all (\<lambda>c. 32 \<le> char_code c) (escape_char c)" for c
    using char_code_less [of c]
    by (auto simp: escape_char_def sprintf_u04x_def hex_digit_def short_escape_def char_code_def split: if_splits)
  then have "list_all (\<lambda>c. 32 \<le> char_code c) (concat (map escape_char s))"
    by (auto simp: list_all_iff)
  then show ?thesis
    using escape_loop_fills [of s "[]" nul] by (simp add: escape_string_eq length_escape escape_buffer_def)
qed

end
