(* ===== verification/JsonParser.thy ===== *)
theory JsonParser
  imports JsonDump
begin

text \<open>
  The parser of the JSON library (\<open>external/json.hpp\<close>): \<open>to_unicode\<close>, \<open>get_string\<close> and \<open>get_number\<close> of the
  class \<open>lexer\<close>, and the class \<open>parser\<close> without a callback. \<open>parse_internal\<close> and its two loops take fuel;
  \<open>Hang\<close> would be its end, and \<open>json_parse\<close> starts with enough for any text.
\<close>

section \<open>Strings\<close>

definition utf8_tail :: "nat \<Rightarrow> char" where
  "utf8_tail n = char_of (0x80 OR (n AND 0x3F))"

definition to_unicode :: "nat \<Rightarrow> nat \<Rightarrow> string result" where
  "to_unicode codepoint1 codepoint2 =
     rbind
       (if 0xD800 \<le> codepoint1 \<and> codepoint1 \<le> 0xDBFF
        then (if 0xDC00 \<le> codepoint2 \<and> codepoint2 \<le> 0xDFFF
              then Inr (push_bit 10 codepoint1 + codepoint2 - 0x35FDC00)
              else Inl (Uncaught invalid_argument))
        else Inr codepoint1)
       (\<lambda>codepoint.
          if codepoint < 0x80 then Inr [char_of codepoint]
          else if codepoint \<le> 0x7FF
          then Inr [char_of (0xC0 OR (drop_bit 6 codepoint AND 0x1F)), utf8_tail codepoint]
          else if codepoint \<le> 0xFFFF
          then Inr [char_of (0xE0 OR (drop_bit 12 codepoint AND 0x0F)), utf8_tail (drop_bit 6 codepoint),
                    utf8_tail codepoint]
          else if codepoint \<le> 0x10FFFF
          then Inr [char_of (0xF0 OR (drop_bit 18 codepoint AND 0x07)), utf8_tail (drop_bit 12 codepoint),
                    utf8_tail (drop_bit 6 codepoint), utf8_tail codepoint]
          else Inl (Uncaught out_of_range))"

text \<open>
  \<open>std::strtoul\<close> with base 16 on the four characters of \<open>std::string(p, 4)\<close>: blanks, a sign and \<open>0x\<close> are
  allowed in front; a negative number wraps around. Reading four characters behind the buffer is
  undefined.
\<close>

definition strtoul16 :: "string \<Rightarrow> nat" where
  "strtoul16 s =
     (let (neg, p) = strip_sign (dropWhile isspace s);
          q = (case p of z # x # h # r \<Rightarrow>
                 if z = CHR ''0'' \<and> (x = CHR ''x'' \<or> x = CHR ''X'') \<and> is_hex h then h # r else p
               | _ \<Rightarrow> p);
          v = digits_value 16 (takeWhile is_hex q)
      in if neg then (2 ^ 64 - v) mod 2 ^ 64 else v)"

definition read_hex4 :: "string \<Rightarrow> nat result" where
  "read_hex4 p = (if length p < 4 then Inl Undefined else Inr (strtoul16 (take 4 p)))"

definition unescape_char :: "char \<Rightarrow> string" where
  "unescape_char c =
     (if c = CHR ''t'' then [CHR 0x09]
      else if c = CHR ''b'' then [CHR 0x08]
      else if c = CHR ''f'' then [CHR 0x0C]
      else if c = CHR ''n'' then [CHR 0x0A]
      else if c = CHR ''r'' then [CHR 0x0D]
      else if c = CHR 0x5C \<or> c = CHR ''/'' \<or> c = CHR 0x22 then [c]
      else [])"

text \<open>
  The case \<open>u\<close> of the switch: \<open>p\<close> is the pointer \<open>i\<close> at the letter, and the result is what is appended
  and by how much \<open>i\<close> moves, its increment in the loop included. \<open>m_limit\<close> is the place of the
  terminating null character.
\<close>

definition unescape_u :: "string \<Rightarrow> (string \<times> nat) result" where
  "unescape_u p =
     rbind (read_hex4 (drop 1 p))
       (\<lambda>codepoint.
          if 0xD800 \<le> codepoint \<and> codepoint \<le> 0xDBFF
          then (if length p - 1 \<le> 6 \<or> p ! 5 \<noteq> CHR 0x5C \<or> p ! 6 \<noteq> CHR ''u''
                then Inl (Uncaught invalid_argument)
                else rbind (read_hex4 (drop 7 p))
                       (\<lambda>codepoint2. rbind (to_unicode codepoint codepoint2) (\<lambda>s. Inr (s, 12))))
          else rbind (to_unicode codepoint 0) (\<lambda>s. Inr (s, 5)))"

text \<open>
  The loop of \<open>get_string\<close>: \<open>p\<close> is the pointer \<open>i\<close> and \<open>n\<close> is \<open>m_cursor - 1 - i\<close>, cut off at zero.
\<close>

function unescape :: "string \<Rightarrow> nat \<Rightarrow> string \<Rightarrow> string result" where
  "unescape p n res =
     (if n = 0 then Inr res
      else rbind (deref p)
        (\<lambda>c. if c \<noteq> CHR 0x5C then unescape (tl p) (n - 1) (res @ [c])
              else rbind (deref (tl p))
                (\<lambda>e. if e = CHR ''u''
                      then (case unescape_u (tl p) of
                              Inl x \<Rightarrow> Inl x
                            | Inr (s, k) \<Rightarrow> unescape (drop k (tl p)) (n - 1 - k) (res @ s))
                      else unescape (drop 2 p) (n - 2) (res @ unescape_char e))))"
  by auto

termination
  by (relation "measure (\<lambda>(p, n, res). n)") auto

declare unescape.simps [simp del]

definition lexer_get_string :: "string \<Rightarrow> string \<Rightarrow> string result" where
  "lexer_get_string start cursor = unescape (tl start) (length start - length cursor - 2) []"

section \<open>Numbers\<close>

text \<open>\<open>None\<close> is NaN, the value for a token that is not all of the number at \<open>m_start\<close>.\<close>

definition get_number :: "string \<Rightarrow> string \<Rightarrow> long_double option" where
  "get_number start cursor =
     (let (x, endptr) = strtold start in if length endptr = length cursor then Some x else None)"

definition approx :: "rat \<Rightarrow> rat \<Rightarrow> bool" where
  "approx a b \<longleftrightarrow> \<not> (b < a \<or> a < b)"

definition number_value :: "long_double \<Rightarrow> json result" where
  "number_value x =
     rbind (to_int64 x)
       (\<lambda>i. case x of
              Infinite _ \<Rightarrow> Inl Undefined
            | Finite neg q \<Rightarrow>
                if approx (with_sign neg q) (of_int (sint i)) then Inr (JInt i) else Inr (JFloat neg (to_double q)))"

section \<open>The parser\<close>

record json_parser =
  last_token :: token
  m_start :: string
  m_cursor :: string

definition get_token :: "json_parser \<Rightarrow> json_parser result" where
  "get_token st =
     rbind (scan (m_cursor st)) (\<lambda>(t, s, c). Inr \<lparr>last_token = t, m_start = s, m_cursor = c\<rparr>)"

definition expect :: "token \<Rightarrow> json_parser \<Rightarrow> unit result" where
  "expect t st = (if t \<noteq> last_token st then Inl (Uncaught invalid_argument) else Inr ())"

definition unexpect :: "token \<Rightarrow> json_parser \<Rightarrow> unit result" where
  "unexpect t st = (if t = last_token st then Inl (Uncaught invalid_argument) else Inr ())"

text \<open>The first step of both loops: a comma is passed over.\<close>

definition skip_comma :: "json_parser \<Rightarrow> json_parser result" where
  "skip_comma st = (if last_token st = value_separator then get_token st else Inr st)"

text \<open>The key of a member, its colon, and the first token of its value.\<close>

definition parse_key :: "json_parser \<Rightarrow> (string \<times> json_parser) result" where
  "parse_key st =
     rbind (skip_comma st)
       (\<lambda>st. rbind (expect value_string st)
         (\<lambda>_. rbind (lexer_get_string (m_start st) (m_cursor st))
           (\<lambda>key. rbind (get_token st)
             (\<lambda>st. rbind (expect name_separator st)
               (\<lambda>_. rbind (get_token st) (\<lambda>st. Inr (key, st)))))))"

text \<open>The values that are one token.\<close>

definition parse_scalar :: "json_parser \<Rightarrow> (json \<times> json_parser) result" where
  "parse_scalar st =
     (case last_token st of
        literal_null \<Rightarrow> rbind (get_token st) (\<lambda>st. Inr (JNull, st))
      | value_string \<Rightarrow>
          rbind (lexer_get_string (m_start st) (m_cursor st))
            (\<lambda>s. rbind (get_token st) (\<lambda>st. Inr (JString s, st)))
      | literal_true \<Rightarrow> rbind (get_token st) (\<lambda>st. Inr (JBool True, st))
      | literal_false \<Rightarrow> rbind (get_token st) (\<lambda>st. Inr (JBool False, st))
      | value_number \<Rightarrow>
          (case get_number (m_start st) (m_cursor st) of
             None \<Rightarrow> Inl (Uncaught invalid_argument)
           | Some x \<Rightarrow> rbind (get_token st) (\<lambda>st. rbind (number_value x) (\<lambda>j. Inr (j, st))))
      | t \<Rightarrow> rbind (unexpect t st) (\<lambda>_. Inr (JNull, st)))"

fun parse_internal :: "nat \<Rightarrow> json_parser \<Rightarrow> (json \<times> json_parser) result"
  and parse_members :: "nat \<Rightarrow> (string \<times> json) list \<Rightarrow> json_parser \<Rightarrow> ((string \<times> json) list \<times> json_parser) result"
  and parse_elements :: "nat \<Rightarrow> json list \<Rightarrow> json_parser \<Rightarrow> (json list \<times> json_parser) result" where
  "parse_internal 0 st = Inl Hang"
| "parse_internal (Suc n) st =
     (if last_token st = begin_object
      then rbind (get_token st)
        (\<lambda>st. if last_token st = end_object then rbind (get_token st) (\<lambda>st. Inr (JObject [], st))
               else rbind (unexpect value_separator st)
                 (\<lambda>_. rbind (parse_members n [] st)
                   (\<lambda>(kvs, st). rbind (expect end_object st)
                     (\<lambda>_. rbind (get_token st) (\<lambda>st. Inr (JObject kvs, st))))))
      else if last_token st = begin_array
      then rbind (get_token st)
        (\<lambda>st. if last_token st = end_array then rbind (get_token st) (\<lambda>st. Inr (JArray [], st))
               else rbind (unexpect value_separator st)
                 (\<lambda>_. rbind (parse_elements n [] st)
                   (\<lambda>(xs, st). rbind (expect end_array st)
                     (\<lambda>_. rbind (get_token st) (\<lambda>st. Inr (JArray xs, st))))))
      else parse_scalar st)"
| "parse_members 0 kvs st = Inl Hang"
| "parse_members (Suc n) kvs st =
     rbind (parse_key st)
       (\<lambda>(key, st). rbind (parse_internal n st)
         (\<lambda>(v, st). let kvs = map_set kvs key v
                     in if last_token st = value_separator then parse_members n kvs st else Inr (kvs, st)))"
| "parse_elements 0 xs st = Inl Hang"
| "parse_elements (Suc n) xs st =
     rbind (skip_comma st)
       (\<lambda>st. rbind (parse_internal n st)
         (\<lambda>(v, st). let xs = xs @ [v]
                     in if last_token st = value_separator then parse_elements n xs st else Inr (xs, st)))"

declare parse_internal.simps(2) [simp del] parse_members.simps(2) [simp del] parse_elements.simps(2) [simp del]

definition json_parse :: "string \<Rightarrow> json result" where
  "json_parse s =
     rbind (get_token \<lparr>last_token = uninitialized, m_start = s @ [nul], m_cursor = s @ [nul]\<rparr>)
       (\<lambda>st. rbind (parse_internal (2 * length s + 4) st)
         (\<lambda>(j, st). rbind (expect end_of_input st) (\<lambda>_. Inr j)))"

end
