(* ===== verification/JsonText.thy ===== *)
theory JsonText
  imports JsonParser
begin

text \<open>
  The text form of JSON: what was printed is read back, the parser ends on every text, and what it
  returns is well-formed. \<open>at_token p\<close> is the state of the parser after it read the token at \<open>p\<close>.
\<close>

section \<open>Tokens\<close>

definition at_token :: "string \<Rightarrow> json_parser" where
  "at_token p =
     (case scan p of
        Inl _ \<Rightarrow> \<lparr>last_token = uninitialized, m_start = p, m_cursor = p\<rparr>
      | Inr (t, s, c) \<Rightarrow> \<lparr>last_token = t, m_start = s, m_cursor = c\<rparr>)"

lemma get_token_at: "nul \<in> set (m_cursor st) \<Longrightarrow> get_token st = Inr (at_token (m_cursor st))"
  using scan_nul_ahead [of "m_cursor st"]
  by (auto simp: get_token_def at_token_def scanned_def split: sum.splits)

lemma is_blank_not: "is_blank c \<Longrightarrow> c \<noteq> nul"
  by (auto simp: is_blank_def char_code_def nul_def)

lemma scan_blank: "is_blank b \<Longrightarrow> scan (b # p) = scan p"
proof (cases p)
  case (Cons c q)
  assume b: "is_blank b"
  have "scan (b # p) = (case scan_blanks p of Inl e \<Rightarrow> Inl e | Inr q \<Rightarrow> scan q)"
    using b is_blank_not by (simp add: scan.simps(2))
  also have "\<dots> = scan p"
    using is_blank_not [of c] by (cases "is_blank c") (simp_all add: Cons scan.simps(2) [of c q])
  finally show ?thesis .
qed (auto simp: scan.simps dest: is_blank_not)

lemma scan_blanks_append: "list_all is_blank bs \<Longrightarrow> scan (bs @ p) = scan p"
  by (induction bs) (simp_all add: scan_blank)

lemma at_token_blanks: "list_all is_blank bs \<Longrightarrow> at_token (bs @ p) = at_token p"
  if "nul \<in> set p"
  using scan_nul_ahead [OF that] by (auto simp: at_token_def scan_blanks_append scanned_def split: sum.splits)

lemma at_token_char:
  "at_token (CHR ''['' # p) = \<lparr>last_token = begin_array, m_start = CHR ''['' # p, m_cursor = p\<rparr>"
  "at_token (CHR '']'' # p) = \<lparr>last_token = end_array, m_start = CHR '']'' # p, m_cursor = p\<rparr>"
  "at_token (CHR ''{'' # p) = \<lparr>last_token = begin_object, m_start = CHR ''{'' # p, m_cursor = p\<rparr>"
  "at_token (CHR ''}'' # p) = \<lparr>last_token = end_object, m_start = CHR ''}'' # p, m_cursor = p\<rparr>"
  "at_token (CHR '','' # p) = \<lparr>last_token = value_separator, m_start = CHR '','' # p, m_cursor = p\<rparr>"
  "at_token (CHR '':'' # p) = \<lparr>last_token = name_separator, m_start = CHR '':'' # p, m_cursor = p\<rparr>"
  "at_token (nul # p) = \<lparr>last_token = end_of_input, m_start = nul # p, m_cursor = p\<rparr>"
  by (simp_all add: at_token_def scan.simps is_blank_def isdigit_def char_code_def) (simp_all add: nul_def)

lemma at_token_word:
  "at_token (''true'' @ p) = \<lparr>last_token = literal_true, m_start = ''true'' @ p, m_cursor = p\<rparr>"
  "at_token (''false'' @ p) = \<lparr>last_token = literal_false, m_start = ''false'' @ p, m_cursor = p\<rparr>"
  "at_token (''null'' @ p) = \<lparr>last_token = literal_null, m_start = ''null'' @ p, m_cursor = p\<rparr>"
  by (simp_all add: at_token_def scan.simps is_blank_def isdigit_def char_code_def nul_def accept_def)

section \<open>Strings\<close>

lemma hex_digit:
  assumes "n < 16"
  shows "is_hex (hex_digit n)" "digit_value (hex_digit n) = n"
  using assms
  by (auto simp: hex_digit_def is_hex_def isdigit_def digit_value_def char_code_def of_char_of)

lemma short_escape_props:
  "short_escape c = Some e \<Longrightarrow> e \<in> set simple_escapes \<and> e \<noteq> CHR ''u'' \<and> unescape_char e = [c]"
  by (auto simp: short_escape_def simple_escapes_def unescape_char_def split: if_splits)

lemma plain_escape:
  assumes "short_escape c = None" "\<not> char_code c \<le> 31"
  shows "is_plain c" "c \<noteq> CHR 0x5C"
  using assms char_code_eq_iff [of c "CHR 0x22"] char_code_eq_iff [of c "CHR 0x5C"]
  by (auto simp: short_escape_def is_plain_def char_code_def split: if_splits)

lemma backslash_class [simp]: "\<not> is_plain (CHR 0x5C)" "char_code (CHR 0x5C) = 92"
  by (simp_all add: is_plain_def char_code_def)

lemma zero_hex [simp]: "is_hex (CHR ''0'')"
  by (simp add: is_hex_def isdigit_def char_code_def)

lemma scan_31_escaped: "scan_31 (concat (map escape_char s) @ CHR 0x22 # q) = Inr (Some q)"
proof (induction s)
  case (Cons c s)
  show ?case
  proof (cases "short_escape c")
    case None
    show ?thesis
    proof (cases "char_code c \<le> 31")
      case True
      then have "is_hex (hex_digit (char_code c div 16))" "is_hex (hex_digit (char_code c mod 16))"
        by (auto intro: hex_digit)
      then show ?thesis
        using Cons None True by (simp add: escape_char_def sprintf_u04x_def simple_escapes_def)
    next
      case False
      then show ?thesis
        using Cons None plain_escape by (simp add: escape_char_def)
    qed
  next
    case (Some e)
    then show ?thesis
      using Cons short_escape_props [OF Some] by (simp add: escape_char_def)
  qed
qed (simp add: is_plain_def char_code_def)

lemma strtoul16_u04x:
  assumes "n \<le> 31"
  shows "strtoul16 [CHR ''0'', CHR ''0'', hex_digit (n div 16), hex_digit (n mod 16)] = n"
proof -
  have "is_hex (hex_digit (n div 16))" "is_hex (hex_digit (n mod 16))"
    "digit_value (hex_digit (n div 16)) = n div 16" "digit_value (hex_digit (n mod 16)) = n mod 16"
    using assms by (auto intro!: hex_digit)
  moreover have "digit_value (CHR ''0'') = 0"
    by (simp add: digit_value_def isdigit_def char_code_def)
  ultimately show ?thesis
    by (simp add: strtoul16_def isspace_def char_code_def strip_sign_def digits_value_def)
qed

lemma unescape_u_long:
  "char_code c \<le> 31 \<Longrightarrow> unescape_u (sprintf_u04x (char_code c) @ rest) = Inr ([c], 5)"
  by (simp add: unescape_u_def read_hex4_def sprintf_u04x_def strtoul16_u04x to_unicode_def)
    (simp add: char_code_def)

lemma unescape_escaped:
  "unescape (concat (map escape_char s) @ rest) (length (concat (map escape_char s))) res = Inr (res @ s)"
proof (induction s arbitrary: res)
  case (Cons c s)
  show ?case
  proof (cases "short_escape c")
    case None
    show ?thesis
    proof (cases "char_code c \<le> 31")
      case True
      have "length (sprintf_u04x (char_code c)) = 5" "hd (sprintf_u04x (char_code c)) = CHR ''u''"
        "sprintf_u04x (char_code c) \<noteq> []"
        by (simp_all add: sprintf_u04x_def)
      moreover have "escape_char c = CHR 0x5C # sprintf_u04x (char_code c)"
        using None True by (simp add: escape_char_def)
      ultimately show ?thesis
        using Cons unescape_u_long [OF True, of "concat (map escape_char s) @ rest"]
        by (subst unescape.simps) (auto simp: neq_Nil_conv)
    next
      case False
      then show ?thesis
        using Cons None plain_escape [OF None False]
        by (subst unescape.simps) (simp add: escape_char_def [of c])
    qed
  next
    case (Some e)
    then show ?thesis
      using Cons short_escape_props [OF Some] by (subst unescape.simps) (simp add: escape_char_def [of c])
  qed
qed (simp add: unescape.simps)

lemma quoted_eq: "quoted s @ q = CHR 0x22 # concat (map escape_char s) @ CHR 0x22 # q"
  by (simp add: quoted_def escape_string_eq)

lemma escape_first:
  "s \<noteq> [] \<Longrightarrow> \<exists>c p. concat (map escape_char s) = c # p \<and> 15 < char_code c"
proof (cases s)
  case (Cons c s')
  then show ?thesis
    by (cases "short_escape c") (auto simp: escape_char_def char_code_def)
qed simp

lemma at_token_quoted:
  "at_token (quoted s @ q) = \<lparr>last_token = value_string, m_start = quoted s @ q, m_cursor = q\<rparr>"
proof -
  let ?p = "concat (map escape_char s) @ CHR 0x22 # q"
  have "\<exists>d p. ?p = d # p \<and> 15 < char_code d"
    using escape_first [of s] by (cases "s = []") (auto simp: char_code_def)
  then have "scan (CHR 0x22 # ?p) = Inr (value_string, CHR 0x22 # ?p, q)"
    using scan_31_escaped [of s q]
    by (auto simp: scan.simps(2) accept_def is_blank_def char_code_def nul_def simp del: concat_map_singleton)
  then show ?thesis
    by (simp add: at_token_def quoted_eq)
qed

lemma get_string_quoted: "lexer_get_string (quoted s @ q) q = Inr s"
  using unescape_escaped [of s "CHR 0x22 # q" "[]"] by (simp add: lexer_get_string_def quoted_eq)

section \<open>Numbers\<close>

lemma scan_41_digits:
  "list_all isdigit ds \<Longrightarrow> delimiter d \<Longrightarrow> scan_41 (ds @ d # q) = Inr (d # q)"
  by (induction ds) (auto simp: scan_23_def dest: delimiter_not)

lemma show_nat_leading:
  "show_nat n = ''0'' \<or> (\<exists>c cs. show_nat n = c # cs \<and> isdigit c \<and> c \<noteq> CHR ''0'' \<and> list_all isdigit cs)"
proof (induction n rule: show_nat.induct)
  case (1 n)
  show ?case
  proof (cases "n < 10")
    case True
    then have "digit n \<noteq> CHR ''0''" if "n \<noteq> 0"
      using char_code_digit [OF True] that by (auto simp: char_code_def)
    then show ?thesis
      using isdigit_digit [OF True] True by (cases "n = 0") (auto simp: show_nat_small digit_def)
  next
    case False
    then have "show_nat (n div 10) \<noteq> ''0''"
      using digits_value_show [of "n div 10"] by (auto simp: digits_value_def digit_value_def isdigit_def char_code_def)
    with 1 [OF False] obtain c cs where
      "show_nat (n div 10) = c # cs" "isdigit c" "c \<noteq> CHR ''0''" "list_all isdigit cs"
      by blast
    moreover have "show_nat n = show_nat (n div 10) @ [digit (n mod 10)]"
      using False by (intro show_nat_step) simp
    ultimately show ?thesis
      using isdigit_digit [of "n mod 10"] by simp
  qed
qed

lemma scan_digits:
  assumes "delimiter d"
  shows "scan (show_nat n @ d # q) = Inr (value_number, show_nat n @ d # q, d # q)"
    and "scan (CHR ''-'' # show_nat n @ d # q) = Inr (value_number, CHR ''-'' # show_nat n @ d # q, d # q)"
proof -
  have minus: "CHR ''-'' \<noteq> nul" "\<not> is_blank (CHR ''-'')"
    by (simp_all add: nul_def is_blank_def char_code_def)
  have zero: "isdigit (CHR ''0'')"
    by (simp add: isdigit_def char_code_def)
  have num: "scan_23 (d # q) = Inr (d # q)"
    using delimiter_not [OF assms] by (simp add: scan_23_def)
  show "scan (show_nat n @ d # q) = Inr (value_number, show_nat n @ d # q, d # q)"
    using show_nat_leading [of n] num scan_41_digits [OF _ assms] isdigit_ne [OF zero]
    by (auto simp: scan.simps(2) isdigit_ne)
  show "scan (CHR ''-'' # show_nat n @ d # q) = Inr (value_number, CHR ''-'' # show_nat n @ d # q, d # q)"
    using show_nat_leading [of n] num scan_41_digits [OF _ assms] minus
    by (auto simp: scan.simps(2) [of "CHR ''-''"] scan_22_def accept_def)
qed

lemma at_token_int64:
  assumes "delimiter d"
  shows "at_token (show_int64 w @ d # q) =
    \<lparr>last_token = value_number, m_start = show_int64 w @ d # q, m_cursor = d # q\<rparr>"
  using scan_digits [OF assms, of _ q] by (simp add: at_token_def show_int64_def Let_def)

lemma get_number_int64:
  assumes "delimiter d"
  obtains x where "get_number (show_int64 w @ d # q) (d # q) = Some x" "number_value x = Inr (JInt w)"
proof -
  obtain neg r where r: "strtold (show_int64 w @ d # q) = (Finite neg r, d # q)"
    "with_sign neg r = of_int (sint w)" "to_int64 (Finite neg r) = Inr w"
    using strtold_int64 [OF assms] by blast
  have "get_number (show_int64 w @ d # q) (d # q) = Some (Finite neg r)"
    by (simp add: get_number_def r(1))
  moreover have "number_value (Finite neg r) = Inr (JInt w)"
    using r(2,3) by (simp add: number_value_def approx_def)
  ultimately show thesis
    using that by blast
qed

section \<open>What was printed is read back\<close>

definition ends :: "string \<Rightarrow> bool" where
  "ends q \<longleftrightarrow> nul \<in> set q \<and> delimiter (hd q)"

lemma ends_Cons: "ends (d # q) \<longleftrightarrow> (d = nul \<or> nul \<in> set q) \<and> delimiter d"
  by (auto simp: ends_def)

lemma ends_obtain:
  assumes "ends q"
  obtains d r where "q = d # r" "delimiter d" "nul \<in> set q"
  using assms by (cases q) (auto simp: ends_def)

lemma comma_delimiter [simp]: "delimiter (CHR '','')" "delimiter (CHR '']'')" "delimiter (CHR ''}'')"
  by (simp_all add: delimiter_def)

lemma get_token_cursor:
  "nul \<in> set p \<Longrightarrow> get_token \<lparr>last_token = t, m_start = s, m_cursor = p\<rparr> = Inr (at_token p)"
  by (simp add: get_token_at)

lemma skip_comma_at:
  assumes "nul \<in> set p" "list_all is_blank nl"
  shows "skip_comma (at_token (CHR '','' # nl @ p)) = Inr (at_token p)"
  using assms by (simp add: skip_comma_def at_token_char get_token_cursor at_token_blanks)

lemma skip_comma_other: "last_token st \<noteq> value_separator \<Longrightarrow> skip_comma st = Inr st"
  by (simp add: skip_comma_def)

text \<open>The elements of an array, each with a text that is read back.\<close>

lemma parse_elements_dump:
  assumes "xs \<noteq> []"
    and "\<And>x n q. x \<in> set xs \<Longrightarrow> ends q \<Longrightarrow> 2 * length (f x) \<le> n \<Longrightarrow>
      parse_internal n (at_token (f x @ q)) = Inr (x, at_token q)"
    and "list_all is_blank nl" and "ends r" and "last_token (at_token r) \<noteq> value_separator"
    and "2 * length (separate (CHR '','' # nl) (map f xs)) + 1 \<le> n"
    and "skip_comma st = Inr (at_token (separate (CHR '','' # nl) (map f xs) @ r))"
  shows "parse_elements n acc st = Inr (acc @ xs, at_token r)"
  using assms
proof (induction xs arbitrary: n acc st rule: list_nonempty_induct)
  case (single x)
  obtain m where m: "n = Suc m"
    using single.prems(5) by (cases n) auto
  then show ?case
    using single.prems(1) [of x r m] single.prems by (simp add: parse_elements.simps(2))
next
  case (cons x xs)
  obtain y ys where y: "xs = y # ys"
    using cons.hyps by (cases xs) auto
  obtain m where m: "n = Suc m"
    using cons.prems(5) by (cases n) auto
  let ?rest = "separate (CHR '','' # nl) (map f xs) @ r"
  have nul: "nul \<in> set ?rest"
    using cons.prems(3) by (simp add: ends_def)
  have split_text: "separate (CHR '','' # nl) (map f (x # xs)) @ r = f x @ CHR '','' # nl @ ?rest"
    by (simp add: y)
  have "parse_internal m (at_token (f x @ CHR '','' # nl @ ?rest)) = Inr (x, at_token (CHR '','' # nl @ ?rest))"
    using cons.prems(5) nul by (intro cons.prems(1)) (auto simp: m y ends_Cons)
  moreover have "parse_elements m (acc @ [x]) (at_token (CHR '','' # nl @ ?rest)) = Inr ((acc @ [x]) @ xs, at_token r)"
    using cons.prems skip_comma_at [OF nul cons.prems(2)] by (intro cons.IH) (auto simp: m y)
  ultimately show ?case
    using cons.prems(6) unfolding m split_text by (simp add: parse_elements.simps(2) at_token_char)
qed

text \<open>The members of an object.\<close>

definition member_text :: "string \<Rightarrow> string \<Rightarrow> (json \<Rightarrow> string) \<Rightarrow> string \<times> json \<Rightarrow> string" where
  "member_text bs bs' f kv = bs @ quoted (fst kv) @ CHR '':'' # bs' @ f (snd kv)"

lemma parse_key_member:
  assumes "list_all is_blank bs" "list_all is_blank bs'" "nul \<in> set q"
    and "skip_comma st = Inr (at_token (member_text bs bs' f (k, v) @ q))"
  shows "parse_key st = Inr (k, at_token (f v @ q))"
proof -
  have "at_token (member_text bs bs' f (k, v) @ q) = at_token (quoted k @ CHR '':'' # bs' @ f v @ q)"
    using assms(1,3) at_token_blanks [of "quoted k @ CHR '':'' # bs' @ f v @ q" bs] by (simp add: member_text_def)
  moreover have "at_token (bs' @ f v @ q) = at_token (f v @ q)"
    using assms(2,3) by (simp add: at_token_blanks)
  ultimately show ?thesis
    using assms(3,4)
    by (simp add: parse_key_def at_token_quoted expect_def get_string_quoted get_token_cursor at_token_char)
qed

lemma map_set_append: "map_ordered (m @ [(k, v)]) \<Longrightarrow> map_set m k v = m @ [(k, v)]"
  by (induction m) (auto simp: map_ordered_def)

lemma parse_members_dump:
  assumes "kvs \<noteq> []"
    and "\<And>kv n q. kv \<in> set kvs \<Longrightarrow> ends q \<Longrightarrow> 2 * length (f (snd kv)) \<le> n \<Longrightarrow>
      parse_internal n (at_token (f (snd kv) @ q)) = Inr (snd kv, at_token q)"
    and "list_all is_blank nl" "list_all is_blank bs" "list_all is_blank bs'"
    and "ends r" and "last_token (at_token r) \<noteq> value_separator"
    and "2 * length (separate (CHR '','' # nl) (map (member_text bs bs' f) kvs)) + 1 \<le> n"
    and "skip_comma st = Inr (at_token (separate (CHR '','' # nl) (map (member_text bs bs' f) kvs) @ r))"
    and "map_ordered (acc @ kvs)"
  shows "parse_members n acc st = Inr (acc @ kvs, at_token r)"
  using assms
proof (induction kvs arbitrary: n acc st rule: list_nonempty_induct)
  case (single kv)
  obtain m where m: "n = Suc m"
    using single.prems(7) by (cases n) auto
  obtain k v where kv: "kv = (k, v)"
    by (cases kv)
  have "parse_key st = Inr (k, at_token (f v @ r))"
    using single.prems by (intro parse_key_member) (auto simp: kv ends_def)
  moreover have "parse_internal m (at_token (f v @ r)) = Inr (v, at_token r)"
    using single.prems(1) [of kv r m] single.prems by (simp add: m kv member_text_def)
  ultimately show ?case
    using single.prems by (simp add: m kv parse_members.simps(2) map_set_append)
next
  case (cons kv kvs)
  obtain y ys where y: "kvs = y # ys"
    using cons.hyps by (cases kvs) auto
  obtain m where m: "n = Suc m"
    using cons.prems(7) by (cases n) auto
  obtain k v where kv: "kv = (k, v)"
    by (cases kv)
  let ?g = "member_text bs bs' f"
  let ?rest = "separate (CHR '','' # nl) (map ?g kvs) @ r"
  have nul: "nul \<in> set ?rest"
    using cons.prems(5) by (simp add: ends_def)
  have split_text: "separate (CHR '','' # nl) (map ?g (kv # kvs)) @ r = ?g kv @ CHR '','' # nl @ ?rest"
    by (simp add: y)
  have "parse_key st = Inr (k, at_token (f v @ CHR '','' # nl @ ?rest))"
    using cons.prems nul split_text by (intro parse_key_member) (auto simp: kv)
  moreover have "parse_internal m (at_token (f v @ CHR '','' # nl @ ?rest)) = Inr (v, at_token (CHR '','' # nl @ ?rest))"
    using cons.prems(1) [of kv "CHR '','' # nl @ ?rest" m] cons.prems(7) nul
    by (auto simp: m y kv ends_Cons member_text_def)
  moreover have ord: "map_ordered (acc @ [kv] @ kvs)" "map_ordered (acc @ [kv])"
    using cons.prems(9) by (auto simp: map_ordered_def sorted_wrt_append)
  moreover have "parse_members m (acc @ [kv]) (at_token (CHR '','' # nl @ ?rest)) = Inr ((acc @ [kv]) @ kvs, at_token r)"
    using cons.prems skip_comma_at [OF nul cons.prems(2)] ord by (intro cons.IH) (auto simp: m y)
  ultimately show ?case
    unfolding m by (simp add: parse_members.simps(2) at_token_char kv map_set_append)
qed

lemma blank_texts [simp]: "list_all is_blank (newline pretty)" "list_all is_blank (spaces n)"
  "list_all is_blank (if pretty then '' '' else [])"
  by (simp_all add: newline_def spaces_def list_all_iff is_blank_def char_code_def)

lemma blank_append_ends: "list_all is_blank bs \<Longrightarrow> ends q \<Longrightarrow> ends (bs @ q)"
  by (cases bs) (auto simp: ends_def delimiter_def)

lemma closing:
  assumes "nul \<in> set q"
  shows "ends (newline pretty @ spaces n @ CHR '']'' # q)" "ends (newline pretty @ spaces n @ CHR ''}'' # q)"
    "at_token (newline pretty @ spaces n @ CHR '']'' # q) = at_token (CHR '']'' # q)"
    "at_token (newline pretty @ spaces n @ CHR ''}'' # q) = at_token (CHR ''}'' # q)"
  using assms by (simp_all add: blank_append_ends ends_Cons at_token_blanks)

lemma parse_scalar_dump:
  assumes "ends q"
  shows "parse_scalar (at_token (''null'' @ q)) = Inr (JNull, at_token q)"
    and "parse_scalar (at_token (''true'' @ q)) = Inr (JBool True, at_token q)"
    and "parse_scalar (at_token (''false'' @ q)) = Inr (JBool False, at_token q)"
    and "parse_scalar (at_token (quoted s @ q)) = Inr (JString s, at_token q)"
    and "parse_scalar (at_token (show_int64 w @ q)) = Inr (JInt w, at_token q)"
proof -
  obtain d r where q: "q = d # r" "delimiter d" "nul \<in> set q"
    using assms by (rule ends_obtain)
  show "parse_scalar (at_token (''null'' @ q)) = Inr (JNull, at_token q)"
    "parse_scalar (at_token (''true'' @ q)) = Inr (JBool True, at_token q)"
    "parse_scalar (at_token (''false'' @ q)) = Inr (JBool False, at_token q)"
    "parse_scalar (at_token (quoted s @ q)) = Inr (JString s, at_token q)"
    using q(3) by (simp_all only: at_token_word at_token_quoted parse_scalar_def)
      (simp_all add: get_token_cursor get_string_quoted)
  obtain x where "get_number (show_int64 w @ d # r) (d # r) = Some x" "number_value x = Inr (JInt w)"
    using get_number_int64 [OF q(2)] .
  then show "parse_scalar (at_token (show_int64 w @ q)) = Inr (JInt w, at_token q)"
    using q by (simp add: parse_scalar_def at_token_int64 get_token_cursor)
qed

lemma first_token:
  assumes "json_exact j" "ends q"
  shows "last_token (at_token (dump_to pretty step current j @ q)) \<notin> {value_separator, end_array, end_object}"
proof -
  obtain d r where q: "q = d # r" "delimiter d"
    using assms(2) by (rule ends_obtain)
  show ?thesis
    using assms(1) at_token_word [of q] at_token_int64 [OF q(2), of _ r]
    by (cases j) (simp_all add: at_token_char at_token_quoted q Let_def)
qed

lemma first_token_separate:
  assumes "xs \<noteq> []" "\<And>q. ends q \<Longrightarrow> last_token (at_token (hd xs @ q)) \<notin> T" "ends r"
  shows "last_token (at_token (separate (CHR '','' # nl) xs @ r)) \<notin> T"
proof (cases xs)
  case (Cons x ys)
  have "nul \<in> set r"
    using assms(3) by (simp add: ends_def)
  then show ?thesis
    using Cons assms(2) [of r] assms(2) [of "CHR '','' # nl @ separate (CHR '','' # nl) ys @ r"] assms(3)
    by (cases ys) (auto simp: ends_Cons)
qed (use assms in simp)

lemma parse_dump_array:
  assumes "xs \<noteq> []" "list_all json_exact xs" "ends q"
    and IH: "\<And>x n q. x \<in> set xs \<Longrightarrow> ends q \<Longrightarrow> 2 * length (dump_to pretty step indent x) \<le> n \<Longrightarrow>
      parse_internal n (at_token (dump_to pretty step indent x @ q)) = Inr (x, at_token q)"
    and T: "T = separate (CHR '','' # newline pretty) (map (\<lambda>v. spaces indent @ dump_to pretty step indent v) xs)"
    and n: "2 * (length T + 2) \<le> n"
  shows "parse_internal n (at_token (CHR ''['' # newline pretty @ T @ newline pretty @ spaces current @ CHR '']'' # q)) =
    Inr (JArray xs, at_token q)"
proof -
  let ?r = "newline pretty @ spaces current @ CHR '']'' # q"
  obtain m where m: "n = Suc m"
    using n by (cases n) auto
  have q: "nul \<in> set q"
    using assms(3) by (simp add: ends_def)
  note r = closing(1,3) [OF q, of pretty current]
  have "last_token (at_token (T @ ?r)) \<notin> {value_separator, end_array, end_object}"
    unfolding T
  proof (rule first_token_separate)
    show "last_token (at_token (hd (map (\<lambda>v. spaces indent @ dump_to pretty step indent v) xs) @ q)) \<notin>
        {value_separator, end_array, end_object}" if "ends q" for q
      using assms(1,2) that first_token [of "hd xs" q] at_token_blanks [of "dump_to pretty step indent (hd xs) @ q"]
      by (cases xs) (auto simp: ends_def)
  qed (use assms(1) r in simp_all)
  then have first: "last_token (at_token (T @ ?r)) \<noteq> value_separator" "last_token (at_token (T @ ?r)) \<noteq> end_array"
    by auto
  have "parse_internal k (at_token ((spaces indent @ dump_to pretty step indent x) @ p)) = Inr (x, at_token p)"
    if "x \<in> set xs" "ends p" "2 * length (spaces indent @ dump_to pretty step indent x) \<le> k" for x k p
    using IH [OF that(1,2), of k] that(2,3) at_token_blanks [of "dump_to pretty step indent x @ p" "spaces indent"]
    by (simp add: ends_def)
  then have "parse_elements m [] (at_token (T @ ?r)) = Inr ([] @ xs, at_token ?r)"
    using assms(1) n r first(1) skip_comma_other [OF first(1)] unfolding T
    by (intro parse_elements_dump) (auto simp: m at_token_char)
  then show ?thesis
    using q first r(2) at_token_blanks [of "T @ ?r" "newline pretty"]
    by (simp add: m parse_internal.simps(2) at_token_char get_token_cursor unexpect_def expect_def)
qed

lemma at_token_member:
  assumes "nul \<in> set q" "list_all is_blank bs"
  shows "last_token (at_token (member_text bs bs' f kv @ q)) = value_string"
  using assms at_token_blanks [of "quoted (fst kv) @ CHR '':'' # bs' @ f (snd kv) @ q" bs]
  by (simp add: member_text_def at_token_quoted)

lemma parse_dump_object:
  assumes "kvs \<noteq> []" "map_ordered kvs" "ends q"
    and IH: "\<And>kv n q. kv \<in> set kvs \<Longrightarrow> ends q \<Longrightarrow> 2 * length (dump_to pretty step indent (snd kv)) \<le> n \<Longrightarrow>
      parse_internal n (at_token (dump_to pretty step indent (snd kv) @ q)) = Inr (snd kv, at_token q)"
    and T: "T = separate (CHR '','' # newline pretty)
      (map (member_text (spaces indent) (if pretty then '' '' else []) (dump_to pretty step indent)) kvs)"
    and n: "2 * (length T + 2) \<le> n"
  shows "parse_internal n (at_token (CHR ''{'' # newline pretty @ T @ newline pretty @ spaces current @ CHR ''}'' # q)) =
    Inr (JObject kvs, at_token q)"
proof -
  let ?r = "newline pretty @ spaces current @ CHR ''}'' # q"
  obtain m where m: "n = Suc m"
    using n by (cases n) auto
  have q: "nul \<in> set q"
    using assms(3) by (simp add: ends_def)
  note r = closing(2,4) [OF q, of pretty current]
  have "last_token (at_token (T @ ?r)) \<notin> {value_separator, end_object}"
    unfolding T
  proof (rule first_token_separate)
    show "last_token (at_token (hd (map (member_text (spaces indent) (if pretty then '' '' else [])
        (dump_to pretty step indent)) kvs) @ q)) \<notin> {value_separator, end_object}" if "ends q" for q
      using assms(1) that at_token_member [of q "spaces indent"] by (cases kvs) (auto simp: ends_def)
  qed (use assms(1) r in simp_all)
  then have first: "last_token (at_token (T @ ?r)) \<noteq> value_separator" "last_token (at_token (T @ ?r)) \<noteq> end_object"
    by auto
  have "parse_members m [] (at_token (T @ ?r)) = Inr ([] @ kvs, at_token ?r)"
    using assms(1,2) IH n r first(1) skip_comma_other [OF first(1)] unfolding T
    by (intro parse_members_dump [where bs = "spaces indent" and bs' = "if pretty then '' '' else []"
          and f = "dump_to pretty step indent" and nl = "newline pretty"]) (auto simp: m at_token_char split del: if_split)
  then show ?thesis
    using q first r(2) at_token_blanks [of "T @ ?r" "newline pretty"]
    by (simp add: m parse_internal.simps(2) at_token_char get_token_cursor unexpect_def expect_def)
qed

lemma parse_internal_scalar:
  "last_token st \<noteq> begin_object \<Longrightarrow> last_token st \<noteq> begin_array \<Longrightarrow> 0 < n \<Longrightarrow> parse_internal n st = parse_scalar st"
  by (cases n) (simp_all add: parse_internal.simps(2))

lemma parse_dump:
  assumes "json_exact j" "ends q" "2 * length (dump_to pretty step current j) \<le> n"
  shows "parse_internal n (at_token (dump_to pretty step current j @ q)) = Inr (j, at_token q)"
  using assms
proof (induction pretty step current j arbitrary: n q rule: dump_to.induct)
  case (1 pretty step current kvs)
  have nul: "nul \<in> set q"
    using 1 by (simp add: ends_def)
  show ?case
  proof (cases "kvs = []")
    case True
    then obtain m where "n = Suc m"
      using 1 by (cases n) auto
    then show ?thesis
      using True nul by (simp add: parse_internal.simps(2) at_token_char get_token_cursor)
  next
    case False
    let ?indent = "if pretty then current + step else current"
    let ?T = "separate (CHR '','' # newline pretty)
      (map (member_text (spaces ?indent) (if pretty then '' '' else []) (dump_to pretty step ?indent)) kvs)"
    have dump: "dump_to pretty step current (JObject kvs) =
        CHR ''{'' # newline pretty @ ?T @ newline pretty @ spaces current @ ''}''"
      using False by (simp add: Let_def member_text_def [abs_def])
    have "2 * (length ?T + 2) \<le> n"
      using 1(4) unfolding dump by simp
    then have "parse_internal n (at_token (CHR ''{'' # newline pretty @ ?T @ newline pretty @ spaces current @ CHR ''}'' # q)) =
        Inr (JObject kvs, at_token q)"
      using 1(1-3) False by (intro parse_dump_object) (auto simp: list_all_iff split del: if_split)
    then show ?thesis
      unfolding dump by simp
  qed
next
  case (2 pretty step current xs)
  have nul: "nul \<in> set q"
    using 2 by (simp add: ends_def)
  show ?case
  proof (cases "xs = []")
    case True
    then obtain m where "n = Suc m"
      using 2 by (cases n) auto
    then show ?thesis
      using True nul by (simp add: parse_internal.simps(2) at_token_char get_token_cursor)
  next
    case False
    let ?indent = "if pretty then current + step else current"
    let ?T = "separate (CHR '','' # newline pretty) (map (\<lambda>v. spaces ?indent @ dump_to pretty step ?indent v) xs)"
    have dump: "dump_to pretty step current (JArray xs) =
        CHR ''['' # newline pretty @ ?T @ newline pretty @ spaces current @ '']''"
      using False by (simp add: Let_def)
    have "2 * (length ?T + 2) \<le> n"
      using 2(4) unfolding dump by simp
    then have "parse_internal n (at_token (CHR ''['' # newline pretty @ ?T @ newline pretty @ spaces current @ CHR '']'' # q)) =
        Inr (JArray xs, at_token q)"
      using 2(1-3) False by (intro parse_dump_array) (auto simp: list_all_iff split del: if_split)
    then show ?thesis
      unfolding dump by simp
  qed
next
  case (3 pretty step current s)
  moreover have "1 < length (quoted s)"
    by (simp add: quoted_def)
  ultimately show ?case
    using parse_scalar_dump(4) [OF 3(2), of s] by (subst parse_internal_scalar) (auto simp: at_token_quoted)
next
  case (4 pretty step current b)
  then show ?case
    using parse_scalar_dump(2,3) [OF 4(2)] at_token_word [of q]
    by (subst parse_internal_scalar) (auto split: if_splits)
next
  case (5 pretty step current w)
  then obtain d r where "q = d # r" "delimiter d"
    using ends_obtain by blast
  moreover have "0 < n"
    using 5(3) by (cases n) (auto simp: show_int64_def Let_def show_nat_ne split: if_splits)
  ultimately show ?case
    using 5 parse_scalar_dump(5) [OF 5(2), of w] at_token_int64 [of d w r]
    by (subst parse_internal_scalar) auto
next
  case (7 pretty step current)
  then show ?case
    using parse_scalar_dump(1) [OF 7(2)] at_token_word [of q]
    by (subst parse_internal_scalar) auto
qed simp

section \<open>Texts\<close>

lemma json_parse_eq:
  "json_parse s = rbind (parse_internal (2 * length s + 4) (at_token (s @ [nul])))
     (\<lambda>(j, st). rbind (expect end_of_input st) (\<lambda>_. Inr j))"
  by (simp add: json_parse_def get_token_cursor)

lemma parse_text:
  assumes "json_exact j" "list_all is_blank bs" "list_all is_blank bs'"
  shows "json_parse (bs @ dump_to pretty step current j @ bs') = Inr j"
proof -
  let ?s = "bs @ dump_to pretty step current j @ bs'"
  have e: "ends (bs' @ [nul])"
    by (intro blank_append_ends assms) (simp add: ends_Cons delimiter_def)
  have "at_token (?s @ [nul]) = at_token (dump_to pretty step current j @ bs' @ [nul])"
    using assms at_token_blanks [of "dump_to pretty step current j @ bs' @ [nul]"] by simp
  moreover have "at_token (bs' @ [nul]) = at_token [nul]"
    using assms by (simp add: at_token_blanks)
  ultimately show ?thesis
    using parse_dump [OF assms(1) e, of pretty step current "2 * length ?s + 4"]
    by (simp add: json_parse_eq at_token_char expect_def)
qed

text \<open>On one line, no control characters are printed.\<close>

definition printable :: "string \<Rightarrow> bool" where
  "printable s \<longleftrightarrow> list_all (\<lambda>c. 31 < char_code c) s"

lemma printable_simps [simp]:
  "printable []" "printable (c # s) \<longleftrightarrow> 31 < char_code c \<and> printable s" "printable (s @ t) \<longleftrightarrow> printable s \<and> printable t"
  by (auto simp: printable_def)

lemma is_hex_printable: "is_hex c \<Longrightarrow> 31 < char_code c"
  by (auto simp: is_hex_def isdigit_def)

lemma escape_printable: "printable (escape_char c)"
proof (cases "short_escape c")
  case None
  have "char_code c \<le> 31 \<Longrightarrow> is_hex (hex_digit (char_code c div 16)) \<and> is_hex (hex_digit (char_code c mod 16))"
    by (simp add: hex_digit)
  then show ?thesis
    using None by (auto simp: escape_char_def sprintf_u04x_def is_hex_printable) (simp_all add: char_code_def)
next
  case (Some e)
  then show ?thesis
    by (auto simp: escape_char_def short_escape_def char_code_def split: if_splits)
qed

lemma quoted_printable: "printable (quoted s)"
proof -
  have "printable (concat (map escape_char s))"
    by (induction s) (simp_all add: escape_printable)
  then show ?thesis
    by (simp add: quoted_def escape_string_eq char_code_def)
qed

lemma separate_printable: "printable s \<Longrightarrow> list_all printable xs \<Longrightarrow> printable (separate s xs)"
  by (induction s xs rule: separate.induct) auto

lemma spaces_printable: "printable (spaces n)"
  by (simp add: spaces_def printable_def list_all_iff char_code_def)

lemma dump_printable: "json_exact j \<Longrightarrow> printable (dump_to False step current j)"
proof (induction "False" step current j rule: dump_to.induct)
  case (1 step current kvs)
  have "printable (dump_to False step current (snd kv))" if "kv \<in> set kvs" for kv
    using 1(1) [of current kv] 1(2) that by (cases "kvs = []") (auto simp: list_all_iff)
  then have "list_all printable (map (\<lambda>kv. spaces current @ quoted (fst kv) @ CHR '':'' # dump_to False step current (snd kv)) kvs)"
    by (auto simp: list_all_iff spaces_printable quoted_printable) (simp add: char_code_def)
  then show ?case
    by (simp add: Let_def newline_def spaces_printable separate_printable) (simp_all add: separate_printable char_code_def)
next
  case (2 step current xs)
  have "printable (dump_to False step current v)" if "v \<in> set xs" for v
    using 2(1) [of current v] 2(2) that by (cases "xs = []") (auto simp: list_all_iff)
  then have "list_all printable (map (\<lambda>v. spaces current @ dump_to False step current v) xs)"
    by (auto simp: list_all_iff spaces_printable)
  then show ?case
    by (simp add: Let_def newline_def spaces_printable separate_printable) (simp_all add: separate_printable char_code_def)
next
  case (5 step current w)
  have "printable (show_nat n)" for n
    using set_show_nat [of _ n] is_hex_printable by (auto simp: printable_def list_all_iff is_hex_def)
  then show ?case
    by (simp add: show_int64_def Let_def char_code_def)
qed (simp_all add: quoted_printable, simp_all add: char_code_def)

lemma printable_no_nul: "printable s \<Longrightarrow> nul \<notin> set s"
  by (auto simp: printable_def list_all_iff)

lemma c_str_no_nul: "nul \<notin> set s \<Longrightarrow> c_str s = s"
  using char_code_eq_iff [of _ nul] by (intro c_str_id) auto

lemma blank_crlf [simp]: "list_all is_blank crlf" "nul \<notin> set crlf"
  by (simp_all add: crlf_def is_blank_def char_code_def nul_def)

lemma json_dump_no_nul: "json_exact j \<Longrightarrow> nul \<notin> set (json_dump j)"
  by (simp add: json_dump_def json_dump_indent_def printable_no_nul dump_printable)

text \<open>A value printed as the code prints it, alone or as the body of a response with two line ends.\<close>

lemma json_dump_read [simp]:
  assumes "json_exact j"
  shows "json_parse (json_dump j) = Inr j" and "c_str (json_dump j) = json_dump j"
    and "json_parse (json_dump j @ crlf @ crlf) = Inr j"
    and "c_str (json_dump j @ crlf @ crlf) = json_dump j @ crlf @ crlf"
  using parse_text [OF assms, of "[]" "[]"] parse_text [OF assms, of "[]" "crlf @ crlf"] json_dump_no_nul [OF assms]
  by (simp_all add: json_dump_def json_dump_indent_def c_str_no_nul)

text \<open>
  C15. What was printed is read back: a value without floating-point numbers, printed on one line or with any
  indentation and surrounded by blanks, is the value that parsing its text returns.
\<close>

theorem json_roundtrip:
  assumes "json_exact j" "list_all is_blank before" "list_all is_blank behind"
  shows "json_parse (before @ json_dump_indent indent j @ behind) = Inr j"
  using parse_text [OF assms] by (simp add: json_dump_indent_def)

theorem json_roundtrip_witness:
  "json_parse ('' '' @ json_dump_indent 2
     (json_object [(''b'', JInt 7), (''a'', JArray [JNull, JBool True, JString [CHR 0x22, CHR 0x01]])]) @ crlf) =
   Inr (json_object [(''b'', JInt 7), (''a'', JArray [JNull, JBool True, JString [CHR 0x22, CHR 0x01]])])"
  by (rule json_roundtrip) (simp_all add: is_blank_def char_code_def)

end
