(* ===== verification/RaftLog.thy ===== *)
theory RaftLog
  imports JsonText
begin

text \<open>\<open>consensus/log.h\<close> and \<open>consensus/entries.cpp\<close>: commands, entries entries and the entries.\<close>

datatype command = Command (command_text: string)

record log_entry =
  entry_command :: command
  committed :: bool
  entry_term :: u64

definition LogEntry :: "command \<Rightarrow> u64 \<Rightarrow> log_entry" where
  "LogEntry c term = \<lparr>entry_command = c, committed = False, entry_term = term\<rparr>"

definition entry_to_json :: "log_entry \<Rightarrow> json" where
  "entry_to_json e =
     json_object [(''term'', JInt (entry_term e)), (''command'', JString (c_str (command_text (entry_command e))))]"

type_synonym gallocy_log = "log_entry list"

text \<open>
  The loops of \<open>get_previous_log_index\<close> and \<open>get_previous_log_term\<close> start at the last entry and count
  up, so after a committed last entry they read behind the vector. The index is an \<open>int\<close>: the start
  is the low half of \<open>size() - 1\<close>, read as a signed number.
\<close>

definition last_index :: "gallocy_log \<Rightarrow> int" where
  "last_index entries = sint (of_nat (length entries) - 1 :: u32)"

function scan_uncommitted :: "gallocy_log \<Rightarrow> nat \<Rightarrow> nat result" where
  "scan_uncommitted entries i =
     (if i < length entries \<and> i < 2 ^ 31
      then (if \<not> committed (entries ! i) then Inr i else scan_uncommitted entries (i + 1))
      else Inl Undefined)"
  by auto

termination
  by (relation "measure (\<lambda>(entries, i). length entries - i)") auto

definition get_previous_log_index :: "gallocy_log \<Rightarrow> u64 result" where
  "get_previous_log_index entries =
     (if last_index entries \<ge> 0
      then rbind (scan_uncommitted entries (nat (last_index entries))) (\<lambda>i. Inr (of_nat i)) else Inr 0)"

definition get_previous_log_term :: "gallocy_log \<Rightarrow> u64 result" where
  "get_previous_log_term entries =
     (if last_index entries \<ge> 0
      then rbind (scan_uncommitted entries (nat (last_index entries))) (\<lambda>i. Inr (entry_term (entries ! i))) else Inr 0)"

definition append_entry :: "log_entry \<Rightarrow> gallocy_log \<Rightarrow> u64 \<times> gallocy_log" where
  "append_entry entry entries = (of_nat (length (entries @ [entry])) - 1, entries @ [entry])"

declare scan_uncommitted.simps [simp del]

lemma last_index_empty [simp]: "last_index [] = - 1"
  by (simp add: last_index_def)

lemma last_index_eq:
  assumes "entries \<noteq> []" and "length entries \<le> 2 ^ 31"
  shows "last_index entries = int (length entries) - 1"
proof -
  have eq: "of_nat (length entries) - 1 = (of_nat (length entries - 1) :: u32)"
    using assms(1) by (simp add: of_nat_diff Suc_le_eq)
  have "sint (of_nat (length entries - 1) :: u32) = int (length entries - 1)"
    using assms by (cases entries) (auto simp: sint_sbintrunc' signed_of_nat signed_take_bit_int_eq_self)
  then show ?thesis
    using assms(1) unfolding last_index_def eq by (simp add: of_nat_diff Suc_le_eq)
qed

lemma scan_last:
  assumes "entries \<noteq> []" and "length entries \<le> 2 ^ 31"
  shows "scan_uncommitted entries (length entries - 1) =
    (if committed (last entries) then Inl Undefined else Inr (length entries - 1))"
proof -
  have "scan_uncommitted entries (length entries) = Inl Undefined"
    by (subst scan_uncommitted.simps) simp
  moreover have "length entries - 1 < 2 ^ 31"
    using assms by (cases entries) auto
  ultimately show ?thesis
    using assms by (subst scan_uncommitted.simps) (simp add: last_conv_nth)
qed

lemma previous_log:
  assumes "length entries \<le> 2 ^ 31"
  shows "get_previous_log_index entries =
     (if entries = [] then Inr 0 else if committed (last entries) then Inl Undefined
      else Inr (of_nat (length entries - 1)))"
   and "get_previous_log_term entries =
     (if entries = [] then Inr 0 else if committed (last entries) then Inl Undefined
      else Inr (entry_term (last entries)))"
proof -
  have "last_index entries = int (length entries - 1)" if "entries \<noteq> []"
    using last_index_eq [OF that assms] that by (cases entries) auto
  then have "entries \<noteq> [] \<Longrightarrow> last_index entries \<ge> 0 \<and> nat (last_index entries) = length entries - 1"
    by simp
  then show "get_previous_log_index entries =
     (if entries = [] then Inr 0 else if committed (last entries) then Inl Undefined
      else Inr (of_nat (length entries - 1)))"
   and "get_previous_log_term entries =
     (if entries = [] then Inr 0 else if committed (last entries) then Inl Undefined
      else Inr (entry_term (last entries)))"
    using scan_last [OF _ assms]
    by (auto simp: get_previous_log_index_def get_previous_log_term_def last_conv_nth)
qed

text \<open>
  \<open>get_previous_log_index\<close> and \<open>get_previous_log_term\<close> describe the last entry of the entries if it
  is uncommitted and are 0 on an empty entries; after a last entry that is committed, which the
  documentation asks for, both read outside the entries.
\<close>

theorem previous_log_entry:
  assumes "length entries \<le> 2 ^ 31"
  shows "get_previous_log_index entries =
     (if entries = [] then Inr 0 else if committed (last entries) then Inl Undefined
      else Inr (of_nat (length entries - 1))) \<and>
   get_previous_log_term entries =
     (if entries = [] then Inr 0 else if committed (last entries) then Inl Undefined
      else Inr (entry_term (last entries)))"
  using previous_log [OF assms] by blast

theorem previous_log_entry_witness:
  "get_previous_log_index [LogEntry (Command ''x'') 3] = Inr 0 \<and>
   get_previous_log_term [LogEntry (Command ''x'') 3] = Inr 3"
  using previous_log_entry [of "[LogEntry (Command ''x'') 3]"] by (simp add: LogEntry_def)

end
