(* ===== verification/RaftTimer.thy ===== *)
theory RaftTimer
  imports Prelude
begin

text \<open>
  \<open>consensus/timer.h\<close>: the countdown that starts elections and heartbeats. The thread of the timer
  waits for \<open>calculate_wait_time\<close> milliseconds; one turn of its loop ends with a timeout, which wakes
  the state machine, or with a signal. The constructor leaves \<open>is_alive\<close> and \<open>was_reset\<close> unset, so
  their first values are arguments here, as is the result of \<open>std::rand\<close>.
\<close>

record timer =
  step :: u64
  jitter :: u64
  is_alive :: bool
  was_reset :: bool

definition Timer :: "bool \<Rightarrow> bool \<Rightarrow> u64 \<Rightarrow> u64 \<Rightarrow> timer" where
  "Timer alive0 reset0 step0 jitter0 =
     \<lparr>step = step0, jitter = jitter0, is_alive = alive0, was_reset = reset0\<rparr>"

definition timer_start :: "timer \<Rightarrow> timer" where
  "timer_start t = t\<lparr>is_alive := True\<rparr>"

definition timer_stop :: "timer \<Rightarrow> timer" where
  "timer_stop t = t\<lparr>is_alive := False\<rparr>"

definition timer_reset :: "timer \<Rightarrow> timer" where
  "timer_reset t = t\<lparr>was_reset := True\<rparr>"

definition set_step :: "u64 \<Rightarrow> timer \<Rightarrow> timer" where
  "set_step new_step t = t\<lparr>step := new_step\<rparr>"

definition get_step :: "timer \<Rightarrow> u64" where
  "get_step t = step t"

definition set_jitter :: "u64 \<Rightarrow> timer \<Rightarrow> timer" where
  "set_jitter new_jitter t = t\<lparr>jitter := new_jitter\<rparr>"

definition get_jitter :: "timer \<Rightarrow> u64" where
  "get_jitter t = jitter t"

definition is_timer_running :: "timer \<Rightarrow> bool" where
  "is_timer_running t = is_alive t"

text \<open>\<open>std::rand\<close> returns an \<open>int\<close> between 0 and \<open>RAND_MAX\<close>.\<close>

definition calculate_wait_time :: "u64 \<Rightarrow> timer \<Rightarrow> u64" where
  "calculate_wait_time rand t = (if jitter t \<noteq> 0 then step t - rand mod jitter t else step t)"

datatype cv_status = timeout | no_timeout

text \<open>One turn of the loop after the wait: whether \<open>timed_out\<close> is notified, and the new state.\<close>

definition event_turn :: "cv_status \<Rightarrow> timer \<Rightarrow> bool \<times> timer" where
  "event_turn status t =
     (case status of
        timeout \<Rightarrow> (True, t)
      | no_timeout \<Rightarrow> (False, if was_reset t then t\<lparr>was_reset := False\<rparr> else t))"

text \<open>The loop, given what ends each wait; it stops when the timer is not alive any more.\<close>

fun event_loop :: "cv_status list \<Rightarrow> timer \<Rightarrow> nat \<times> timer" where
  "event_loop [] t = (0, t)"
| "event_loop (st # sts) t =
     (if is_alive t
      then (let (notified, t') = event_turn st t; (n, t'') = event_loop sts t'
            in ((if notified then 1 else 0) + n, t''))
      else (0, t))"

text \<open>
  The waiting time lies between \<open>step - jitter + 1\<close> and \<open>step\<close> when there is a jitter and it is
  not larger than the step, and is \<open>step\<close> when there is none.
\<close>

theorem wait_time_range:
  assumes "unat (jitter t) \<le> unat (step t)"
  shows "unat (calculate_wait_time rand t) \<le> unat (step t) \<and>
    (jitter t \<noteq> 0 \<longrightarrow> unat (step t) - unat (jitter t) < unat (calculate_wait_time rand t))"
proof (cases "jitter t = 0")
  case False
  then have "unat (rand mod jitter t) < unat (jitter t)"
    by (simp add: unat_mod_distrib unat_gt_0)
  moreover from this have "unat (step t - rand mod jitter t) = unat (step t) - unat (rand mod jitter t)"
    using assms by (intro unat_sub_le) simp
  ultimately show ?thesis
    using False assms by (simp add: calculate_wait_time_def)
qed (simp add: calculate_wait_time_def)

theorem wait_time_range_witness:
  "1500 < unat (calculate_wait_time 1234567 (Timer True False 2000 500)) \<and>
   unat (calculate_wait_time 1234567 (Timer True False 2000 500)) \<le> 2000"
  using wait_time_range [of "Timer True False 2000 500" 1234567] by (simp add: Timer_def)

end
