(* ===== verification/RaftState.thy ===== *)
theory RaftState
  imports Peer RaftLog RaftTimer
begin

text \<open>
  \<open>consensus/state.h\<close> and \<open>consensus/state.cpp\<close>: the state of a Raft node and the decisions taken on
  it. Every access goes through the member's lock, so each getter and setter is one atomic step and
  is a function of the state here. The decisions hold the lock across none of their accesses; they are functions
  of the state too, as they run when no other thread comes in between. Theory \<open>RaftRace\<close> takes \<open>try_grant_vote\<close> apart. The maps \<open>next_index\<close> and \<open>match_index\<close> are ordered by
  \<open>std::less<Peer>\<close>, so their keys are the addresses of the peers.
\<close>

datatype raft_state = FOLLOWER | LEADER | CANDIDATE

definition raft_state_to_string :: "raft_state \<Rightarrow> string" where
  "raft_state_to_string st =
     (case st of FOLLOWER \<Rightarrow> ''FOLLOWER'' | LEADER \<Rightarrow> ''LEADER'' | CANDIDATE \<Rightarrow> ''CANDIDATE'')"

definition FOLLOWER_STEP_TIME :: u64 where "FOLLOWER_STEP_TIME = 2000"
definition FOLLOWER_JITTER_TIME :: u64 where "FOLLOWER_JITTER_TIME = 500"
definition LEADER_STEP_TIME :: u64 where "LEADER_STEP_TIME = 500"
definition LEADER_JITTER_TIME :: u64 where "LEADER_JITTER_TIME = 0"

record gallocy_state =
  current_term :: u64
  voted_for :: peer
  log :: gallocy_log
  commit_index :: u64
  last_applied :: u64
  next_index :: "u64 \<rightharpoonup> u64"
  match_index :: "u64 \<rightharpoonup> u64"
  timer :: timer
  peer_list :: "peer list"
  state :: raft_state

definition GallocyState :: "bool \<Rightarrow> bool \<Rightarrow> peer list \<Rightarrow> gallocy_state" where
  "GallocyState alive0 reset0 peers =
     \<lparr>current_term = 0, voted_for = no_peer, log = [], commit_index = 0, last_applied = 0,
      next_index = Map.empty, match_index = Map.empty,
      timer = Timer alive0 reset0 FOLLOWER_STEP_TIME FOLLOWER_JITTER_TIME, peer_list = peers,
      state = FOLLOWER\<rparr>"

section \<open>Getters and setters\<close>

definition get_current_term :: "gallocy_state \<Rightarrow> u64" where
  "get_current_term s = current_term s"

definition set_current_term :: "u64 \<Rightarrow> gallocy_state \<Rightarrow> gallocy_state" where
  "set_current_term value s = s\<lparr>current_term := value, voted_for := no_peer\<rparr>"

definition get_voted_for :: "gallocy_state \<Rightarrow> peer" where
  "get_voted_for s = voted_for s"

definition set_voted_for :: "peer \<Rightarrow> gallocy_state \<Rightarrow> gallocy_state" where
  "set_voted_for value s = s\<lparr>voted_for := value\<rparr>"

definition get_commit_index :: "gallocy_state \<Rightarrow> u64" where
  "get_commit_index s = commit_index s"

definition set_commit_index :: "u64 \<Rightarrow> gallocy_state \<Rightarrow> gallocy_state" where
  "set_commit_index value s = s\<lparr>commit_index := value\<rparr>"

definition get_last_applied :: "gallocy_state \<Rightarrow> u64" where
  "get_last_applied s = last_applied s"

definition set_last_applied :: "u64 \<Rightarrow> gallocy_state \<Rightarrow> gallocy_state" where
  "set_last_applied value s = s\<lparr>last_applied := value\<rparr>"

definition get_next_index :: "peer \<Rightarrow> gallocy_state \<Rightarrow> u64" where
  "get_next_index p s = (case next_index s (get_canonical_id p) of Some i \<Rightarrow> i | None \<Rightarrow> 0)"

definition set_next_index :: "peer \<Rightarrow> u64 \<Rightarrow> gallocy_state \<Rightarrow> gallocy_state" where
  "set_next_index p value s = s\<lparr>next_index := (next_index s)(get_canonical_id p \<mapsto> value)\<rparr>"

definition get_match_index :: "peer \<Rightarrow> gallocy_state \<Rightarrow> u64" where
  "get_match_index p s = (case match_index s (get_canonical_id p) of Some i \<Rightarrow> i | None \<Rightarrow> 0)"

definition set_match_index :: "peer \<Rightarrow> u64 \<Rightarrow> gallocy_state \<Rightarrow> gallocy_state" where
  "set_match_index p value s = s\<lparr>match_index := (match_index s)(get_canonical_id p \<mapsto> value)\<rparr>"

definition get_state :: "gallocy_state \<Rightarrow> raft_state" where
  "get_state s = state s"

section \<open>Changing the role\<close>

definition initialize_leader_state :: "gallocy_state \<Rightarrow> gallocy_state" where
  "initialize_leader_state s =
     foldl (\<lambda>s p. s\<lparr>next_index := (next_index s)(get_canonical_id p \<mapsto> commit_index s + 1),
                    match_index := (match_index s)(get_canonical_id p \<mapsto> 0)\<rparr>) s (peer_list s)"

definition finalize_leader_state :: "gallocy_state \<Rightarrow> gallocy_state" where
  "finalize_leader_state s = s\<lparr>next_index := Map.empty, match_index := Map.empty\<rparr>"

definition set_state :: "raft_state \<Rightarrow> gallocy_state \<Rightarrow> gallocy_state" where
  "set_state new_state s =
     (let s = (if new_state = LEADER
               then (let s = initialize_leader_state s
                     in s\<lparr>timer := set_jitter LEADER_JITTER_TIME (set_step LEADER_STEP_TIME (timer s))\<rparr>)
               else (let s = finalize_leader_state s
                     in s\<lparr>timer := set_jitter FOLLOWER_JITTER_TIME
                                    (set_step FOLLOWER_STEP_TIME (timer s))\<rparr>))
      in s\<lparr>state := new_state\<rparr>)"

definition reset_timer :: "gallocy_state \<Rightarrow> gallocy_state" where
  "reset_timer s = s\<lparr>timer := timer_reset (timer s)\<rparr>"

definition state_to_json :: "gallocy_state \<Rightarrow> json" where
  "state_to_json s =
     json_object [(''term'', JInt (get_current_term s)),
              (''state'', JString (raft_state_to_string (get_state s))),
              (''commit_index'', JInt (get_commit_index s)),
              (''last_applied'', JInt (get_last_applied s)),
              (''voted_for'', JString (get_string (get_voted_for s))),
              (''log_size'', JInt (of_nat (length (log s))))]"

definition increment_current_term :: "gallocy_state \<Rightarrow> u64 \<times> gallocy_state" where
  "increment_current_term s = (current_term s + 1, s\<lparr>current_term := current_term s + 1\<rparr>)"

text \<open>\<open>operator[]\<close> of a map starts at zero for a missing key.\<close>

definition increment_next_index :: "peer \<Rightarrow> gallocy_state \<Rightarrow> u64 \<times> gallocy_state" where
  "increment_next_index p s =
     (let s' = set_next_index p (get_next_index p s + 1) s in (get_next_index p s', s'))"

definition decrement_next_index :: "peer \<Rightarrow> gallocy_state \<Rightarrow> u64 \<times> gallocy_state" where
  "decrement_next_index p s =
     (let s' = set_next_index p (get_next_index p s - 1) s in (get_next_index p s', s'))"

definition increment_match_index :: "peer \<Rightarrow> gallocy_state \<Rightarrow> u64 \<times> gallocy_state" where
  "increment_match_index p s =
     (let s' = set_match_index p (get_match_index p s + 1) s in (get_match_index p s', s'))"

section \<open>Votes, replication, application\<close>

definition try_grant_vote :: "peer \<Rightarrow> u64 \<Rightarrow> u64 \<Rightarrow> u64 \<Rightarrow> gallocy_state \<Rightarrow> bool \<times> gallocy_state" where
  "try_grant_vote candidate_voted_for candidate_commit_index candidate_current_term
       candidate_last_applied s =
     (let local_voted_for = get_voted_for s;
          local_commit_index = get_commit_index s;
          local_current_term = get_current_term s;
          local_last_applied = get_last_applied s
      in if candidate_current_term < local_current_term then (False, s)
         else if peer_eq local_voted_for no_peer \<or> peer_eq local_voted_for candidate_voted_for
         then (if candidate_last_applied \<ge> local_last_applied \<and>
                  candidate_commit_index \<ge> local_commit_index
               then (True, reset_timer (set_voted_for candidate_voted_for
                             (set_current_term candidate_current_term s)))
               else (False, s))
         else (False, s))"

definition try_apply :: "gallocy_state \<Rightarrow> bool \<times> gallocy_state" where
  "try_apply s =
     (if commit_index s > last_applied s
      then (True, s\<lparr>last_applied := last_applied s + 1\<rparr>) else (False, s))"

text \<open>
  The loop over the entries of the leader. \<open>vector::at\<close> throws when the index is outside, which it
  always is behind the first test.
\<close>

fun replicate_entries ::
  "log_entry list \<Rightarrow> u64 \<Rightarrow> u64 \<Rightarrow> gallocy_log \<Rightarrow> bool \<Rightarrow> (bool \<times> gallocy_log) result" where
  "replicate_entries [] prev_index prev_term l success = Inr (success, l)"
| "replicate_entries (entry # entries) prev_index prev_term l success =
     (if of_nat (length l) - 1 < prev_index
      then (if unat prev_index < length l
            then (if entry_term (l ! unat prev_index) \<noteq> prev_term
                  then replicate_entries entries prev_index prev_term l False
                  else replicate_entries entries prev_index prev_term (snd (append_entry entry l)) True)
            else Inl (Uncaught out_of_range))
      else replicate_entries entries prev_index prev_term (snd (append_entry entry l)) True)"

text \<open>What follows the loop: commit index, follower state, timer, application.\<close>

definition follow_leader :: "peer \<Rightarrow> u64 \<Rightarrow> u64 \<Rightarrow> gallocy_state \<Rightarrow> gallocy_state" where
  "follow_leader leader leader_commit_index leader_term s =
     (let s = (if leader_commit_index > get_commit_index s
               then set_commit_index (min leader_commit_index (of_nat (length (log s)) - 1)) s
               else s);
          s = set_current_term leader_term s;
          s = set_state FOLLOWER s;
          s = set_voted_for leader s;
          s = reset_timer s
      in snd (try_apply s))"

definition try_replicate_log ::
  "peer \<Rightarrow> log_entry list \<Rightarrow> u64 \<Rightarrow> u64 \<Rightarrow> u64 \<Rightarrow> u64 \<Rightarrow> (gallocy_state, bool) op" where
  "try_replicate_log leader leader_entries leader_commit_index leader_prev_log_index
       leader_prev_log_term leader_term = (\<lambda>s.
     if leader_term < get_current_term s then Inr (False, s)
     else rbind (replicate_entries leader_entries leader_prev_log_index leader_prev_log_term (log s) False)
       (\<lambda>(success, l). Inr (success, follow_leader leader leader_commit_index leader_term (s\<lparr>log := l\<rparr>))))"

end
