(* ===== verification/JsonIter.thy ===== *)
theory JsonIter
  imports JsonText
begin

text \<open>
  Iterators and comparison of JSON values (\<open>external/json.hpp\<close>, classes \<open>primitive_iterator_t\<close> and
  \<open>const_iterator\<close>, \<open>operator==\<close>). The container iterators are positions; the iterator of a value that is
  neither an object nor an array is a number that is 0 at the value and 1 behind it. A range-based \<open>for\<close>
  over a value is the loop that C++ makes of it, and visits \<open>json_elems\<close>.
\<close>

section \<open>Iterators\<close>

datatype json_iterator = Object_iterator nat | Array_iterator nat | Primitive_iterator int

definition begin_value :: int where "begin_value = 0"

definition end_value :: int where "end_value = begin_value + 1"

fun set_begin :: "json \<Rightarrow> json_iterator" where
  "set_begin (JObject kvs) = Object_iterator 0"
| "set_begin (JArray xs) = Array_iterator 0"
| "set_begin JNull = Primitive_iterator end_value"
| "set_begin j = Primitive_iterator begin_value"

fun set_end :: "json \<Rightarrow> json_iterator" where
  "set_end (JObject kvs) = Object_iterator (length kvs)"
| "set_end (JArray xs) = Array_iterator (length xs)"
| "set_end j = Primitive_iterator end_value"

text \<open>\<open>operator*\<close>; reading at the end of a container is undefined.\<close>

fun iterator_deref :: "json \<Rightarrow> json_iterator \<Rightarrow> json result" where
  "iterator_deref (JObject kvs) (Object_iterator i) = (if i < length kvs then Inr (snd (kvs ! i)) else Inl Undefined)"
| "iterator_deref (JArray xs) (Array_iterator i) = (if i < length xs then Inr (xs ! i) else Inl Undefined)"
| "iterator_deref JNull (Primitive_iterator _) = Inl (Uncaught out_of_range)"
| "iterator_deref j (Primitive_iterator i) = (if i = begin_value then Inr j else Inl (Uncaught out_of_range))"
| "iterator_deref j _ = Inl Undefined"

fun iterator_next :: "json_iterator \<Rightarrow> json_iterator" where
  "iterator_next (Object_iterator i) = Object_iterator (i + 1)"
| "iterator_next (Array_iterator i) = Array_iterator (i + 1)"
| "iterator_next (Primitive_iterator i) = Primitive_iterator (i + 1)"

text \<open>\<open>operator!=\<close> for two iterators of one value.\<close>

definition iterator_ne :: "json_iterator \<Rightarrow> json_iterator \<Rightarrow> bool" where
  "iterator_ne a b \<longleftrightarrow> a \<noteq> b"

text \<open>The loop, with the values it visits; the fuel is the number of steps from any start to the end.\<close>

fun range_loop :: "nat \<Rightarrow> json \<Rightarrow> json_iterator \<Rightarrow> json list result" where
  "range_loop 0 j it = Inl Hang"
| "range_loop (Suc n) j it =
     (if iterator_ne it (set_end j)
      then rbind (iterator_deref j it) (\<lambda>v. rbind (range_loop n j (iterator_next it)) (\<lambda>vs. Inr (v # vs)))
      else Inr [])"

definition range_for :: "json \<Rightarrow> json list result" where
  "range_for j = range_loop (length (json_elems j) + 1) j (set_begin j)"

lemma range_loop_object:
  "i \<le> length kvs \<Longrightarrow> length kvs - i < n \<Longrightarrow>
     range_loop n (JObject kvs) (Object_iterator i) = Inr (map snd (drop i kvs))"
proof (induction n arbitrary: i)
  case (Suc n)
  then show ?case
    by (cases "i = length kvs") (simp_all add: iterator_ne_def Cons_nth_drop_Suc [symmetric])
qed simp

lemma range_loop_array:
  "i \<le> length xs \<Longrightarrow> length xs - i < n \<Longrightarrow> range_loop n (JArray xs) (Array_iterator i) = Inr (drop i xs)"
proof (induction n arbitrary: i)
  case (Suc n)
  then show ?case
    by (cases "i = length xs") (simp_all add: iterator_ne_def Cons_nth_drop_Suc [symmetric])
qed simp

text \<open>
  A range-based \<open>for\<close> over a JSON value ends without an error and visits the elements of an array, the
  values of an object in the order of the keys, a scalar itself once, and nothing for null.
\<close>

lemma range_for_elems [simp]: "range_for j = Inr (json_elems j)"
proof (cases j)
  case (JObject kvs)
  then show ?thesis
    unfolding range_for_def using range_loop_object [of 0 kvs] by (simp del: range_loop.simps)
next
  case (JArray xs)
  then show ?thesis
    unfolding range_for_def using range_loop_array [of 0 xs] by (simp del: range_loop.simps)
qed (simp_all add: range_for_def iterator_ne_def begin_value_def end_value_def)

section \<open>Comparison\<close>

definition int_to_double :: "u64 \<Rightarrow> bool \<times> rat" where
  "int_to_double n = (sint n < 0, to_double (of_int \<bar>sint n\<bar>))"

definition double_eq :: "bool \<times> rat \<Rightarrow> bool \<times> rat \<Rightarrow> bool" where
  "double_eq a b = approx (with_sign (fst a) (snd a)) (with_sign (fst b) (snd b))"

fun json_eq :: "json \<Rightarrow> json \<Rightarrow> bool" where
  "json_eq (JArray xs) (JArray ys) = list_all2 json_eq xs ys"
| "json_eq (JObject kvs) (JObject kvs') = list_all2 (\<lambda>a b. fst a = fst b \<and> json_eq (snd a) (snd b)) kvs kvs'"
| "json_eq JNull JNull = True"
| "json_eq (JString s) (JString t) = (s = t)"
| "json_eq (JBool a) (JBool b) = (a = b)"
| "json_eq (JInt m) (JInt n) = (m = n)"
| "json_eq (JFloat a p) (JFloat b q) = double_eq (a, p) (b, q)"
| "json_eq (JInt n) (JFloat b q) = double_eq (int_to_double n) (b, q)"
| "json_eq (JFloat a p) (JInt n) = double_eq (a, p) (int_to_double n)"
| "json_eq _ _ = False"

lemma json_eq_null [simp]: "json_eq j JNull \<longleftrightarrow> j = JNull"
  by (cases j) simp_all

text \<open>On values without floating-point numbers the comparison is equality.\<close>

lemma list_all2_eq_on:
  assumes "\<And>a b. a \<in> set xs \<Longrightarrow> b \<in> set ys \<Longrightarrow> P a b \<longleftrightarrow> a = b"
  shows "list_all2 P xs ys \<longleftrightarrow> xs = ys"
proof -
  have "list_all2 P xs ys \<longleftrightarrow> list_all2 (=) xs ys"
    using assms by (auto intro: list.rel_mono_strong)
  then show ?thesis
    by (simp add: list.rel_eq)
qed

theorem json_eq_exact: "json_exact i \<Longrightarrow> json_exact j \<Longrightarrow> json_eq i j \<longleftrightarrow> i = j"
proof (induction i j rule: json_eq.induct)
  case (1 xs ys)
  then show ?case
    by (simp add: list_all_iff list_all2_eq_on)
next
  case (2 kvs kvs')
  have "fst a = fst b \<and> json_eq (snd a) (snd b) \<longleftrightarrow> a = b" if "a \<in> set kvs" "b \<in> set kvs'" for a b
  proof -
    have "json_exact (snd a)" "json_exact (snd b)"
      using that 2(2,3) by (auto simp: list_all_iff)
    then show ?thesis
      using 2(1) [OF that] by (auto simp: prod_eq_iff)
  qed
  then show ?case
    by (simp add: list_all2_eq_on)
qed simp_all

end
