(* ===== verification/HttpMessage.thy ===== *)
theory HttpMessage
  imports Peer JsonIter StdMap
begin

text \<open>
  \<open>http/request.cpp\<close> and \<open>http/response.cpp\<close>: the request a server reads off the wire or a client
  builds, and the response it sends. Reading a vector outside its bounds is \<open>Undefined\<close>.
\<close>

type_synonym headers = "(string \<times> string) list"

record request =
  headers :: headers
  req_peer :: peer
  req_method :: string
  protocol :: string
  raw_body :: string
  uri :: string
  req_json :: json
  params :: "(string \<times> string) list"

definition empty_request :: request where
  "empty_request =
     \<lparr>headers = [], req_peer = no_peer, req_method = [], protocol = [], raw_body = [], uri = [],
      req_json = JNull, params = []\<rparr>"

definition vector_at :: "'a list \<Rightarrow> nat \<Rightarrow> 'a result" where
  "vector_at xs i = (if i < length xs then Inr (xs ! i) else Inl Undefined)"

definition blank_line :: "string \<Rightarrow> bool" where
  "blank_line l \<longleftrightarrow> l = [CHR 0x0D] \<or> l = []"

text \<open>The loop over the header lines: the headers and how many lines it took.\<close>

fun parse_headers :: "string list \<Rightarrow> headers \<Rightarrow> nat \<Rightarrow> (headers \<times> nat) result" where
  "parse_headers [] h n = Inr (h, n)"
| "parse_headers (l # ls) h n =
     (if blank_line l then Inr (h, n)
      else let parts = split l (CHR '':'')
           in rbind (vector_at parts 0)
                (\<lambda>k. rbind (vector_at parts 1)
                  (\<lambda>v. parse_headers ls (map_set h (trim k) (trim v)) (n + 1))))"

text \<open>The loop over the body lines: each line replaces the body read so far.\<close>

fun parse_body :: "string list \<Rightarrow> string \<Rightarrow> string" where
  "parse_body [] b = b"
| "parse_body (l # ls) b = (if blank_line l then b else parse_body ls (trim l))"

definition Request_raw :: "string \<Rightarrow> peer \<Rightarrow> request result" where
  "Request_raw raw peer =
     (let lines = split raw (CHR 0x0A)
      in rbind (vector_at lines 0)
        (\<lambda>first. let request_line = split first (CHR '' '')
           in rbind (vector_at request_line 0)
             (\<lambda>m. rbind (vector_at request_line 1)
               (\<lambda>u. rbind (vector_at request_line 2)
                 (\<lambda>p. rbind (parse_headers (drop 1 lines) [] 0)
                   (\<lambda>(h, n). let line_idx = 1 + n + 1
                      in if length lines < line_idx then Inl Undefined
                         else Inr (empty_request\<lparr>headers := h, req_peer := peer, req_method := trim m,
                                uri := trim u, protocol := trim p,
                                raw_body := parse_body (drop line_idx lines) []\<rparr>)))))))"

definition Request_get :: "string \<Rightarrow> peer \<Rightarrow> string \<Rightarrow> request" where
  "Request_get m peer u = empty_request\<lparr>req_method := m, req_peer := peer, uri := u\<rparr>"

definition Request_post :: "string \<Rightarrow> peer \<Rightarrow> string \<Rightarrow> string \<Rightarrow> headers \<Rightarrow> request" where
  "Request_post m peer u body hs =
     empty_request\<lparr>req_method := m, req_peer := peer, uri := u, raw_body := body,
       headers := foldl (\<lambda>h kv. map_set h (fst kv) (snd kv)) [] hs\<rparr>"

text \<open>The body is parsed on the first call, and only under the right content type.\<close>

definition get_json :: "(request, json) op" where
  "get_json = (\<lambda>r.
     if json_eq (req_json r) JNull \<and> map_of (headers r) ''Content-Type'' = Some ''application/json''
     then rbind (json_parse (c_str (raw_body r))) (\<lambda>j. Inr (j, r\<lparr>req_json := j\<rparr>))
     else Inr (req_json r, r))"

fun parse_params :: "string list \<Rightarrow> (string \<times> string) list \<Rightarrow> (string \<times> string) list result" where
  "parse_params [] ps = Inr ps"
| "parse_params (part # parts) ps =
     (let kv = split part (CHR ''='')
      in rbind (vector_at kv 0)
           (\<lambda>k. rbind (vector_at kv 1) (\<lambda>v. parse_params parts (map_set ps k v))))"

definition get_params :: "(request, (string \<times> string) list) op" where
  "get_params = (\<lambda>r.
     if CHR ''?'' \<notin> set (uri r) then Inr (params r, r)
     else let param_string = drop 1 (dropWhile (\<lambda>c. c \<noteq> CHR ''?'') (uri r))
          in rbind (parse_params (split param_string (CHR ''&'')) (params r))
               (\<lambda>ps. Inr (ps, r\<lparr>params := ps\<rparr>)))"

definition get_url :: "request \<Rightarrow> string" where
  "get_url r = ''http://'' @ get_string (req_peer r) @ uri r"

section \<open>Responses\<close>

record response =
  rsp_headers :: headers
  rsp_peer :: peer
  body :: string
  rsp_protocol :: string
  status_code :: u64

text \<open>The constructor does not set \<open>status_code\<close>; its first value is an argument.\<close>

definition Response :: "u64 \<Rightarrow> response" where
  "Response status0 =
     \<lparr>rsp_headers = [], rsp_peer = no_peer, body = [], rsp_protocol = ''HTTP/1.0'', status_code = status0\<rparr>"

definition response_str :: "response \<Rightarrow> string" where
  "response_str r =
     rsp_protocol r @ '' '' @ show_nat (unat (status_code r)) @ '' '' @ ''OK'' @ crlf @
     concat (map (\<lambda>(k, v). k @ '': '' @ v @ crlf) (rsp_headers r)) @
     crlf @ body r @ crlf @ crlf"

definition response_size :: "response \<Rightarrow> u64" where
  "response_size r = of_nat (length (response_str r))"

definition response_show :: "response \<Rightarrow> string" where
  "response_show r = ''gallocy::http::Response('' @ show_nat (unat (status_code r)) @ '')''"


section \<open>Reading well-formed requests\<close>

lemma vector_at_simps [simp]:
  "vector_at (x # xs) 0 = Inr x" "vector_at (x # y # xs) (Suc 0) = Inr y"
  "vector_at (x # y # z # xs) 2 = Inr z" "vector_at [] i = Inl Undefined"
  by (simp_all add: vector_at_def)

text \<open>A word of a message: no blanks at its ends, no line feed.\<close>

definition plain :: "string \<Rightarrow> bool" where
  "plain s \<longleftrightarrow> trim s = s \<and> CHR 0x0A \<notin> set s"

definition header_line :: "string \<times> string \<Rightarrow> string" where
  "header_line kv = fst kv @ '': '' @ snd kv @ crlf"

definition wire :: "string \<Rightarrow> string \<Rightarrow> string \<Rightarrow> (string \<times> string) list \<Rightarrow> string \<Rightarrow> string" where
  "wire m u p hs b = m @ '' '' @ u @ '' '' @ p @ crlf @ concat (map header_line hs) @ crlf @ b"

definition wire_ok :: "string \<Rightarrow> string \<Rightarrow> string \<Rightarrow> (string \<times> string) list \<Rightarrow> string \<Rightarrow> bool" where
  "wire_ok m u p hs b \<longleftrightarrow>
     plain m \<and> plain u \<and> plain p \<and> plain b \<and>
     CHR '' '' \<notin> set m \<and> CHR '' '' \<notin> set u \<and> CHR '' '' \<notin> set p \<and>
     (\<forall>(k, v) \<in> set hs. plain k \<and> plain v \<and> CHR '':'' \<notin> set k)"

text \<open>What is read of a header's value: it is split at every colon, and the first part is kept.\<close>

definition header_value :: "string \<Rightarrow> string" where
  "header_value v = trim (takeWhile (\<lambda>c. c \<noteq> CHR '':'') v)"

definition cr_lines :: "(string \<times> string) list \<Rightarrow> string list" where
  "cr_lines hs = map (\<lambda>(k, v). k @ '': '' @ v @ [CHR 0x0D]) hs"

lemma trim_cr: "plain s \<Longrightarrow> trim (s @ [CHR 0x0D]) = s"
  by (simp add: trim_append_space plain_def isspace_def char_code_def)

lemma trim_blank: "trim (CHR '' '' # s) = trim s"
  by (rule trim_cons_space) (simp add: isspace_def char_code_def)

lemma header_value_whole: "plain v \<Longrightarrow> CHR '':'' \<notin> set v \<Longrightarrow> header_value v = v"
proof -
  assume v: "plain v" "CHR '':'' \<notin> set v"
  then have "takeWhile (\<lambda>c. c \<noteq> CHR '':'') v = v"
    by (auto simp: takeWhile_eq_all_conv)
  then show ?thesis
    using v by (simp only: header_value_def plain_def)
qed

lemma split_header_lines:
  assumes "\<forall>(k, v) \<in> set hs. plain k \<and> plain v"
  shows "split (concat (map header_line hs) @ rest) (CHR 0x0A) = cr_lines hs @ split rest (CHR 0x0A)"
  using assms
proof (induction hs)
  case (Cons kv hs)
  obtain k v where kv: "kv = (k, v)"
    by (cases kv)
  have "split ((k @ '': '' @ v @ [CHR 0x0D]) @ CHR 0x0A # (concat (map header_line hs) @ rest)) (CHR 0x0A)
      = (k @ '': '' @ v @ [CHR 0x0D]) # split (concat (map header_line hs) @ rest) (CHR 0x0A)"
    by (rule split_cons) (use Cons.prems kv in \<open>auto simp: plain_def\<close>)
  moreover have "header_line kv = (k @ '': '' @ v @ [CHR 0x0D]) @ [CHR 0x0A]"
    by (simp add: header_line_def crlf_def kv)
  ultimately show ?case
    using Cons kv by (simp add: cr_lines_def)
qed (simp add: cr_lines_def)

lemma split_header:
  assumes "plain v" and "CHR '':'' \<notin> set k"
  shows "\<exists>w rest. split (k @ '': '' @ v @ [CHR 0x0D]) (CHR '':'') = k # w # rest \<and> trim w = header_value v"
proof (cases "CHR '':'' \<in> set v")
  case False
  have "split (k @ '': '' @ v @ [CHR 0x0D]) (CHR '':'') = [k, CHR '' '' # v @ [CHR 0x0D]]"
    using split_cons [of "CHR '':''" k "CHR '' '' # v @ [CHR 0x0D]"]
      split_single [of "CHR '':''" "CHR '' '' # v @ [CHR 0x0D]"] assms False by simp
  then show ?thesis
    using header_value_whole [OF assms(1) False] assms(1) by (simp add: trim_blank trim_cr)
next
  case True
  then obtain w rest where v: "v = w @ CHR '':'' # rest" "CHR '':'' \<notin> set w"
    by (meson split_list_first)
  have "split (k @ '': '' @ v @ [CHR 0x0D]) (CHR '':'') = k # split (CHR '' '' # v @ [CHR 0x0D]) (CHR '':'')"
    using split_cons [of "CHR '':''" k "CHR '' '' # v @ [CHR 0x0D]"] assms(2) by simp
  moreover have "split (CHR '' '' # v @ [CHR 0x0D]) (CHR '':'') = (CHR '' '' # w) # split (rest @ [CHR 0x0D]) (CHR '':'')"
    using split_cons [of "CHR '':''" "CHR '' '' # w" "rest @ [CHR 0x0D]"] v by simp
  moreover have "takeWhile (\<lambda>c. c \<noteq> CHR '':'') v = w"
    unfolding v(1) using v(2) by (induction w) auto
  ultimately show ?thesis
    by (simp add: header_value_def trim_blank)
qed

lemma parse_headers_lines:
  assumes "\<forall>(k, v) \<in> set hs. plain k \<and> plain v \<and> CHR '':'' \<notin> set k"
  shows "parse_headers (cr_lines hs @ [CHR 0x0D] # rest) h n =
    Inr (foldl (\<lambda>h kv. map_set h (fst kv) (header_value (snd kv))) h hs, n + length hs)"
  using assms
proof (induction hs arbitrary: h n)
  case Nil
  then show ?case by (simp add: cr_lines_def blank_line_def)
next
  case (Cons kv hs)
  obtain k v where kv: "kv = (k, v)"
    by (cases kv)
  have kv_ok: "plain k" "plain v" "CHR '':'' \<notin> set k"
    using Cons.prems kv by auto
  obtain w ws where sp: "split (k @ '': '' @ v @ [CHR 0x0D]) (CHR '':'') = k # w # ws" and w: "trim w = header_value v"
    using split_header [OF kv_ok(2,3)] by blast
  have nb: "\<not> blank_line (k @ '': '' @ v @ [CHR 0x0D])"
    by (cases k) (auto simp: blank_line_def)
  have "trim k = k"
    using kv_ok by (simp add: plain_def)
  then show ?case
    using Cons sp w nb kv by (simp add: cr_lines_def Let_def)
qed

lemma parse_body_line: "plain b \<Longrightarrow> parse_body (split b (CHR 0x0A)) [] = b"
proof (cases "b = []")
  case False
  assume b: "plain b"
  then have "b \<noteq> [CHR 0x0D]"
    by (auto simp: plain_def trim_def ltrim_def rtrim_def isspace_def char_code_def)
  then show ?thesis
    using b False by (simp add: split_single plain_def blank_line_def)
qed simp

text \<open>Any number of line ends may follow the body.\<close>

lemma parse_body_tail:
  assumes "plain b"
  shows "parse_body (split (b @ concat (replicate n crlf)) (CHR 0x0A)) [] = b"
proof (cases n)
  case 0
  then show ?thesis
    using parse_body_line [OF assms] by simp
next
  case (Suc k)
  let ?rest = "concat (replicate k crlf)"
  have "split (b @ concat (replicate n crlf)) (CHR 0x0A) = (b @ [CHR 0x0D]) # split ?rest (CHR 0x0A)"
    using assms split_cons [of "CHR 0x0A" "b @ [CHR 0x0D]" ?rest] by (simp add: Suc crlf_def plain_def)
  moreover have "parse_body (split ?rest (CHR 0x0A)) b = b"
    using split_cons [of "CHR 0x0A" "[CHR 0x0D]"] by (cases k) (simp_all add: crlf_def blank_line_def)
  ultimately show ?thesis
    using trim_cr [OF assms] by (cases b) (simp_all add: blank_line_def)
qed

lemma parse_wire_tail:
  assumes "wire_ok m u p hs b"
  shows "Request_raw (wire m u p hs b @ concat (replicate n crlf)) peer =
    Inr (empty_request\<lparr>headers := foldl (\<lambda>h kv. map_set h (fst kv) (header_value (snd kv))) [] hs,
          req_peer := peer, req_method := m, uri := u, protocol := p, raw_body := b\<rparr>)"
proof -
  have ok: "plain m" "plain u" "plain p" "plain b" "CHR '' '' \<notin> set m" "CHR '' '' \<notin> set u"
    "CHR '' '' \<notin> set p"
    and hs: "\<forall>(k, v) \<in> set hs. plain k \<and> plain v \<and> CHR '':'' \<notin> set k"
    using assms by (auto simp: wire_ok_def)
  let ?first = "m @ '' '' @ u @ '' '' @ p @ [CHR 0x0D]"
  let ?b = "b @ concat (replicate n crlf)"
  let ?lines = "?first # cr_lines hs @ [CHR 0x0D] # split ?b (CHR 0x0A)"
  have "split (concat (map header_line hs) @ [CHR 0x0D] @ CHR 0x0A # ?b) (CHR 0x0A)
      = cr_lines hs @ [CHR 0x0D] # split ?b (CHR 0x0A)"
    using hs by (subst split_header_lines) (auto simp: split_cons)
  then have lines: "split (wire m u p hs b @ concat (replicate n crlf)) (CHR 0x0A) = ?lines"
    using ok split_cons [of "CHR 0x0A" ?first "concat (map header_line hs) @ [CHR 0x0D] @ CHR 0x0A # ?b"]
    by (simp add: wire_def crlf_def plain_def)
  have words: "split ?first (CHR '' '') = [m, u, p @ [CHR 0x0D]]"
    using ok split_cons [of "CHR '' ''" m "u @ '' '' @ p @ [CHR 0x0D]"]
      split_cons [of "CHR '' ''" u "p @ [CHR 0x0D]"] split_single [of "CHR '' ''" "p @ [CHR 0x0D]"]
    by simp
  have idx: "drop (length hs + 2) ?lines = split ?b (CHR 0x0A)" "length hs + 2 \<le> length ?lines"
    by (simp_all add: cr_lines_def)
  show ?thesis
    unfolding Request_raw_def lines Let_def
    using ok idx words parse_body_tail [OF ok(4)] trim_cr [OF ok(3)]
    by (simp add: parse_headers_lines [OF hs] plain_def)
qed

lemma parse_wire:
  assumes "wire_ok m u p hs b"
  shows "Request_raw (wire m u p hs b) peer =
    Inr (empty_request\<lparr>headers := foldl (\<lambda>h kv. map_set h (fst kv) (header_value (snd kv))) [] hs,
          req_peer := peer, req_method := m, uri := u, protocol := p, raw_body := b\<rparr>)"
  using parse_wire_tail [OF assms, of 0] by simp

lemma map_of_headers:
  "map_of (foldl (\<lambda>h kv. map_set h (fst kv) (f (snd kv))) h hs) k =
     (case map_of (rev hs) k of None \<Rightarrow> map_of h k | Some v \<Rightarrow> Some (f v))"
  by (induction hs arbitrary: h) (auto simp: map_of_set map_add_def split: option.split)

text \<open>
  C23. A request in wire format is read as follows, whatever words it is made of as long as they contain no
  separator, and however many line ends follow its body of one line: method, URI, protocol and body are
  those that were written. The value of a header is the last one written for its key; it is whole if it
  has no colon, and the trimmed text in front of its first colon otherwise. A header that was not
  written is not there.
\<close>

theorem request_parse_wellformed:
  assumes "wire_ok m u p hs b"
  shows "\<exists>r. Request_raw (wire m u p hs b @ concat (replicate n crlf)) peer = Inr r \<and>
    req_method r = m \<and> uri r = u \<and> protocol r = p \<and> raw_body r = b \<and> req_peer r = peer \<and>
    (\<forall>k. map_of (headers r) k =
      (case map_of (rev hs) k of
         None \<Rightarrow> None
       | Some v \<Rightarrow> Some (if CHR '':'' \<in> set v then trim (takeWhile (\<lambda>c. c \<noteq> CHR '':'') v) else v)))"
proof -
  have "header_value v = (if CHR '':'' \<in> set v then trim (takeWhile (\<lambda>c. c \<noteq> CHR '':'') v) else v)"
    if "map_of (rev hs) k = Some v" for k v
  proof -
    have "(k, v) \<in> set hs"
      using map_of_SomeD [OF that] by simp
    then have "plain v"
      using assms by (auto simp: wire_ok_def)
    then show ?thesis
      using header_value_whole by (auto simp: header_value_def)
  qed
  then show ?thesis
    unfolding parse_wire_tail [OF assms] by (auto simp: map_of_headers empty_request_def split: option.split)
qed

theorem request_parse_wellformed_witness:
  "\<exists>r. Request_raw (wire ''POST'' ''/post'' ''HTTP/1.1'' [(''Host'', ''127.0.0.1:8000''), (''Content-Type'', ''application/json'')]
        ''{}'' @ concat (replicate 2 crlf)) (Peer 2130706433 8080) = Inr r \<and>
     req_method r = ''POST'' \<and> uri r = ''/post'' \<and> raw_body r = ''{}'' \<and>
     map_of (headers r) ''Content-Type'' = Some ''application/json'' \<and> map_of (headers r) ''Host'' = Some ''127.0.0.1''"
proof -
  let ?hs = "[(''Host'', ''127.0.0.1:8000''), (''Content-Type'', ''application/json'')]"
  have "wire_ok ''POST'' ''/post'' ''HTTP/1.1'' ?hs ''{}''"
    by (simp add: wire_ok_def plain_def trim_def ltrim_def rtrim_def isspace_def char_code_def)
  from request_parse_wellformed [OF this, of 2 "Peer 2130706433 8080"] show ?thesis
    by (elim exE conjE) (rule exI, intro conjI, assumption+,
      simp_all add: trim_def ltrim_def rtrim_def isspace_def char_code_def)
qed

end
