(* ===== verification/RestClient.thy ===== *)
theory RestClient
  imports StringUtils StdMap
begin

text \<open>
  \<open>external/restclient-cpp\<close>: the HTTP client library in the tree, over libcurl. libcurl is a
  parameter: whether a handle can be made, and what a transfer with given options delivers (header
  lines and pieces of the body, in order, each to its callback) and reports. The options of a handle
  are a record; \<open>curl_easy_reset\<close> makes them the default ones. Times are the bits of a \<open>double\<close>.
\<close>

section \<open>Helpers\<close>

record upload_object =
  up_data :: string
  up_length :: u64

text \<open>\<open>int\<close> fields are 32-bit words.\<close>

record rest_response =
  rest_code :: u32
  rest_body :: string
  rest_headers :: "(string \<times> string) list"

definition helpers_ltrim :: "string \<Rightarrow> string" where
  "helpers_ltrim s = dropWhile isspace s"

definition helpers_rtrim :: "string \<Rightarrow> string" where
  "helpers_rtrim s = rev (dropWhile isspace (rev s))"

definition helpers_trim :: "string \<Rightarrow> string" where
  "helpers_trim s = helpers_ltrim (helpers_rtrim s)"

definition write_callback :: "string \<Rightarrow> rest_response \<Rightarrow> nat \<times> rest_response" where
  "write_callback data r = (length data, r\<lparr>rest_body := rest_body r @ data\<rparr>)"

definition header_callback :: "string \<Rightarrow> rest_response \<Rightarrow> nat \<times> rest_response" where
  "header_callback data r =
     (let seperator = length (takeWhile (\<lambda>c. c \<noteq> CHR '':'') data)
      in if seperator = length data
         then (let header = helpers_trim data
               in if header = [] then (length data, r)
                  else (length data, r\<lparr>rest_headers := map_set (rest_headers r) header ''present''\<rparr>))
         else (let key = helpers_trim (take seperator data); val = helpers_trim (drop (seperator + 1) data)
               in (length data, r\<lparr>rest_headers := map_set (rest_headers r) key val\<rparr>)))"

text \<open>The bytes that one call puts into the buffer of \<open>curl_size\<close> bytes.\<close>

definition read_callback :: "u64 \<Rightarrow> upload_object \<Rightarrow> string \<times> upload_object" where
  "read_callback curl_size u =
     (let copy_size = (if up_length u < curl_size then up_length u else curl_size)
      in (take (unat copy_size) (up_data u),
          u\<lparr>up_length := up_length u - copy_size, up_data := drop (unat copy_size) (up_data u)\<rparr>))"

section \<open>libcurl\<close>

record curl_options =
  opt_url :: string
  opt_httpheader :: "string list"
  opt_userpwd :: "string option"
  opt_useragent :: string
  opt_timeout_ms :: u32
  opt_nosignal :: bool
  opt_followlocation :: bool
  opt_post :: bool
  opt_postfields :: string
  opt_put :: bool
  opt_infile :: "upload_object option"
  opt_infilesize :: u64
  opt_customrequest :: "string option"

definition curl_default :: curl_options where
  "curl_default =
     \<lparr>opt_url = [], opt_httpheader = [], opt_userpwd = None, opt_useragent = [], opt_timeout_ms = 0,
      opt_nosignal = False, opt_followlocation = False, opt_post = False, opt_postfields = [],
      opt_put = False, opt_infile = None, opt_infilesize = 0, opt_customrequest = None\<rparr>"

datatype delivery = Header_line string | Body_data string

record request_info =
  totalTime :: u64
  nameLookupTime :: u64
  connectTime :: u64
  appConnectTime :: u64
  preTransferTime :: u64
  startTransferTime :: u64
  redirectTime :: u64
  redirectCount :: u32

record transfer =
  curl_res :: u32
  deliveries :: "delivery list"
  http_code :: u64
  curl_info :: request_info

definition CURLE_OK :: u32 where "CURLE_OK = 0"
definition CURLE_OPERATION_TIMEDOUT :: u32 where "CURLE_OPERATION_TIMEDOUT = 28"

record curl_lib =
  curl_easy_init :: bool
  curl_easy_perform :: "curl_options \<Rightarrow> transfer"

text \<open>What \<open>curl_easy_perform\<close> does with its callbacks.\<close>

fun receive :: "delivery list \<Rightarrow> rest_response \<Rightarrow> rest_response" where
  "receive [] r = r"
| "receive (Header_line l # ds) r = receive ds (snd (header_callback l r))"
| "receive (Body_data d # ds) r = receive ds (snd (write_callback d r))"

section \<open>Connections\<close>

record connection =
  curlHandle :: curl_options
  baseUrl :: string
  headerFields :: "(string \<times> string) list"
  timeout :: u32
  followRedirects :: bool
  auth_username :: string
  auth_password :: string
  customUserAgent :: string
  lastRequest :: request_info

definition no_request :: request_info where
  "no_request =
     \<lparr>totalTime = 0, nameLookupTime = 0, connectTime = 0, appConnectTime = 0, preTransferTime = 0,
      startTransferTime = 0, redirectTime = 0, redirectCount = 0\<rparr>"

text \<open>
  The constructor does not set \<open>timeout\<close> and \<open>followRedirects\<close>: they keep what was in the memory,
  \<open>junk\<close>.
\<close>

type_synonym junk = "u32 \<times> bool"

definition Connection :: "curl_lib \<Rightarrow> junk \<Rightarrow> string \<Rightarrow> connection result" where
  "Connection curl junk url =
     (if curl_easy_init curl
      then Inr \<lparr>curlHandle = curl_default, baseUrl = url, headerFields = [], timeout = fst junk,
                followRedirects = snd junk, auth_username = [], auth_password = [],
                customUserAgent = [], lastRequest = no_request\<rparr>
      else Inl (Uncaught runtime_error))"

text \<open>\<open>Info\<close>: the field \<open>followRedirects\<close> is never set, so it is \<open>junk\<close> as well.\<close>

record connection_info =
  info_baseUrl :: string
  info_headers :: "(string \<times> string) list"
  info_timeout :: u32
  info_followRedirects :: bool
  info_username :: string
  info_password :: string
  info_customUserAgent :: string
  info_lastRequest :: request_info

definition AppendHeader :: "string \<Rightarrow> string \<Rightarrow> connection \<Rightarrow> connection" where
  "AppendHeader key val c = c\<lparr>headerFields := map_set (headerFields c) key val\<rparr>"

definition SetHeaders :: "(string \<times> string) list \<Rightarrow> connection \<Rightarrow> connection" where
  "SetHeaders headers c = c\<lparr>headerFields := headers\<rparr>"

definition GetHeaders :: "connection \<Rightarrow> (string \<times> string) list" where
  "GetHeaders c = headerFields c"

definition GetInfo :: "bool \<Rightarrow> connection \<Rightarrow> connection_info" where
  "GetInfo junk c =
     \<lparr>info_baseUrl = baseUrl c, info_headers = GetHeaders c, info_timeout = timeout c,
      info_followRedirects = junk, info_username = auth_username c, info_password = auth_password c,
      info_customUserAgent = customUserAgent c, info_lastRequest = lastRequest c\<rparr>"

definition FollowRedirects :: "bool \<Rightarrow> connection \<Rightarrow> connection" where
  "FollowRedirects follow c = c\<lparr>followRedirects := follow\<rparr>"

definition SetUserAgent :: "string \<Rightarrow> connection \<Rightarrow> connection" where
  "SetUserAgent userAgent c = c\<lparr>customUserAgent := userAgent\<rparr>"

definition RESTCLIENT_VERSION :: string where "RESTCLIENT_VERSION = ''0.4.1''"

definition GetUserAgent :: "connection \<Rightarrow> string" where
  "GetUserAgent c =
     (let prefix = (if 0 < length (customUserAgent c) then customUserAgent c @ '' '' else [])
      in prefix @ ''restclient-cpp/'' @ RESTCLIENT_VERSION)"

definition SetTimeout :: "u32 \<Rightarrow> connection \<Rightarrow> connection" where
  "SetTimeout seconds c = c\<lparr>timeout := seconds\<rparr>"

definition SetBasicAuth :: "string \<Rightarrow> string \<Rightarrow> connection \<Rightarrow> connection" where
  "SetBasicAuth username password c = c\<lparr>auth_username := username, auth_password := password\<rparr>"

text \<open>\<open>performCurlRequest\<close> sets the options, runs the transfer, evaluates it and resets the handle.\<close>

definition request_options :: "string \<Rightarrow> connection \<Rightarrow> curl_options" where
  "request_options uri c =
     (let h = (curlHandle c)\<lparr>opt_url := c_str (baseUrl c @ uri),
                 opt_httpheader := map (\<lambda>kv. c_str (fst kv @ '': '' @ snd kv)) (headerFields c)\<rparr>;
          h = (if 0 < length (auth_username c)
               then h\<lparr>opt_userpwd := Some (c_str (auth_username c @ '':'' @ auth_password c))\<rparr> else h);
          h = h\<lparr>opt_useragent := c_str (GetUserAgent c)\<rparr>;
          h = (if timeout c \<noteq> 0 then h\<lparr>opt_timeout_ms := timeout c, opt_nosignal := True\<rparr> else h)
      in if followRedirects c then h\<lparr>opt_followlocation := True\<rparr> else h)"

definition transfer_result :: "transfer \<Rightarrow> rest_response" where
  "transfer_result t =
     (let ret = receive (deliveries t) \<lparr>rest_code = 0, rest_body = [], rest_headers = []\<rparr>
      in if curl_res t \<noteq> CURLE_OK
         then (if curl_res t = CURLE_OPERATION_TIMEDOUT
               then ret\<lparr>rest_code := curl_res t, rest_body := ''Operation Timeout.''\<rparr>
               else ret\<lparr>rest_body := ''Failed to query.'', rest_code := - 1\<rparr>)
         else ret\<lparr>rest_code := ucast (http_code t)\<rparr>)"

definition performCurlRequest :: "curl_lib \<Rightarrow> string \<Rightarrow> connection \<Rightarrow> rest_response \<times> connection" where
  "performCurlRequest curl uri c =
     (let t = curl_easy_perform curl (request_options uri c)
      in (transfer_result t, c\<lparr>lastRequest := curl_info t, curlHandle := curl_default\<rparr>))"

definition connection_get :: "curl_lib \<Rightarrow> string \<Rightarrow> connection \<Rightarrow> rest_response \<times> connection" where
  "connection_get curl url c = performCurlRequest curl url c"

definition connection_post :: "curl_lib \<Rightarrow> string \<Rightarrow> string \<Rightarrow> connection \<Rightarrow> rest_response \<times> connection" where
  "connection_post curl url data c =
     performCurlRequest curl url (c\<lparr>curlHandle := (curlHandle c)\<lparr>opt_post := True, opt_postfields := data\<rparr>\<rparr>)"

definition connection_put :: "curl_lib \<Rightarrow> string \<Rightarrow> string \<Rightarrow> connection \<Rightarrow> rest_response \<times> connection" where
  "connection_put curl url data c =
     (let up_obj = \<lparr>up_data = data, up_length = of_nat (length data)\<rparr>
      in performCurlRequest curl url
           (c\<lparr>curlHandle := (curlHandle c)\<lparr>opt_put := True, opt_infile := Some up_obj,
                opt_infilesize := up_length up_obj\<rparr>\<rparr>))"

definition connection_del :: "curl_lib \<Rightarrow> string \<Rightarrow> connection \<Rightarrow> rest_response \<times> connection" where
  "connection_del curl url c =
     performCurlRequest curl url (c\<lparr>curlHandle := (curlHandle c)\<lparr>opt_customrequest := Some ''DELETE''\<rparr>\<rparr>)"

section \<open>The simple interface\<close>

definition restclient_init :: "u32 \<Rightarrow> nat" where
  "restclient_init res = (if res = CURLE_OK then 0 else 1)"

definition rest_get :: "curl_lib \<Rightarrow> junk \<Rightarrow> string \<Rightarrow> rest_response result" where
  "rest_get curl junk url =
     rbind (Connection curl junk []) (\<lambda>conn. Inr (fst (connection_get curl url (SetTimeout 50 conn))))"

definition rest_post :: "curl_lib \<Rightarrow> junk \<Rightarrow> string \<Rightarrow> string \<Rightarrow> string \<Rightarrow> rest_response result" where
  "rest_post curl junk url ctype data =
     rbind (Connection curl junk [])
       (\<lambda>conn. Inr (fst (connection_post curl url data
                          (AppendHeader ''Content-Type'' ctype (SetTimeout 50 conn)))))"

definition rest_put :: "curl_lib \<Rightarrow> junk \<Rightarrow> string \<Rightarrow> string \<Rightarrow> string \<Rightarrow> rest_response result" where
  "rest_put curl junk url ctype data =
     rbind (Connection curl junk [])
       (\<lambda>conn. Inr (fst (connection_put curl url data (AppendHeader ''Content-Type'' ctype conn))))"

definition rest_del :: "curl_lib \<Rightarrow> junk \<Rightarrow> string \<Rightarrow> rest_response result" where
  "rest_del curl junk url =
     rbind (Connection curl junk []) (\<lambda>conn. Inr (fst (connection_del curl url conn)))"

section \<open>Uploads\<close>

fun read_all :: "u64 list \<Rightarrow> upload_object \<Rightarrow> string \<times> upload_object" where
  "read_all [] u = ([], u)"
| "read_all (n # ns) u =
     (let (s, u') = read_callback n u; (s', u'') = read_all ns u' in (s @ s', u''))"

definition upload_ok :: "upload_object \<Rightarrow> bool" where
  "upload_ok u \<longleftrightarrow> unat (up_length u) = length (up_data u)"

lemma read_callback_step:
  assumes "upload_ok u"
  shows "fst (read_callback n u) = take (unat n) (up_data u)"
    and "up_data (snd (read_callback n u)) = drop (unat n) (up_data u)"
    and "upload_ok (snd (read_callback n u))"
proof -
  let ?k = "if up_length u < n then up_length u else n"
  have k: "unat ?k = min (length (up_data u)) (unat n)"
    using assms by (auto simp: upload_ok_def word_less_nat_alt)
  show "fst (read_callback n u) = take (unat n) (up_data u)"
    unfolding read_callback_def Let_def fst_conv k by (cases "length (up_data u) \<le> unat n") simp_all
  show "up_data (snd (read_callback n u)) = drop (unat n) (up_data u)"
    unfolding read_callback_def Let_def snd_conv k by (cases "length (up_data u) \<le> unat n") simp_all
  have "unat (up_length u - ?k) = unat (up_length u) - unat ?k"
    by (rule unat_sub_le) (auto simp: word_le_nat_alt word_less_nat_alt)
  then show "upload_ok (snd (read_callback n u))"
    using assms unfolding upload_ok_def read_callback_def Let_def snd_conv by (simp add: k)
qed

lemma read_all_prefix:
  assumes "upload_ok u"
  shows "fst (read_all ns u) = take (sum_list (map unat ns)) (up_data u) \<and>
    up_data (snd (read_all ns u)) = drop (sum_list (map unat ns)) (up_data u) \<and> upload_ok (snd (read_all ns u))"
  using assms
proof (induction ns arbitrary: u)
  case (Cons n ns)
  note step = read_callback_step [OF Cons.prems, of n]
  show ?case
    using Cons.IH [OF step(3)]
    by (simp add: case_prod_unfold Let_def step(1,2) take_add add.commute)
qed simp

lemma sum_list_nonzero:
  assumes "list_all (\<lambda>n. n \<noteq> 0) ns"
  shows "length ns \<le> sum_list (map unat (ns :: u64 list))"
  using assms
proof (induction ns)
  case (Cons n ns)
  then have "unat n \<noteq> 0"
    by (simp add: unat_eq_zero)
  then show ?case
    using Cons by simp
qed simp

text \<open>
  C39. An upload ends and is complete: whatever buffers libcurl offers, as long as they are not empty,
  the bytes that \<open>read_callback\<close> hands out are the data in order without gap or repetition, after at
  most as many calls as there are bytes everything has been handed out, and every later call returns
  zero bytes, which is the end of the upload.
\<close>

theorem upload_ends:
  assumes "length data < 2 ^ 64" and "list_all (\<lambda>n. n \<noteq> 0) ns"
  shows "let u = \<lparr>up_data = data, up_length = of_nat (length data)\<rparr>; (sent, rest) = read_all ns u
    in sent = take (sum_list (map unat ns)) data \<and> sent @ up_data rest = data \<and>
       (length data \<le> length ns \<longrightarrow> sent = data \<and> fst (read_callback n rest) = [])"
proof -
  let ?u = "\<lparr>up_data = data, up_length = of_nat (length data)\<rparr>"
  have "upload_ok ?u"
    unfolding upload_ok_def upload_object.simps
    by (rule of_nat_inverse [OF refl]) (use assms(1) in simp)
  note all = read_all_prefix [OF this, of ns]
  have "length data \<le> sum_list (map unat ns)" if "length data \<le> length ns"
    using that sum_list_nonzero [OF assms(2)] by linarith
  moreover have "fst (read_callback n rest) = []" if "upload_ok rest" "up_data rest = []" for rest
    using read_callback_step(1) [OF that(1)] that(2) by simp
  ultimately show ?thesis
    using all by (simp add: case_prod_unfold Let_def)
qed

theorem upload_ends_witness:
  "fst (read_all [2, 2, 2] \<lparr>up_data = ''abc'', up_length = 3\<rparr>) = ''abc''"
  using upload_ends [of "''abc''" "[2, 2, 2]"] by (simp add: case_prod_unfold Let_def)

section \<open>Replies\<close>

definition trimmed :: "string \<Rightarrow> bool" where
  "trimmed s \<longleftrightarrow> s = [] \<or> \<not> isspace (hd s) \<and> \<not> isspace (last s)"

lemma dropWhile_all: "list_all P xs \<Longrightarrow> dropWhile P (xs @ ys) = dropWhile P ys"
  by (induction xs) auto

lemma dropWhile_hd: "xs = [] \<or> \<not> P (hd xs) \<Longrightarrow> dropWhile P xs = xs"
  by (cases xs) auto

lemma helpers_trim_wrapped:
  assumes "trimmed s" and "list_all isspace l" and "list_all isspace r"
  shows "helpers_trim (l @ s @ r) = s"
proof (cases "s = []")
  case True
  have "list_all isspace (rev (l @ r))"
    using assms by (auto simp: list_all_iff)
  then have "dropWhile isspace (rev (l @ r)) = []"
    using dropWhile_all [of isspace "rev (l @ r)" "[]"] by simp
  then show ?thesis
    using True by (simp add: helpers_trim_def helpers_rtrim_def helpers_ltrim_def del: dropWhile_eq_Nil_conv)
next
  case False
  then have hl: "\<not> isspace (hd s)" "\<not> isspace (last s)"
    using assms(1) by (auto simp: trimmed_def)
  have "dropWhile isspace (rev (l @ s @ r)) = dropWhile isspace (rev s @ rev l)"
    using dropWhile_all [of isspace "rev r" "rev s @ rev l"] assms(3) by (simp add: list_all_iff)
  also have "\<dots> = rev s @ rev l"
    by (rule dropWhile_hd) (use False hl in \<open>simp add: hd_append hd_rev\<close>)
  finally have "helpers_trim (l @ s @ r) = dropWhile isspace (l @ s)"
    by (simp add: helpers_trim_def helpers_rtrim_def helpers_ltrim_def)
  also have "\<dots> = dropWhile isspace s"
    by (rule dropWhile_all) (rule assms(2))
  also have "\<dots> = s"
    by (rule dropWhile_hd) (use hl in simp)
  finally show ?thesis .
qed

definition header_delivery :: "string \<times> string \<Rightarrow> delivery" where
  "header_delivery kv = Header_line (fst kv @ '': '' @ snd kv @ crlf)"

definition header_ok :: "string \<times> string \<Rightarrow> bool" where
  "header_ok kv \<longleftrightarrow> trimmed (fst kv) \<and> CHR '':'' \<notin> set (fst kv) \<and> trimmed (snd kv)"

lemma isspace_crlf: "list_all isspace crlf" "isspace (CHR '' '')" "CHR '':'' \<notin> set crlf"
  by (simp_all add: crlf_def isspace_def char_code_def)

lemma takeWhile_prefix: "list_all P xs \<Longrightarrow> \<not> P y \<Longrightarrow> takeWhile P (xs @ y # ys) = xs"
  by (induction xs) auto

lemma header_callback_field:
  assumes "header_ok kv"
  shows "receive [header_delivery kv] r = r\<lparr>rest_headers := map_set (rest_headers r) (fst kv) (snd kv)\<rparr>"
proof -
  let ?d = "fst kv @ CHR '':'' # '' '' @ snd kv @ crlf"
  have "takeWhile (\<lambda>c. c \<noteq> CHR '':'') ?d = fst kv"
    by (rule takeWhile_prefix) (use assms in \<open>auto simp: header_ok_def list_all_iff\<close>)
  moreover have "helpers_trim (fst kv) = fst kv"
    using helpers_trim_wrapped [of "fst kv" "[]" "[]"] assms by (simp add: header_ok_def)
  moreover have "helpers_trim ('' '' @ snd kv @ crlf) = snd kv"
    using helpers_trim_wrapped [of "snd kv" "'' ''" crlf] assms isspace_crlf by (simp add: header_ok_def)
  ultimately show ?thesis
    by (simp add: header_callback_def header_delivery_def Let_def)
qed

lemma header_callback_bare:
  assumes "trimmed l" and "CHR '':'' \<notin> set l"
  shows "receive [Header_line (l @ crlf)] r =
    (if l = [] then r else r\<lparr>rest_headers := map_set (rest_headers r) l ''present''\<rparr>)"
proof -
  have sep: "takeWhile (\<lambda>c. c \<noteq> CHR '':'') (l @ crlf) = l @ crlf"
    using assms(2) isspace_crlf(3) by (simp only: takeWhile_eq_all_conv) auto
  have trim: "helpers_trim (l @ crlf) = l"
    using helpers_trim_wrapped [of l "[]" crlf] assms(1) isspace_crlf(1) by simp
  show ?thesis
    unfolding receive.simps header_callback_def Let_def sep trim by simp
qed

lemma receive_append: "receive (ds @ ds') r = receive ds' (receive ds r)"
  by (induction ds r rule: receive.induct) simp_all

lemma receive_headers:
  assumes "list_all header_ok hs"
  shows "receive (map header_delivery hs) r = r\<lparr>rest_headers := std_map.put_all hs (rest_headers r)\<rparr>"
  using assms
proof (induction hs arbitrary: r)
  case (Cons kv hs)
  have "receive (map header_delivery (kv # hs)) r = receive (map header_delivery hs) (receive [header_delivery kv] r)"
    by (simp add: receive_append [symmetric])
  also have "receive [header_delivery kv] r = r\<lparr>rest_headers := map_set (rest_headers r) (fst kv) (snd kv)\<rparr>"
    using Cons.prems by (intro header_callback_field) simp
  finally show ?case
    using Cons by simp
qed simp

lemma receive_chunks: "receive (map Body_data ds) r = r\<lparr>rest_body := rest_body r @ concat ds\<rparr>"
  by (induction ds arbitrary: r) (simp_all add: write_callback_def)

lemma receive_reply:
  assumes "trimmed status" and "status \<noteq> []" and "CHR '':'' \<notin> set status" and "list_all header_ok hs"
  shows "receive (Header_line (status @ crlf) # map header_delivery hs @ [Header_line crlf] @ map Body_data chunks)
      \<lparr>rest_code = 0, rest_body = [], rest_headers = []\<rparr> =
    \<lparr>rest_code = 0, rest_body = concat chunks, rest_headers = std_map.put_all hs (map_set [] status ''present'')\<rparr>"
    (is "receive ?ds ?r0 = _")
proof -
  have "receive ?ds ?r0 =
      receive (map Body_data chunks) (receive [Header_line ([] @ crlf)]
        (receive (map header_delivery hs) (receive [Header_line (status @ crlf)] ?r0)))"
    by (simp add: receive_append)
  also have "\<dots> = \<lparr>rest_code = 0, rest_body = concat chunks,
      rest_headers = std_map.put_all hs (map_set [] status ''present'')\<rparr>"
    unfolding header_callback_bare [OF assms(1,3)] receive_headers [OF assms(4)] receive_chunks
    using header_callback_bare [of "[]"] assms(2) by (simp add: trimmed_def)
  finally show ?thesis .
qed

text \<open>The options that a \<open>POST\<close> of the simple interface hands to libcurl.\<close>

definition post_options :: "junk \<Rightarrow> string \<Rightarrow> string \<Rightarrow> string \<Rightarrow> curl_options" where
  "post_options junk url ctype data =
     curl_default\<lparr>opt_url := c_str url, opt_httpheader := [c_str (''Content-Type: '' @ ctype)],
       opt_useragent := c_str (''restclient-cpp/'' @ RESTCLIENT_VERSION), opt_timeout_ms := 50, opt_nosignal := True,
       opt_followlocation := snd junk, opt_post := True, opt_postfields := data\<rparr>"

lemma rest_post_transfer:
  assumes "curl_easy_init curl"
  shows "rest_post curl junk url ctype data =
    Inr (transfer_result (curl_easy_perform curl (post_options junk url ctype data)))"
  using assms
  by (simp add: rest_post_def Connection_def connection_post_def performCurlRequest_def Let_def SetTimeout_def
      AppendHeader_def request_options_def post_options_def GetUserAgent_def curl_default_def)

text \<open>
  C38. What a \<open>POST\<close> returns. When libcurl reports success after delivering a status line, header
  lines, a blank line and the body in any pieces, the response has the status code, the whole body,
  and for every header the last value that was sent for it; the status line itself is a header with
  the value \<open>present\<close>. When the transfer times out or fails, after such a delivery or before anything was
  delivered (as with a refused connection), the code is 28 or -1, a message takes the place of whatever was received
  of the body, and there are no headers if none were delivered. The headers are in map order in every case.
\<close>

theorem rest_post_reply:
  assumes "curl_easy_init curl" and "t = curl_easy_perform curl (post_options junk url ctype data)"
    and "deliveries t = (if answered
           then Header_line (status @ crlf) # map header_delivery hs @ [Header_line crlf] @ map Body_data chunks else [])"
    and "answered \<or> curl_res t \<noteq> CURLE_OK" and "trimmed status" and "status \<noteq> []" and "CHR '':'' \<notin> set status" and "list_all header_ok hs"
  shows "\<exists>r. rest_post curl junk url ctype data = Inr r \<and> map_ordered (rest_headers r) \<and>
    rest_code r = (if curl_res t = CURLE_OK then ucast (http_code t)
                   else if curl_res t = CURLE_OPERATION_TIMEDOUT then CURLE_OPERATION_TIMEDOUT else - 1) \<and>
    rest_body r = (if curl_res t = CURLE_OK then concat chunks
                   else if curl_res t = CURLE_OPERATION_TIMEDOUT then ''Operation Timeout.'' else ''Failed to query.'') \<and>
    (\<forall>k. map_of (rest_headers r) k =
       (if \<not> answered then None
        else case map_of (rev hs) k of Some v \<Rightarrow> Some v | None \<Rightarrow> if k = status then Some ''present'' else None))"
proof (cases answered)
  case False
  then show ?thesis
    using assms(4) unfolding rest_post_transfer [OF assms(1)] assms(2) [symmetric] transfer_result_def Let_def assms(3)
    by (simp add: map_ordered_def)
next
  case True
  let ?h = "std_map.put_all hs (map_set [] status ''present'')"
  have "map_ordered (map_set [] status ''present'')"
    by (rule map_ordered_set) (simp add: map_ordered_def)
  then have "map_ordered ?h" "map_of ?h k =
      (case map_of (rev hs) k of Some v \<Rightarrow> Some v | None \<Rightarrow> if k = status then Some ''present'' else None)" for k
    using std_map.inv_put_all [of _ hs] std_map.get_put_all [of _ hs k] by (simp_all split: option.splits)
  then show ?thesis
    unfolding rest_post_transfer [OF assms(1)] assms(2) [symmetric] transfer_result_def Let_def assms(3) if_P [OF True]
      receive_reply [OF assms(5-8)]
    by (simp add: True split: option.splits)
qed

definition demo_curl :: curl_lib where
  "demo_curl =
     \<lparr>curl_easy_init = True,
      curl_easy_perform = (\<lambda>opts.
        \<lparr>curl_res = 0,
         deliveries = [Header_line (''HTTP/1.1 200 OK'' @ crlf), header_delivery (''Server'', ''Gallocy-Httpd''),
                       Header_line crlf, Body_data ''{'', Body_data ''}''],
         http_code = 200, curl_info = no_request\<rparr>)\<rparr>"

theorem rest_post_reply_witness:
  "\<exists>r. rest_post demo_curl (0, False) ''http://127.0.0.1:8080/raft'' ''application/json'' ''{}'' = Inr r \<and>
     rest_code r = 200 \<and> rest_body r = ''{}'' \<and> map_of (rest_headers r) ''Server'' = Some ''Gallocy-Httpd''"
proof -
  have "trimmed ''HTTP/1.1 200 OK''" "header_ok (''Server'', ''Gallocy-Httpd'')"
    by (simp_all add: trimmed_def header_ok_def isspace_def char_code_def)
  then have "\<exists>r. rest_post demo_curl (0, False) ''http://127.0.0.1:8080/raft'' ''application/json'' ''{}'' = Inr r \<and>
      map_ordered (rest_headers r) \<and> rest_code r = 200 \<and> rest_body r = ''{}'' \<and>
      (\<forall>k. map_of (rest_headers r) k = (case map_of (rev [(''Server'', ''Gallocy-Httpd'')]) k of
        Some v \<Rightarrow> Some v | None \<Rightarrow> if k = ''HTTP/1.1 200 OK'' then Some ''present'' else None))"
    using rest_post_reply [of demo_curl _ _ _ _ _ True "''HTTP/1.1 200 OK''" "[(''Server'', ''Gallocy-Httpd'')]" "[''{'', ''}'']"]
    by (simp add: demo_curl_def CURLE_OK_def)
  then show ?thesis
    by (elim exE conjE) (auto simp: split: option.splits)
qed

section \<open>Several requests on one connection\<close>

datatype rest_call = Get string | Post string string | Put string string | Del string

fun do_call :: "curl_lib \<Rightarrow> rest_call \<Rightarrow> connection \<Rightarrow> rest_response \<times> connection" where
  "do_call curl (Get url) c = connection_get curl url c"
| "do_call curl (Post url data) c = connection_post curl url data c"
| "do_call curl (Put url data) c = connection_put curl url data c"
| "do_call curl (Del url) c = connection_del curl url c"

fun session :: "curl_lib \<Rightarrow> rest_call list \<Rightarrow> connection \<Rightarrow> rest_response list \<times> connection" where
  "session curl [] c = ([], c)"
| "session curl (call # calls) c =
     (let (r, c') = do_call curl call c; (rs, c'') = session curl calls c' in (r # rs, c''))"

lemma do_call_frame:
  "\<exists>i. snd (do_call curl call c) = c\<lparr>lastRequest := i, curlHandle := curl_default\<rparr>"
  by (cases call) (auto simp: connection_get_def connection_post_def connection_put_def connection_del_def
      performCurlRequest_def Let_def)

lemma do_call_lastRequest: "fst (do_call curl call (c\<lparr>lastRequest := i\<rparr>)) = fst (do_call curl call c)"
  by (cases call) (simp_all add: connection_get_def connection_post_def connection_put_def connection_del_def
      performCurlRequest_def request_options_def GetUserAgent_def Let_def)

text \<open>
  Requests on one connection do not influence each other: a series of requests returns what each
  of them would return alone on the connection as it was configured. In particular the options that
  make a request a \<open>POST\<close>, a \<open>PUT\<close> or a \<open>DELETE\<close> do not survive it.
\<close>

theorem requests_independent:
  assumes "curlHandle c = curl_default"
  shows "fst (session curl calls c) = map (\<lambda>call. fst (do_call curl call c)) calls"
  using assms
proof (induction calls arbitrary: c)
  case (Cons call calls)
  obtain i where c': "snd (do_call curl call c) = c\<lparr>lastRequest := i, curlHandle := curl_default\<rparr>"
    using do_call_frame by blast
  also have "\<dots> = c\<lparr>lastRequest := i\<rparr>"
    using Cons.prems by (cases c) simp
  finally show ?case
    using Cons.IH [of "c\<lparr>lastRequest := i\<rparr>"] Cons.prems
    by (simp add: case_prod_unfold Let_def do_call_lastRequest)
qed simp

theorem requests_independent_witness:
  "\<exists>c. Connection demo_curl (0, True) ''http://node'' = Inr c \<and>
     fst (session demo_curl [Post ''/a'' ''x'', Get ''/b''] c) =
       [fst (connection_post demo_curl ''/a'' ''x'' c), fst (connection_get demo_curl ''/b'' c)]"
proof -
  obtain c where c: "Connection demo_curl (0, True) ''http://node'' = Inr c" "curlHandle c = curl_default"
    by (simp add: Connection_def demo_curl_def)
  with requests_independent [OF c(2), of demo_curl "[Post ''/a'' ''x'', Get ''/b'']"] show ?thesis
    by auto
qed

end
