(* ===== verification/HttpClient.thy ===== *)
theory HttpClient
  imports HttpMessage RestClient
begin

text \<open>
  \<open>http/client.cpp\<close>: requests to peers, over the library of theory \<open>RestClient\<close>. \<open>multirequest\<close> sends
  every request from a thread of its own; the callback runs under a lock, so what matters is the
  order in which the responses arrive. The futures of \<open>std::async\<close> wait in their destructors, so all
  callbacks have run when \<open>multirequest\<close> returns. An exception in a callback is rethrown only if its
  future is ready when it is polled.
\<close>

definition response_of_rest :: "request \<Rightarrow> rest_response \<Rightarrow> response" where
  "response_of_rest r rr =
     (Response 0)\<lparr>status_code := scast (rest_code rr),
       rsp_headers := foldl (\<lambda>h kv. map_set h (fst kv) (snd kv)) [] (rest_headers rr),
       body := c_str (rest_body rr), rsp_peer := req_peer r\<rparr>"

definition curl_request :: "curl_lib \<Rightarrow> junk \<Rightarrow> request \<Rightarrow> response result" where
  "curl_request curl junk r =
     (if req_method r = ''GET''
      then rbind (rest_get curl junk (c_str (get_url r))) (\<lambda>rr. Inr (response_of_rest r rr))
      else if req_method r = ''POST''
      then rbind (rest_post curl junk (c_str (get_url r)) ''application/json'' (c_str (raw_body r)))
             (\<lambda>rr. Inr (response_of_rest r rr))
      else Inl Aborted)"

text \<open>A response with whether its future was ready when \<open>multirequest\<close> polled it.\<close>

type_synonym arrival = "response \<times> bool"

fun multirequest ::
  "(response \<Rightarrow> ('s, bool) op) \<Rightarrow> arrival list \<Rightarrow> u64 \<Rightarrow> ('s, u64) op" where
  "multirequest callback [] rsp_count s = Inr (rsp_count, s)"
| "multirequest callback ((rsp, ready) # rsps) rsp_count s =
     (case callback rsp s of
        Inl (Uncaught e) \<Rightarrow> if ready then Inl (Uncaught e) else multirequest callback rsps rsp_count s
      | Inl e \<Rightarrow> Inl e
      | Inr (b, s') \<Rightarrow> multirequest callback rsps (if b then rsp_count + 1 else rsp_count) s')"

end
