(* ===== verification/RaftClient.thy ===== *)
theory RaftClient
  imports RaftState HttpClient
begin

text \<open>
  \<open>consensus/client.cpp\<close>: what a candidate or leader asks of its peers. The argument \<open>exchange\<close>
  stands for sending the requests: the responses in the order of arrival.
\<close>

type_synonym exchange = "request list \<Rightarrow> arrival list"

text \<open>
  After \<open>multirequest\<close> no callback is left to run, so the loop that waits for the majority either ends
  at once or by its timeout of one millisecond.
\<close>

definition raft_request ::
  "(response \<Rightarrow> (gallocy_state, bool) op) \<Rightarrow> arrival list \<Rightarrow> (gallocy_state, bool) op" where
  "raft_request callback rsps =
     (\<lambda>s. let peer_count = length (peer_list s); peer_majority = peer_count div 2
          in seq (multirequest callback rsps 0) (\<lambda>rsp_count. ok (peer_majority \<le> unat rsp_count)) s)"

definition request_vote_callback :: "response \<Rightarrow> (gallocy_state, bool) op" where
  "request_vote_callback rsp = (\<lambda>s.
     if status_code rsp = 200
     then rbind (json_parse (c_str (body rsp)))
       (\<lambda>j. rbind (json_field_bool j ''vote_granted'')
         (\<lambda>granted. rbind (json_field_u64 j ''term'')
           (\<lambda>supporter_term.
              let s = (if supporter_term > get_current_term s
                       then set_state FOLLOWER (set_current_term supporter_term s) else s)
              in Inr (granted, s))))
     else Inr (False, s))"

definition json_headers :: headers where
  "json_headers = [(''Content-Type'', ''application/json'')]"

definition request_vote_json :: "u64 \<Rightarrow> u64 \<Rightarrow> u64 \<Rightarrow> json" where
  "request_vote_json term applied commit =
     json_object [(''term'', JInt term), (''last_applied'', JInt applied), (''commit_index'', JInt commit)]"

definition vote_requests :: "gallocy_state \<Rightarrow> request list" where
  "vote_requests s =
     (let j = request_vote_json (get_current_term s) (get_last_applied s) (get_commit_index s)
      in map (\<lambda>p. Request_post ''POST'' p ''/raft/request_vote'' (json_dump j) json_headers)
           (peer_list s))"

definition send_request_vote :: "exchange \<Rightarrow> (gallocy_state, bool) op" where
  "send_request_vote exchange = (\<lambda>s.
     let (_, s) = increment_current_term s
     in raft_request request_vote_callback (exchange (vote_requests s)) s)"

definition append_entries_callback :: "response \<Rightarrow> (gallocy_state, bool) op" where
  "append_entries_callback rsp = (\<lambda>s.
     if status_code rsp = 200
     then rbind (json_parse (c_str (body rsp)))
       (\<lambda>j. rbind (json_field_bool j ''success'')
         (\<lambda>success. rbind (json_field_u64 j ''term'')
           (\<lambda>supporter_term.
              if supporter_term > get_current_term s
              then Inr (False, set_current_term supporter_term (set_state FOLLOWER s))
              else if success
              then Inr (True, snd (increment_match_index (rsp_peer rsp)
                                (snd (increment_next_index (rsp_peer rsp) s))))
              else Inr (False, snd (decrement_next_index (rsp_peer rsp) s)))))
     else Inr (False, s))"

definition append_entries_json :: "log_entry list \<Rightarrow> u64 \<Rightarrow> u64 \<Rightarrow> u64 \<Rightarrow> u64 \<Rightarrow> json" where
  "append_entries_json entries commit prev_index prev_term term =
     json_object [(''entries'', JArray (map entry_to_json entries)), (''leader_commit'', JInt commit),
              (''previous_log_index'', JInt prev_index), (''previous_log_term'', JInt prev_term),
              (''term'', JInt term)]"

text \<open>The code makes the object with an empty array first and appends the entries one by one.\<close>

definition append_payload :: "log_entry list \<Rightarrow> u64 \<Rightarrow> u64 \<Rightarrow> u64 \<Rightarrow> u64 \<Rightarrow> json result" where
  "append_payload entries commit prev_index prev_term term =
     foldl (\<lambda>r e. rbind r (\<lambda>j. json_push_at j ''entries'' (entry_to_json e)))
       (Inr (json_object [(''entries'', json_array []), (''leader_commit'', JInt commit),
               (''previous_log_index'', JInt prev_index), (''previous_log_term'', JInt prev_term),
               (''term'', JInt term)]))
       entries"

lemma append_entries_object:
  "json_object [(''entries'', e), (''leader_commit'', c), (''previous_log_index'', i), (''previous_log_term'', p),
     (''term'', t)] =
   JObject [(''entries'', e), (''leader_commit'', c), (''previous_log_index'', i), (''previous_log_term'', p),
     (''term'', t)]"
  by (simp add: json_object_eq emplace_all_def json_emplace_def)

lemma push_entries:
  "foldl (\<lambda>r e. rbind r (\<lambda>j. json_push_at j k (f e))) (Inr (JObject ((k, JArray xs) # kvs))) es =
     Inr (JObject ((k, JArray (xs @ map f es)) # kvs))"
  by (induction es arbitrary: xs) (simp_all add: json_push_at_def)

lemma append_payload_eq [simp]:
  "append_payload es ci prev_idx pt t = Inr (append_entries_json es ci prev_idx pt t)"
  by (simp add: append_payload_def append_entries_json_def append_entries_object push_entries json_array_def)

lemma request_jsons_exact [simp]:
  "json_exact (request_vote_json t la ci)" "json_exact (append_entries_json es ci prev_idx pt t)"
  by (simp_all add: request_vote_json_def append_entries_json_def entry_to_json_def list_all_iff)

text \<open>What the leader does with the outcome: the commit index is the last index of its log.\<close>

definition leader_commit :: "bool \<Rightarrow> gallocy_state \<Rightarrow> gallocy_state" where
  "leader_commit success s =
     (if success
      then (let idx = int (length (log s)) - 1;
                s = (if idx > 0 then set_commit_index (of_int idx) s else s)
            in snd (try_apply s))
      else s)"

text \<open>The payload is built from the state before the entries are appended to the leader's log.\<close>

definition append_requests :: "log_entry list \<Rightarrow> gallocy_state \<Rightarrow> request list result" where
  "append_requests entries s =
     rbind (get_previous_log_index (log s))
       (\<lambda>prev_index. rbind (get_previous_log_term (log s))
         (\<lambda>prev_term. rbind (append_payload entries (get_commit_index s) prev_index prev_term (get_current_term s))
           (\<lambda>j. Inr (map (\<lambda>p. Request_post ''POST'' p ''/raft/append_entries'' (json_dump j) json_headers)
                      (peer_list s)))))"

definition append_to_log :: "log_entry list \<Rightarrow> gallocy_state \<Rightarrow> gallocy_state" where
  "append_to_log entries s = s\<lparr>log := foldl (\<lambda>l e. snd (append_entry e l)) (log s) entries\<rparr>"

definition send_append_entries :: "exchange \<Rightarrow> log_entry list \<Rightarrow> (gallocy_state, bool) op" where
  "send_append_entries exchange entries = (\<lambda>s.
     rbind (append_requests entries s)
       (\<lambda>requests.
          seq (raft_request append_entries_callback (exchange requests))
            (\<lambda>success. seq (modify (leader_commit success)) (\<lambda>_. ok success))
            (append_to_log entries s)))"

definition send_heartbeat :: "exchange \<Rightarrow> (gallocy_state, bool) op" where
  "send_heartbeat exchange = send_append_entries exchange []"

end
