(* ===== verification/Router.thy ===== *)
theory Router
  imports StringUtils StdMap "HOL-Library.Multiset"
begin

text \<open>
  \<open>http/router.h\<close>: the tree of routes. A node without a handler holds an empty \<open>std::function\<close>, whose
  call throws; following a null node is a \<open>Segfault\<close>; stepping past the end of an empty vector is
  \<open>Undefined\<close>.
\<close>

datatype 'h node = Node (func: "'h option") (dynamic: string) (routes: "(string \<times> 'h node) list")

definition new_node :: "'h node" where
  "new_node = Node None [] []"

definition get_item :: "(string \<times> 'v) list \<Rightarrow> string \<Rightarrow> 'v option" where
  "get_item m k = map_of m k"

definition is_variable :: "string \<Rightarrow> bool" where
  "is_variable part \<longleftrightarrow> startswith part ''<'' \<and> endswith part ''>''"

fun register_parts :: "string list \<Rightarrow> 'h \<Rightarrow> 'h node \<Rightarrow> 'h node" where
  "register_parts [] handler tmp = Node (Some handler) (dynamic tmp) (routes tmp)"
| "register_parts (part # parts) handler tmp =
     (let dyn = (if is_variable part then part else dynamic tmp);
          child = (case get_item (routes tmp) part of None \<Rightarrow> new_node | Some n \<Rightarrow> n)
      in Node (func tmp) dyn (map_set (routes tmp) part (register_parts parts handler child)))"

definition register_handler :: "string \<Rightarrow> 'h \<Rightarrow> 'h node \<Rightarrow> 'h node result" where
  "register_handler route handler table =
     (case split route (CHR ''/'') of
        [] \<Rightarrow> Inl Undefined
      | _ # parts \<Rightarrow> Inr (register_parts parts handler table))"

function (sequential) match_parts :: "string list \<Rightarrow> 'h node \<Rightarrow> string list \<Rightarrow> ('h node \<times> string list) result" where
  "match_parts [] tmp args = Inr (tmp, args)"
| "match_parts (part # parts) tmp args =
     (case get_item (routes tmp) part of
        None \<Rightarrow> Inl Segfault
      | Some n \<Rightarrow>
          (case parts of
             [] \<Rightarrow> Inr (n, args)
           | arg # rest \<Rightarrow>
               if dynamic n \<noteq> []
               then (case get_item (routes n) (dynamic n) of
                       None \<Rightarrow> Inl Segfault
                     | Some n' \<Rightarrow> match_parts rest n' (args @ [arg]))
               else match_parts parts n args))"
  by pat_completeness auto

termination
  by (relation "measure (\<lambda>(ps, _). length ps)") auto

text \<open>\<open>match\<close> and the call of what it returns: the handler with its arguments.\<close>

definition match_route :: "string \<Rightarrow> 'h node \<Rightarrow> ('h \<times> string list) result" where
  "match_route path table =
     (case split path (CHR ''/'') of
        [] \<Rightarrow> Inl Undefined
      | _ # parts \<Rightarrow>
          rbind (match_parts parts table [])
            (\<lambda>(n, args). case func n of None \<Rightarrow> Inl (Uncaught bad_function_call) | Some h \<Rightarrow> Inr (h, args)))"

section \<open>dump_table\<close>

text \<open>
  The table is printed breadth first, one block of lines for each node. A node is told apart from others
  by the parts on its way from the root; the address of its handler, which is printed, is a parameter.
\<close>

definition dump_node :: "(string list \<Rightarrow> string) \<Rightarrow> string list \<times> 'h node \<Rightarrow> string" where
  "dump_node func_address = (\<lambda>(way, tmp).
     ''Dynamic key: '' @ dynamic tmp @ [CHR 0x0A] @
     ''Handler: '' @ func_address way @ [CHR 0x0A] @
     ''Table size: '' @ show_nat (length (routes tmp)) @ [CHR 0x0A] @
     concat (map (\<lambda>r. ''  '' @ fst r @ [CHR 0x0A]) (routes tmp)))"

definition node_children :: "string list \<times> 'h node \<Rightarrow> (string list \<times> 'h node) list" where
  "node_children = (\<lambda>(way, tmp). map (\<lambda>r. (way @ [fst r], snd r)) (routes tmp))"

definition queue_size :: "(string list \<times> 'h node) list \<Rightarrow> nat" where
  "queue_size queue = sum_list (map (size \<circ> snd) queue)"

lemma routes_size: "queue_size (node_children (way, tmp)) < size tmp"
proof (cases tmp)
  case (Node f d rs)
  have "sum_list (map (\<lambda>r. size (snd r)) rs) \<le> size_list (\<lambda>r. size (snd r)) rs"
    by (induction rs) simp_all
  also have "\<dots> \<le> size_list (size_prod (\<lambda>_. 0) size) rs"
    by (induction rs) (auto simp: size_prod_simp)
  finally show ?thesis
    using Node by (simp add: queue_size_def node_children_def comp_def)
qed

function dump_loop :: "(string list \<Rightarrow> string) \<Rightarrow> (string list \<times> 'h node) list \<Rightarrow> string list" where
  "dump_loop func_address [] = []"
| "dump_loop func_address (tmp # queue) =
     dump_node func_address tmp # dump_loop func_address (queue @ node_children tmp)"
  by pat_completeness auto

termination
proof (relation "measure (\<lambda>(_, queue). queue_size queue)")
  fix func_address and tmp :: "string list \<times> 'h node" and queue
  show "((func_address, queue @ node_children tmp), (func_address, tmp # queue)) \<in> measure (\<lambda>(_, queue). queue_size queue)"
    using routes_size [of "fst tmp" "snd tmp"] by (simp add: queue_size_def)
qed simp

definition dump_table :: "(string list \<Rightarrow> string) \<Rightarrow> 'h node \<Rightarrow> string" where
  "dump_table func_address table = concat (dump_loop func_address [([], table)])"

text \<open>Printing ends, and every node of the tree is printed exactly once.\<close>

lemma child_size: "c \<in> set (node_children t) \<Longrightarrow> size (snd c) < size (snd t)"
  using routes_size [of "fst t" "snd t"] member_le_sum_list [of "size (snd c)" "map (size \<circ> snd) (node_children t)"]
  by (force simp: queue_size_def)

function all_nodes :: "string list \<times> 'h node \<Rightarrow> (string list \<times> 'h node) list" where
  "all_nodes t = t # concat (map all_nodes (node_children t))"
  by pat_completeness auto

termination
  by (relation "measure (size \<circ> snd)") (simp_all add: child_size)

declare all_nodes.simps [simp del]

lemma dump_loop_once:
  "mset (dump_loop func_address queue) = mset (map (dump_node func_address) (concat (map all_nodes queue)))"
proof (induction func_address queue rule: dump_loop.induct)
  case (2 func_address tmp queue)
  then show ?case
    by (simp add: all_nodes.simps [of tmp] ac_simps)
qed simp

section \<open>Tables of fixed routes\<close>

text \<open>The node at the end of a path, and trees in which no node has a variable.\<close>

fun node_at :: "string list \<Rightarrow> 'h node \<Rightarrow> 'h node option" where
  "node_at [] t = Some t"
| "node_at (p # ps) t = (case get_item (routes t) p of None \<Rightarrow> None | Some n \<Rightarrow> node_at ps n)"

inductive fixed :: "'h node \<Rightarrow> bool" where
  "dynamic t = [] \<Longrightarrow> (\<And>p n. get_item (routes t) p = Some n \<Longrightarrow> fixed n) \<Longrightarrow> fixed t"

inductive_simps fixed_iff: "fixed t"

lemma fixed_new_node: "fixed new_node"
  by (subst fixed_iff) (simp add: new_node_def get_item_def)

lemma match_fixed:
  "fixed t \<Longrightarrow> match_parts ps t args = (case node_at ps t of None \<Rightarrow> Inl Segfault | Some n \<Rightarrow> Inr (n, args))"
proof (induction ps arbitrary: t)
  case (Cons p ps)
  show ?case
  proof (cases "get_item (routes t) p")
    case (Some n)
    then have "fixed n"
      using Cons.prems fixed_iff [of t] by blast
    then show ?thesis
      using Some Cons.IH [of n] fixed_iff [of n] by (cases ps) auto
  qed simp
qed simp

lemma fixed_register:
  "fixed t \<Longrightarrow> \<forall>p \<in> set ps. \<not> is_variable p \<Longrightarrow> fixed (register_parts ps h t)"
proof (induction ps h t rule: register_parts.induct)
  case (1 h t)
  then show ?case
    by (subst fixed_iff) (use fixed_iff [of t] in auto)
next
  case (2 part parts h t)
  let ?child = "case get_item (routes t) part of None \<Rightarrow> new_node | Some n \<Rightarrow> n"
  have t: "dynamic t = []" "\<And>p n. get_item (routes t) p = Some n \<Longrightarrow> fixed n"
    using 2(2) fixed_iff [of t] by auto
  have "fixed ?child"
    using t(2) by (auto split: option.split intro: fixed_new_node)
  then have "fixed (register_parts parts h ?child)"
    using 2 by simp
  then show ?case
    using 2(3) t by (subst fixed_iff) (auto simp: get_item_def map_of_set split: if_splits)
qed

lemma node_at_register:
  fixes t :: "'a node"
  shows "node_at qs (register_parts ps h t) =
     (if \<exists>rs. ps = qs @ rs
      then Some (register_parts (drop (length qs) ps) h (case node_at qs t of None \<Rightarrow> new_node | Some n \<Rightarrow> n))
      else node_at qs t)"
proof (induction qs arbitrary: ps t)
  case (Cons q qs)
  have nn: "node_at qs (new_node :: 'a node) = (if qs = [] then Some new_node else None)"
    by (cases qs) (simp_all add: new_node_def get_item_def)
  show ?case
  proof (cases ps)
    case Nil
    then show ?thesis by simp
  next
    case (Cons p ps')
    let ?child = "case get_item (routes t) p of None \<Rightarrow> new_node | Some n \<Rightarrow> n"
    show ?thesis
    proof (cases "q = p")
      case False
      then show ?thesis
        using Cons by (simp add: get_item_def map_of_set Let_def)
    next
      case True
      have "node_at (q # qs) (register_parts ps h t) = node_at qs (register_parts ps' h ?child)"
        using Cons True by (simp add: get_item_def map_of_set Let_def)
      also have "\<dots> =
          (if \<exists>rs. ps' = qs @ rs
           then Some (register_parts (drop (length qs) ps') h (case node_at qs ?child of None \<Rightarrow> new_node | Some n \<Rightarrow> n))
           else node_at qs ?child)"
        by (rule Cons.IH)
      also have "(case node_at qs ?child of None \<Rightarrow> new_node | Some n \<Rightarrow> n) =
          (case node_at (q # qs) t of None \<Rightarrow> new_node | Some n \<Rightarrow> n)"
        using True nn by (simp split: option.split)
      finally show ?thesis
        using Cons True nn by (cases "get_item (routes t) p") auto
    qed
  qed
qed simp


lemma func_register: "func (register_parts ps h t) = (if ps = [] then Some h else func t)"
  by (cases ps) (simp_all add: Let_def)

lemma match_route_fixed:
  assumes "fixed t" and "split path (CHR ''/'') = q # qs"
  shows "match_route path t =
    (case node_at qs t of
       None \<Rightarrow> Inl Segfault
     | Some n \<Rightarrow> (case func n of None \<Rightarrow> Inl (Uncaught bad_function_call) | Some h \<Rightarrow> Inr (h, [])))"
  using assms by (simp add: match_route_def match_fixed split: option.splits)

section \<open>Routes with variables\<close>

text \<open>
  The paths that a route describes, with the words in the places of its variables; and the routes that \<open>match\<close>
  supports: it never looks for a variable in the first place or directly behind another variable.
\<close>

fun fits :: "string list \<Rightarrow> string list \<Rightarrow> string list option" where
  "fits [] [] = Some []"
| "fits (p # ps) (q # qs) =
     (if is_variable p then map_option (Cons q) (fits ps qs) else if p = q then fits ps qs else None)"
| "fits _ _ = None"

fun supported :: "string list \<Rightarrow> bool" where
  "supported [] \<longleftrightarrow> True"
| "supported [p] \<longleftrightarrow> \<not> is_variable p"
| "supported (p # q # ps) \<longleftrightarrow> \<not> is_variable p \<and> (if is_variable q then supported ps else supported (q # ps))"

text \<open>No route of the table has a variable where the new one has a fixed part, behind the same parts.\<close>

fun unshadowed :: "string list \<Rightarrow> 'h node \<Rightarrow> bool" where
  "unshadowed (p # q # ps) t \<longleftrightarrow>
     (case get_item (routes t) p of
        None \<Rightarrow> True
      | Some n \<Rightarrow>
          if is_variable q then (case get_item (routes n) q of None \<Rightarrow> True | Some n' \<Rightarrow> unshadowed ps n')
          else dynamic n = [] \<and> unshadowed (q # ps) n)"
| "unshadowed _ t \<longleftrightarrow> True"


lemma new_node_simps [simp]: "func new_node = None" "dynamic new_node = []" "routes new_node = []"
  by (simp_all add: new_node_def)

lemma get_item_simps [simp]: "get_item [] k = None" "get_item (map_set m k v) k' = (if k' = k then Some v else get_item m k')"
  by (simp_all add: get_item_def map_of_set)

lemma variable_ne [simp]: "is_variable v \<Longrightarrow> v \<noteq> []"
  by (auto simp: is_variable_def startswith_def)

lemma unshadowed_new [simp]: "unshadowed ps new_node"
  by (cases "(ps, new_node)" rule: unshadowed.cases) simp_all

definition child :: "'h node \<Rightarrow> string \<Rightarrow> 'h node" where
  "child t p = (case get_item (routes t) p of None \<Rightarrow> new_node | Some n \<Rightarrow> n)"

lemma register_parts_Cons [simp]:
  "func (register_parts (p # ps) h t) = func t"
  "dynamic (register_parts (p # ps) h t) = (if is_variable p then p else dynamic t)"
  "routes (register_parts (p # ps) h t) = map_set (routes t) p (register_parts ps h (child t p))"
  by (simp_all add: Let_def child_def)

lemma unshadowed_child:
  assumes "unshadowed (p # q # ps) t"
  shows "if is_variable q then unshadowed ps (child (child t p) q)
    else dynamic (child t p) = [] \<and> unshadowed (q # ps) (child t p)"
  using assms by (auto simp: child_def split: option.splits if_splits)

lemma fits_Cons: "fits (p # ps) qs = Some bs \<Longrightarrow>
    \<exists>q qs'. qs = q # qs' \<and> (if is_variable p then \<exists>bs'. bs = q # bs' \<and> fits ps qs' = Some bs' else p = q \<and> fits ps qs' = Some bs)"
  by (cases qs) (auto split: if_splits)

lemma match_registered:
  "supported ps \<Longrightarrow> unshadowed ps t \<Longrightarrow> fits ps qs = Some bs \<Longrightarrow>
     \<exists>n. match_parts qs (register_parts ps h t) args = Inr (n, args @ bs) \<and> func n = Some h"
proof (induction ps arbitrary: t qs bs args rule: supported.induct)
  case 1
  then show ?case
    by (cases qs) simp_all
next
  case (2 p)
  then show ?case
    by (cases qs; cases "tl qs") (auto simp del: register_parts.simps(2) split: if_splits)
next
  case (3 p q ps)
  have p: "\<not> is_variable p"
    using 3(3) by simp
  obtain qs' where qs: "qs = p # qs'" "fits (q # ps) qs' = Some bs"
    using fits_Cons [OF 3(5)] p by auto
  obtain a rest where qs': "qs' = a # rest"
    using fits_Cons [OF qs(2)] by auto
  note sh = unshadowed_child [OF 3(4)]
  show ?case
  proof (cases "is_variable q")
    case True
    obtain bs' where bs: "bs = a # bs'" "fits ps rest = Some bs'"
      using fits_Cons [OF qs(2)] True qs' by auto
    from 3(1) [OF True _ _ bs(2), of "child (child t p) q" "args @ [a]"] 3(3) sh True
    show ?thesis
      using qs(1) qs' bs(1) True by (simp del: register_parts.simps(2))
  next
    case False
    from 3(2) [OF False _ _ qs(2), of "child t p" args] 3(3) sh False
    show ?thesis
      using qs(1) qs' False by (simp del: register_parts.simps(2))
  qed
qed









text \<open>
  C24. Routing: after a route is registered in any table, \<open>match\<close> finds its handler for every path that the
  route describes and hands it the words in the places of the variables in their order. The
  route has no variable in the first place and no two in a row, and no route of the table has a
  variable where the new one has a fixed part behind the same parts.
\<close>

theorem register_match:
  assumes "split route (CHR ''/'') = r # ps" and "supported ps" and "unshadowed ps t"
    and "split path (CHR ''/'') = q # qs" and "fits ps qs = Some bs"
  shows "\<exists>t'. register_handler route h t = Inr t' \<and> match_route path t' = Inr (h, bs)"
proof -
  obtain n where "match_parts qs (register_parts ps h t) [] = Inr (n, bs)" "func n = Some h"
    using match_registered [OF assms(2,3,5), of h "[]"] by auto
  then show ?thesis
    using assms(1,4) by (simp add: register_handler_def match_route_def del: register_parts.simps)
qed

theorem register_match_witness:
  "\<exists>t t'. register_handler ''/foo'' (1 :: nat) new_node = Inr t \<and>
     register_handler ''/foo/<id>/bar/<n>'' 2 t = Inr t' \<and> match_route ''/foo/42/bar/7'' t' = Inr (2, [''42'', ''7''])"
proof -
  note var = is_variable_def startswith_def endswith_def get_item_def
  obtain t where t: "register_handler ''/foo'' (1 :: nat) new_node = Inr t"
    by (simp add: register_handler_def)
  then have "unshadowed [''foo'', ''<id>'', ''bar'', ''<n>''] t"
    by (auto simp: register_handler_def var)
  then have "\<exists>t'. register_handler ''/foo/<id>/bar/<n>'' 2 t = Inr t' \<and>
      match_route ''/foo/42/bar/7'' t' = Inr (2, [''42'', ''7''])"
    by (intro register_match [where ps = "[''foo'', ''<id>'', ''bar'', ''<n>'']" and qs = "[''foo'', ''42'', ''bar'', ''7'']"])
      (simp_all add: var)
  with t show ?thesis
    by blast
qed



section \<open>Routes that are lost\<close>

text \<open>The text of a route or path with these parts.\<close>

definition slashed :: "string list \<Rightarrow> string" where
  "slashed ps = concat (map (Cons (CHR ''/'')) ps)"

definition parts_ok :: "string list \<Rightarrow> bool" where
  "parts_ok ps \<longleftrightarrow> ps \<noteq> [] \<and> last ps \<noteq> [] \<and> list_all (\<lambda>p. CHR ''/'' \<notin> set p) ps"

lemma split_slashed: "parts_ok (p # ps) \<Longrightarrow> split (p @ slashed ps) (CHR ''/'') = p # ps"
proof (induction ps arbitrary: p)
  case Nil
  then show ?case
    using split_single [of "CHR ''/''" p] by (simp add: slashed_def parts_ok_def)
next
  case (Cons q ps)
  have "parts_ok (q # ps)" "CHR ''/'' \<notin> set p"
    using Cons.prems by (auto simp: parts_ok_def)
  then show ?case
    using Cons.IH [of q] split_cons [of "CHR ''/''" p "q @ slashed ps"] by (simp add: slashed_def)
qed

lemma split_route: "parts_ok ps \<Longrightarrow> split (slashed ps) (CHR ''/'') = [] # ps"
proof -
  assume "parts_ok ps"
  then have "parts_ok ([] # ps)"
    by (auto simp: parts_ok_def)
  from split_slashed [OF this] show ?thesis
    by simp
qed

text \<open>
  What becomes of other routes: a variable in the first place and one behind another variable are never
  matched but followed through a null pointer; a fixed part is never reached where the table has a
  variable, in whatever order the two routes were registered; and of two variables with different
  names in one place only the last is found.
\<close>

theorem routes_lost:
  assumes "is_variable v" "is_variable w" "v \<noteq> w" "\<not> is_variable a" "\<not> is_variable b" "\<not> is_variable x" "\<not> is_variable y"
    and "list_all (\<lambda>p. p \<noteq> [] \<and> CHR ''/'' \<notin> set p) [v, w, a, b, x, y]" and "b \<noteq> y"
  shows "rbind (register_handler (slashed [v]) h new_node) (match_route (slashed [x])) = Inl Segfault"
    and "rbind (register_handler (slashed [a, v, w]) h new_node) (match_route (slashed [a, x, y])) = Inl Segfault"
    and "rbind (rbind (register_handler (slashed [a, v]) h new_node) (register_handler (slashed [a, b]) h'))
           (match_route (slashed [a, b])) = Inr (h, [b])"
    and "rbind (rbind (register_handler (slashed [a, b]) h' new_node) (register_handler (slashed [a, v]) h))
           (match_route (slashed [a, b])) = Inr (h, [b])"
    and "rbind (rbind (register_handler (slashed [a, v, b]) h new_node) (register_handler (slashed [a, w, y]) h'))
           (match_route (slashed [a, x, b])) = Inl Segfault"
  using assms
  by (auto simp: register_handler_def match_route_def split_route parts_ok_def Let_def get_item_def map_of_set)

end
