(* ===== verification/RaftServer.thy ===== *)
theory RaftServer
  imports RaftClient Router
begin

text \<open>
  \<open>consensus/server.cpp\<close>: the handlers of a node's HTTP server and the way a request reaches them. A
  handler gets the arguments of the route and the request, and runs on the Raft state. The memory of
  requests and responses, which comes from the internal heap, is not part of this model, nor are the
  sockets: a connection is the list of chunks that \<open>recv\<close> returns.
\<close>

definition json_response :: "string \<Rightarrow> response" where
  "json_response text =
     (Response 0)\<lparr>rsp_headers := map_set (map_set [] ''Server'' ''Gallocy-Httpd'')
         ''Content-Type'' ''application/json'',
       status_code := 200, body := text\<rparr>"

type_synonym handler = "string list \<Rightarrow> request \<Rightarrow> (gallocy_state, response) op"

definition route_admin :: "handler" where
  "route_admin args request = (\<lambda>s. Inr (json_response (json_dump (state_to_json s)), s))"

definition route_request_vote :: "handler" where
  "route_request_vote args request = (\<lambda>s.
     rbind (get_json request)
       (\<lambda>(j, _). rbind (json_field_u64 j ''commit_index'')
         (\<lambda>candidate_commit_index. rbind (json_field_u64 j ''term'')
           (\<lambda>candidate_current_term. rbind (json_field_u64 j ''last_applied'')
             (\<lambda>candidate_last_applied.
                let (granted, s) = try_grant_vote (req_peer request) candidate_commit_index
                                     candidate_current_term candidate_last_applied s;
                    rj = json_object [(''term'', JInt (get_current_term s)), (''vote_granted'', JBool granted)]
                in Inr (json_response (json_dump rj), s))))))"

fun decode_entries :: "json list \<Rightarrow> log_entry list result" where
  "decode_entries [] = Inr []"
| "decode_entries (j # js) =
     rbind (json_field_string j ''command'')
       (\<lambda>cmd. rbind (json_field_u64 j ''term'')
         (\<lambda>t. rbind (decode_entries js) (\<lambda>es. Inr (LogEntry (Command cmd) t # es))))"

definition route_append_entries :: "handler" where
  "route_append_entries args request = (\<lambda>s.
     rbind (get_json request)
       (\<lambda>(j, _). rbind (json_field_u64 j ''leader_commit'')
         (\<lambda>leader_commit_index. rbind (json_field_u64 j ''previous_log_index'')
           (\<lambda>leader_prev_log_index. rbind (json_field_u64 j ''previous_log_term'')
             (\<lambda>leader_prev_log_term. rbind (json_field_u64 j ''term'')
               (\<lambda>leader_term. rbind (json_at j ''entries'')
                 (\<lambda>ej. rbind (rbind (range_for ej) decode_entries)
                   (\<lambda>leader_entries.
                      seq (try_replicate_log (req_peer request) leader_entries leader_commit_index
                             leader_prev_log_index leader_prev_log_term leader_term)
                        (\<lambda>success s.
                           let rj = json_object [(''term'', JInt (get_current_term s)),
                                             (''success'', JBool success)]
                           in Inr (json_response (json_dump rj), s)) s))))))))"

definition route_request :: "exchange \<Rightarrow> handler" where
  "route_request exchange args request = (\<lambda>s.
     let entry = LogEntry (Command ''hello world'') (get_current_term s)
     in seq (send_append_entries exchange [entry]) (\<lambda>_. ok (json_response ''GOOD'')) s)"

section \<open>From the socket to the handler\<close>

definition GallocyServer :: "exchange \<Rightarrow> handler node result" where
  "GallocyServer exchange =
     rbind (register_handler ''/admin'' route_admin new_node)
       (\<lambda>t. rbind (register_handler ''/raft/request_vote'' route_request_vote t)
         (\<lambda>t. rbind (register_handler ''/raft/append_entries'' route_append_entries t)
           (\<lambda>t. register_handler ''/raft/request'' (route_request exchange) t)))"

text \<open>
  \<open>get_request\<close>: up to 16 bytes first, then up to 512 at a time. Each chunk is printed as a C string
  from a buffer of 512 bytes, so a chunk that fills the buffer is read beyond its end.
\<close>

fun read_chunks :: "string list \<Rightarrow> string result" where
  "read_chunks [] = Inr []"
| "read_chunks (chunk # chunks) =
     (if length chunk = 512 \<and> (\<forall>c \<in> set chunk. char_code c \<noteq> 0) then Inl Undefined
      else if chunk = [] then Inr []
      else rbind (read_chunks chunks) (\<lambda>rest. Inr (c_str chunk @ rest)))"

definition get_request :: "string list \<Rightarrow> sockaddr_in \<Rightarrow> request result" where
  "get_request chunks client_name =
     rbind (read_chunks chunks) (\<lambda>raw. Request_raw raw (Peer_sockaddr client_name))"

definition handle :: "handler node \<Rightarrow> string list \<Rightarrow> sockaddr_in \<Rightarrow> (gallocy_state, string) op" where
  "handle table chunks client_name = (\<lambda>s.
     rbind (get_request chunks client_name)
       (\<lambda>request. rbind (match_route (uri request) table)
         (\<lambda>(h, args). rbind (h args request s) (\<lambda>(response, s'). Inr (response_str response, s')))))"

end
