(* ===== verification/RaftMachine.thy ===== *)
theory RaftMachine
  imports RaftServer
begin

text \<open>
  \<open>consensus/machine.cpp\<close>: what a node does when its timer expires. The two exchanges are the round
  of votes and the round of heartbeats that follows an election.
\<close>

definition state_follower :: "(gallocy_state, raft_state) op" where
  "state_follower = ok FOLLOWER"

definition state_leader :: "exchange \<Rightarrow> (gallocy_state, raft_state) op" where
  "state_leader beats = seq (send_heartbeat beats) (\<lambda>_. ok LEADER)"

definition state_candidate :: "exchange \<Rightarrow> exchange \<Rightarrow> (gallocy_state, raft_state) op" where
  "state_candidate votes beats =
     seq (send_request_vote votes)
       (\<lambda>won. if won
              then seq (modify (set_state LEADER))
                     (\<lambda>_. seq (modify reset_timer) (\<lambda>_. state_leader beats))
              else seq (modify reset_timer)
                     (\<lambda>_. seq (modify (set_voted_for no_peer)) (\<lambda>_. ok CANDIDATE)))"

text \<open>One turn of the loop of \<open>work\<close>, after the timer has woken it.\<close>

definition work_turn :: "exchange \<Rightarrow> exchange \<Rightarrow> (gallocy_state, unit) op" where
  "work_turn votes beats = (\<lambda>s.
     let s = (if get_state s = FOLLOWER then set_state CANDIDATE s else s)
     in seq (case get_state s of
               FOLLOWER \<Rightarrow> state_candidate votes beats
             | LEADER \<Rightarrow> state_leader beats
             | CANDIDATE \<Rightarrow> state_candidate votes beats)
          (\<lambda>new_state. modify (set_state new_state)) s)"

end
