(* ===== verification/RaftProps.thy ===== *)
theory RaftProps
  imports RaftMachine
begin

text \<open>
  What a single node guarantees: when it votes, what it does to its log and its indices, and how its
  term moves.
\<close>

section \<open>Fields that an operation leaves alone\<close>

lemma initialize_leader_fold:
  "foldl (\<lambda>s p. s\<lparr>next_index := (next_index s)(get_canonical_id p \<mapsto> commit_index s + 1),
                 match_index := (match_index s)(get_canonical_id p \<mapsto> 0)\<rparr>) s ps =
   s\<lparr>next_index := (\<lambda>a. if a \<in> get_canonical_id ` set ps then Some (commit_index s + 1) else next_index s a),
     match_index := (\<lambda>a. if a \<in> get_canonical_id ` set ps then Some 0 else match_index s a)\<rparr>"
  by (induction ps arbitrary: s) (auto simp: fun_eq_iff)

lemma set_state_fields [simp]:
  "current_term (set_state r s) = current_term s" "voted_for (set_state r s) = voted_for s"
  "log (set_state r s) = log s" "commit_index (set_state r s) = commit_index s"
  "last_applied (set_state r s) = last_applied s" "peer_list (set_state r s) = peer_list s"
  "state (set_state r s) = r"
  by (simp_all add: set_state_def initialize_leader_state_def finalize_leader_state_def
      initialize_leader_fold Let_def)

lemma set_current_term_fields [simp]:
  "current_term (set_current_term t s) = t" "voted_for (set_current_term t s) = no_peer"
  "log (set_current_term t s) = log s" "commit_index (set_current_term t s) = commit_index s"
  "last_applied (set_current_term t s) = last_applied s" "peer_list (set_current_term t s) = peer_list s"
  "state (set_current_term t s) = state s"
  by (simp_all add: set_current_term_def)

lemma set_voted_for_fields [simp]:
  "current_term (set_voted_for p s) = current_term s" "voted_for (set_voted_for p s) = p"
  "log (set_voted_for p s) = log s" "commit_index (set_voted_for p s) = commit_index s"
  "last_applied (set_voted_for p s) = last_applied s" "peer_list (set_voted_for p s) = peer_list s"
  "state (set_voted_for p s) = state s"
  by (simp_all add: set_voted_for_def)

lemma reset_timer_fields [simp]:
  "current_term (reset_timer s) = current_term s" "voted_for (reset_timer s) = voted_for s"
  "log (reset_timer s) = log s" "commit_index (reset_timer s) = commit_index s"
  "last_applied (reset_timer s) = last_applied s" "peer_list (reset_timer s) = peer_list s"
  "state (reset_timer s) = state s"
  by (simp_all add: reset_timer_def)

lemma set_commit_index_fields [simp]:
  "current_term (set_commit_index i s) = current_term s" "voted_for (set_commit_index i s) = voted_for s"
  "log (set_commit_index i s) = log s" "commit_index (set_commit_index i s) = i"
  "last_applied (set_commit_index i s) = last_applied s" "peer_list (set_commit_index i s) = peer_list s"
  "state (set_commit_index i s) = state s"
  by (simp_all add: set_commit_index_def)

lemma try_apply_fields [simp]:
  "current_term (snd (try_apply s)) = current_term s" "voted_for (snd (try_apply s)) = voted_for s"
  "log (snd (try_apply s)) = log s" "commit_index (snd (try_apply s)) = commit_index s"
  "peer_list (snd (try_apply s)) = peer_list s" "state (snd (try_apply s)) = state s"
  "last_applied (snd (try_apply s)) =
     (if last_applied s < commit_index s then last_applied s + 1 else last_applied s)"
  by (simp_all add: try_apply_def)

lemma index_fields [simp]:
  "current_term (snd (increment_next_index p s)) = current_term s"
  "current_term (snd (decrement_next_index p s)) = current_term s"
  "current_term (snd (increment_match_index p s)) = current_term s"
  "state (snd (increment_next_index p s)) = state s"
  "state (snd (decrement_next_index p s)) = state s"
  "state (snd (increment_match_index p s)) = state s"
  "peer_list (snd (increment_next_index p s)) = peer_list s"
  "peer_list (snd (decrement_next_index p s)) = peer_list s"
  "peer_list (snd (increment_match_index p s)) = peer_list s"
  by (simp_all add: increment_next_index_def decrement_next_index_def increment_match_index_def
      set_next_index_def set_match_index_def Let_def)

lemmas raft_getters = get_current_term_def get_voted_for_def get_commit_index_def
  get_last_applied_def get_state_def

section \<open>Voting\<close>

text \<open>
  A vote is granted exactly when the candidate's term is not older, the node has voted for nobody
  or for this candidate, and the candidate is at least as far in applied and committed entries.
\<close>

lemma vote_granted:
  "try_grant_vote cand ci t la s =
     (if current_term s \<le> t \<and> (voted_for s = no_peer \<or> voted_for s = cand) \<and>
         last_applied s \<le> la \<and> commit_index s \<le> ci
      then (True, reset_timer (s\<lparr>current_term := t, voted_for := cand\<rparr>)) else (False, s))"
  by (auto simp: try_grant_vote_def raft_getters Let_def set_current_term_def set_voted_for_def)

text \<open>A series of vote requests, with the candidates that got a vote.\<close>

fun vote_series :: "(peer \<times> u64 \<times> u64 \<times> u64) list \<Rightarrow> gallocy_state \<Rightarrow> peer list \<times> gallocy_state" where
  "vote_series [] s = ([], s)"
| "vote_series ((cand, ci, t, la) # rs) s =
     (let (granted, s') = try_grant_vote cand ci t la s; (ps, s'') = vote_series rs s'
      in (if granted then cand # ps else ps, s''))"

lemma vote_series_voted:
  "voted_for s = c \<Longrightarrow> c \<noteq> no_peer \<Longrightarrow> set (fst (vote_series rs s)) \<subseteq> {c}"
proof (induction rs arbitrary: s)
  case (Cons r rs)
  obtain cand ci t la where r: "r = (cand, ci, t, la)"
    by (cases r)
  obtain g s' where g: "try_grant_vote cand ci t la s = (g, s')"
    by (cases "try_grant_vote cand ci t la s")
  then have "voted_for s' = c" "g \<longrightarrow> cand = c"
    using Cons.prems by (auto simp: try_grant_vote_def raft_getters Let_def split: if_splits)
  then show ?case
    using Cons.IH [of s'] Cons.prems g r by (auto split: prod.splits)
qed simp

text \<open>
  C20. However many vote requests a node answers, and whatever their terms, all votes it grants go to
  one candidate: this is the safety that one vote per term asks for, but it also means that a node
  that has voted never votes for another candidate in a later term.
\<close>

theorem votes_for_one_candidate:
  assumes "\<forall>(cand, _) \<in> set rs. cand \<noteq> no_peer"
  shows "\<exists>c. set (fst (vote_series rs s)) \<subseteq> {c}"
  using assms
proof (induction rs arbitrary: s)
  case (Cons r rs)
  obtain cand ci t la where r: "r = (cand, ci, t, la)"
    by (cases r)
  obtain g s' where g: "try_grant_vote cand ci t la s = (g, s')"
    by (cases "try_grant_vote cand ci t la s")
  show ?case
  proof (cases g)
    case True
    then have "voted_for s' = cand"
      using g by (auto simp: try_grant_vote_def raft_getters Let_def split: if_splits)
    then have "set (fst (vote_series rs s')) \<subseteq> {cand}"
      using Cons.prems r by (intro vote_series_voted) auto
    then show ?thesis
      using g r True by (auto split: prod.splits)
  next
    case False
    then show ?thesis
      using Cons.IH [of s'] Cons.prems g r by (auto split: prod.splits)
  qed
qed simp

theorem votes_for_one_candidate_witness:
  "\<exists>c. set (fst (vote_series [(Peer 1 8080, 0, 1, 0), (Peer 2 8080, 0, 2, 0)]
      (GallocyState True False [Peer 1 8080, Peer 2 8080]))) \<subseteq> {c}"
  by (rule votes_for_one_candidate) (simp add: no_peer_def)


section \<open>Replication\<close>

lemma unat_minus_1_64: "unat (- 1 :: u64) = 18446744073709551615"
  by (simp add: unsigned_minus_1_eq_mask mask_eq_exp_minus_1)

lemma unat_size_minus_1:
  assumes "length l < 2 ^ 64"
  shows "unat (of_nat (length l) - 1 :: u64) = (if l = [] then 2 ^ 64 - 1 else length l - 1)"
proof (cases "l = []")
  case False
  have "unat (of_nat (length l) :: u64) = length l"
    by (rule of_nat_inverse [OF refl]) (use assms in simp)
  then show ?thesis
    using False by (subst unat_sub_le) (auto simp: Suc_le_eq)
qed (simp add: unat_minus_1_64)

text \<open>Where the previous entry is missing the loop throws; it never rejects.\<close>

lemma replicate_step:
  assumes "length l < 2 ^ 64"
  shows "replicate_entries (e # es) prev_idx pt l b =
    (if l \<noteq> [] \<and> length l \<le> unat prev_idx then Inl (Uncaught out_of_range)
     else replicate_entries es prev_idx pt (l @ [e]) True)"
proof -
  have "of_nat (length l) - 1 < prev_idx \<longleftrightarrow> l \<noteq> [] \<and> length l \<le> unat prev_idx"
  proof (cases "l = []")
    case True
    then show ?thesis
      using unat_lt_64 [of prev_idx] by (simp add: word_less_nat_alt unat_minus_1_64)
  next
    case False
    then have "length l - 1 < unat prev_idx \<longleftrightarrow> length l \<le> unat prev_idx"
      by (cases l) auto
    then show ?thesis
      using unat_size_minus_1 [OF assms] False by (simp add: word_less_nat_alt)
  qed
  then show ?thesis
    by (simp add: append_entry_def)
qed

lemma replicate_all:
  "length l + length es < 2 ^ 64 \<Longrightarrow> l \<noteq> [] \<Longrightarrow> unat prev_idx < length l \<Longrightarrow>
     replicate_entries es prev_idx pt l b = Inr (if es = [] then b else True, l @ es)"
proof (induction es arbitrary: l b)
  case (Cons e es)
  then show ?case
    using Cons.IH [of "l @ [e]" True] by (simp add: replicate_step del: replicate_entries.simps(2))
qed simp

text \<open>
  C21. What \<open>try_replicate_log\<close> does with the entries of a leader that is not outdated: it appends all
  of them without looking at the previous entry's term, or, when the leader's previous index lies
  outside the log, ends the process with \<open>std::out_of_range\<close>. It never removes an entry and never
  rejects one; with no entries (a heartbeat) it answers failure.
\<close>

theorem replicate_appends_or_throws:
  assumes "length l + length es < 2 ^ 64" and "l \<noteq> []"
  shows "replicate_entries es prev_idx pt l False =
    (if es \<noteq> [] \<and> length l \<le> unat prev_idx then Inl (Uncaught out_of_range) else Inr (es \<noteq> [], l @ es))"
proof (cases es)
  case (Cons e es')
  then show ?thesis
    using assms replicate_step [of l e es' prev_idx pt False] replicate_all [of "l @ [e]" es' prev_idx pt True]
    by (auto simp del: replicate_entries.simps(2))
qed simp

theorem replicate_appends_or_throws_witness:
  "replicate_entries [LogEntry (Command ''x'') 3] 0 99 [LogEntry (Command ''a'') 1] False =
    (if [LogEntry (Command ''x'') 3] \<noteq> [] \<and> length [LogEntry (Command ''a'') 1] \<le> unat (0 :: u64)
     then Inl (Uncaught out_of_range)
     else Inr ([LogEntry (Command ''x'') 3] \<noteq> [], [LogEntry (Command ''a'') 1] @ [LogEntry (Command ''x'') 3]))"
  by (rule replicate_appends_or_throws) simp_all

lemma replicate_log_extends:
  "replicate_entries es prev_idx pt l b = Inr (done, l') \<Longrightarrow>
     l' = l @ es \<or> (\<exists>xs. l' = l @ xs \<and> length xs \<le> length es)"
proof (induction es arbitrary: l b)
  case (Cons e es)
  have "\<exists>l1 b1. replicate_entries es prev_idx pt l1 b1 = Inr (done, l') \<and> (l1 = l \<or> l1 = l @ [e])"
    using Cons.prems by (auto simp: append_entry_def split: if_splits)
  then obtain l1 b1 where r: "replicate_entries es prev_idx pt l1 b1 = Inr (done, l')" and l1: "l1 = l \<or> l1 = l @ [e]"
    by blast
  from Cons.IH [OF r] obtain xs where xs: "l' = l1 @ xs" "length xs \<le> length es"
    by auto
  have "\<exists>ys. l' = l @ ys \<and> length ys \<le> length (e # es)"
  proof (cases "l1 = l")
    case False
    then have "l' = l @ (e # xs)"
      using xs l1 by simp
    then show ?thesis
      using xs(2) by (intro exI [of _ "e # xs"]) simp
  qed (use xs in auto)
  then show ?case by blast
qed simp

section \<open>Indices\<close>

text \<open>
  A node is in order when every index it calls committed is in its log (index 0 also when the log is
  empty) and it has applied no more than that.
\<close>

definition index_ok :: "gallocy_state \<Rightarrow> bool" where
  "index_ok s \<longleftrightarrow>
     last_applied s \<le> commit_index s \<and> (commit_index s = 0 \<or> unat (commit_index s) < length (log s)) \<and>
     length (log s) < 2 ^ 64"

definition new_commit :: "u64 \<Rightarrow> gallocy_log \<Rightarrow> u64 \<Rightarrow> u64" where
  "new_commit lc l ci = (if lc > ci then min lc (of_nat (length l) - 1) else ci)"

lemma follow_leader_fields:
  "log (follow_leader leader lc lt s) = log s"
  "current_term (follow_leader leader lc lt s) = lt"
  "voted_for (follow_leader leader lc lt s) = leader"
  "state (follow_leader leader lc lt s) = FOLLOWER"
  "peer_list (follow_leader leader lc lt s) = peer_list s"
  "commit_index (follow_leader leader lc lt s) = new_commit lc (log s) (commit_index s)"
  "last_applied (follow_leader leader lc lt s) =
     (if last_applied s < commit_index (follow_leader leader lc lt s) then last_applied s + 1
      else last_applied s)"
  by (simp_all add: follow_leader_def Let_def get_commit_index_def new_commit_def)

lemma try_replicate_cases:
  assumes "try_replicate_log leader es lc prev_idx pt lt s = Inr (done, s')"
  shows "(lt < current_term s \<and> s' = s \<and> \<not> done) \<or>
    (current_term s \<le> lt \<and> (\<exists>l. replicate_entries es prev_idx pt (log s) False = Inr (done, l) \<and> log s' = l \<and>
       current_term s' = lt \<and> voted_for s' = leader \<and> state s' = FOLLOWER \<and>
       peer_list s' = peer_list s \<and>
       commit_index s' = new_commit lc l (commit_index s) \<and>
       last_applied s' =
         (if last_applied s < commit_index s' then last_applied s + 1 else last_applied s)))"
proof (cases "lt < current_term s")
  case False
  then obtain l where "replicate_entries es prev_idx pt (log s) False = Inr (done, l)"
    and s': "s' = follow_leader leader lc lt (s\<lparr>log := l\<rparr>)"
    using assms by (auto simp: try_replicate_log_def get_current_term_def rbind_eq_Inr)
  then show ?thesis
    using False by (auto simp: s' follow_leader_fields)
qed (use assms in \<open>simp add: try_replicate_log_def get_current_term_def\<close>)

lemma apply_le: "a \<le> (c :: u64) \<Longrightarrow> (if a < c then a + 1 else a) \<le> c"
  by (simp add: inc_le)

text \<open>
  C22. Replication keeps a node in order, and never moves its commit index back, as long as its log is
  not empty afterwards: every index it calls committed is in its log, and it has applied no more
  than it has committed.
\<close>

theorem replicate_keeps_order:
  assumes "try_replicate_log leader es lc prev_idx pt lt s = Inr (done, s')" and "index_ok s"
    and "log s' \<noteq> []" and "length (log s) + length es < 2 ^ 64"
  shows "index_ok s' \<and> commit_index s \<le> commit_index s' \<and> (\<exists>xs. log s' = log s @ xs)"
  using try_replicate_cases [OF assms(1)]
proof (elim disjE conjE exE)
  assume "s' = s"
  then show ?thesis
    using assms(2) by auto
next
  fix l
  assume r: "replicate_entries es prev_idx pt (log s) False = Inr (done, l)" and l: "log s' = l"
    and ci: "commit_index s' = new_commit lc l (commit_index s)"
    and la: "last_applied s' = (if last_applied s < commit_index s' then last_applied s + 1 else last_applied s)"
  obtain xs where xs: "l = log s @ xs" "length xs \<le> length es"
    using replicate_log_extends [OF r] by auto
  have len: "length l < 2 ^ 64"
    using xs assms(4) by simp
  have size: "unat (of_nat (length l) - 1 :: u64) = length l - 1"
    using unat_size_minus_1 [OF len] assms(3) l by simp
  have c0: "commit_index s = 0 \<or> unat (commit_index s) < length (log s)" "last_applied s \<le> commit_index s"
    using assms(2) by (simp_all add: index_ok_def)
  have le: "unat (commit_index s) \<le> length l - 1"
    using c0(1) xs by auto
  have mono: "commit_index s \<le> commit_index s'"
    using le size by (auto simp: ci new_commit_def word_le_nat_alt min_def word_less_nat_alt)
  have "unat (commit_index s') < length l"
    using le size assms(3) l c0(1) xs
    by (cases "l = []") (auto simp: ci new_commit_def min_def word_le_nat_alt word_less_nat_alt)
  moreover have "last_applied s' \<le> commit_index s'"
    unfolding la using c0(2) mono by (intro apply_le) simp
  ultimately show ?thesis
    using mono len xs l by (auto simp: index_ok_def)
qed


theorem replicate_keeps_order_witness:
  "\<exists>s'. try_replicate_log (Peer 1 8080) [LogEntry (Command ''x'') 1] 0 0 0 1
      (GallocyState True False [Peer 1 8080]) = Inr (True, s') \<and>
    (index_ok s' \<and> commit_index (GallocyState True False [Peer 1 8080]) \<le> commit_index s' \<and>
     (\<exists>xs. log s' = log (GallocyState True False [Peer 1 8080]) @ xs))"
proof -
  let ?s = "GallocyState True False [Peer 1 8080]"
  let ?l = "[LogEntry (Command ''x'') 1]"
  have r: "try_replicate_log (Peer 1 8080) ?l 0 0 0 1 ?s =
      Inr (True, follow_leader (Peer 1 8080) 0 1 (?s\<lparr>log := ?l\<rparr>))"
    by (simp add: try_replicate_log_def get_current_term_def GallocyState_def append_entry_def)
  have "index_ok ?s"
    by (simp add: index_ok_def GallocyState_def)
  then have "index_ok (follow_leader (Peer 1 8080) 0 1 (?s\<lparr>log := ?l\<rparr>)) \<and>
      commit_index ?s \<le> commit_index (follow_leader (Peer 1 8080) 0 1 (?s\<lparr>log := ?l\<rparr>)) \<and>
      (\<exists>xs. log (follow_leader (Peer 1 8080) 0 1 (?s\<lparr>log := ?l\<rparr>)) = log ?s @ xs)"
    by (rule replicate_keeps_order [OF r]) (simp_all add: follow_leader_fields GallocyState_def)
  then show ?thesis
    using r by blast
qed

text \<open>
  With an empty log, a heartbeat whose leader has committed anything makes a follower take over the
  leader's commit index and count one entry as applied, although it holds no entry at all: the
  minimum is taken with the size minus one, which wraps to the largest number.
\<close>

theorem empty_log_commits:
  assumes "log s = []" and "current_term s \<le> lt" and "commit_index s < lc" and "last_applied s \<le> commit_index s"
  shows "\<exists>s'. try_replicate_log leader [] lc prev_idx pt lt s = Inr (False, s') \<and> log s' = [] \<and>
    commit_index s' = lc \<and> last_applied s' = last_applied s + 1"
proof -
  have lc: "min lc (of_nat (length (log s)) - 1) = lc"
    using assms(1) by simp
  have "last_applied s < lc"
    using assms by simp
  then show ?thesis
    using assms lc
    by (auto simp: try_replicate_log_def get_current_term_def follow_leader_fields new_commit_def)
qed

theorem empty_log_commits_witness:
  "\<exists>s'. try_replicate_log (Peer 1 8080) [] 5 0 0 1 (GallocyState True False []) = Inr (False, s') \<and>
    log s' = [] \<and> commit_index s' = 5 \<and> last_applied s' = last_applied (GallocyState True False []) + 1"
  by (rule empty_log_commits) (simp_all add: GallocyState_def)

end
