(* ===== verification/ServerProps.thy ===== *)
theory ServerProps
  imports RaftProps
begin

text \<open>
  Properties of the server and of the round trip of a remote call: routes, encoding and decoding.
\<close>

section \<open>Routes\<close>

declare register_parts.simps [simp del] node_at.simps(2) [simp del]

lemmas route_prefixes = node_at_register func_register

definition server_table :: "exchange \<Rightarrow> handler node" where
  "server_table exchange =
     register_parts [''raft'', ''request''] (route_request exchange)
       (register_parts [''raft'', ''append_entries''] route_append_entries
         (register_parts [''raft'', ''request_vote''] route_request_vote
           (register_parts [''admin''] route_admin new_node)))"

lemma server_paths:
  "split ''/admin'' (CHR ''/'') = [[], ''admin'']"
  "split ''/raft/request_vote'' (CHR ''/'') = [[], ''raft'', ''request_vote'']"
  "split ''/raft/append_entries'' (CHR ''/'') = [[], ''raft'', ''append_entries'']"
  "split ''/raft/request'' (CHR ''/'') = [[], ''raft'', ''request'']"
  by simp_all

lemma GallocyServer_table: "GallocyServer exchange = Inr (server_table exchange)"
  unfolding GallocyServer_def register_handler_def server_paths by (simp add: server_table_def)

lemma server_table_fixed: "fixed (server_table exchange)"
  unfolding server_table_def
  by (intro fixed_register fixed_new_node) (simp_all add: is_variable_def startswith_def)

lemma node_at_new: "node_at (p # ps) new_node = None"
  by (simp add: new_node_def get_item_def node_at.simps)

lemma server_match:
  "match_route ''/admin'' (server_table ex) = Inr (route_admin, [])"
  "match_route ''/raft/request_vote'' (server_table ex) = Inr (route_request_vote, [])"
  "match_route ''/raft/append_entries'' (server_table ex) = Inr (route_append_entries, [])"
  "match_route ''/raft/request'' (server_table ex) = Inr (route_request ex, [])"
proof -
  note m = match_route_fixed [OF server_table_fixed]
  show "match_route ''/admin'' (server_table ex) = Inr (route_admin, [])"
    unfolding m [OF server_paths(1)] by (simp add: server_table_def route_prefixes)
  show "match_route ''/raft/request_vote'' (server_table ex) = Inr (route_request_vote, [])"
    unfolding m [OF server_paths(2)] by (simp add: server_table_def route_prefixes)
  show "match_route ''/raft/append_entries'' (server_table ex) = Inr (route_append_entries, [])"
    unfolding m [OF server_paths(3)] by (simp add: server_table_def route_prefixes)
  show "match_route ''/raft/request'' (server_table ex) = Inr (route_request ex, [])"
    unfolding m [OF server_paths(4)] by (simp add: server_table_def route_prefixes)
qed

text \<open>
  C26. The server's routing table sends each of its four paths to the right handler; a request for any
  path whose first part is neither \<open>admin\<close> nor \<open>raft\<close> makes the server follow a null pointer.
\<close>

theorem server_dispatch:
  "\<exists>t. GallocyServer ex = Inr t \<and>
     match_route ''/admin'' t = Inr (route_admin, []) \<and>
     match_route ''/raft/request_vote'' t = Inr (route_request_vote, []) \<and>
     match_route ''/raft/append_entries'' t = Inr (route_append_entries, []) \<and>
     match_route ''/raft/request'' t = Inr (route_request ex, []) \<and>
     (\<forall>path q p ps. split path (CHR ''/'') = q # p # ps \<longrightarrow> p \<notin> {''admin'', ''raft''} \<longrightarrow>
        match_route path t = Inl Segfault)"
proof -
  have "match_route path (server_table ex) = Inl Segfault"
    if "split path (CHR ''/'') = q # p # ps" "p \<notin> {''admin'', ''raft''}" for path q p ps
  proof -
    have "''raft'' \<noteq> p" "''admin'' \<noteq> p"
      using that(2) by auto
    then show ?thesis
      unfolding match_route_fixed [OF server_table_fixed that(1)]
      by (simp add: server_table_def node_at_register node_at_new)
  qed
  then show ?thesis
    using GallocyServer_table server_match by blast
qed

theorem server_dispatch_witness:
  "\<exists>t. GallocyServer (\<lambda>_. []) = Inr t \<and>
     match_route ''/admin'' t = Inr (route_admin, []) \<and>
     match_route ''/raft/request_vote'' t = Inr (route_request_vote, []) \<and>
     match_route ''/raft/append_entries'' t = Inr (route_append_entries, []) \<and>
     match_route ''/raft/request'' t = Inr (route_request (\<lambda>_. []), []) \<and>
     match_route ''/favicon.ico'' t = Inl Segfault"
proof -
  obtain t where t: "GallocyServer (\<lambda>_. []) = Inr t"
    "match_route ''/admin'' t = Inr (route_admin, [])"
    "match_route ''/raft/request_vote'' t = Inr (route_request_vote, [])"
    "match_route ''/raft/append_entries'' t = Inr (route_append_entries, [])"
    "match_route ''/raft/request'' t = Inr (route_request (\<lambda>_. []), [])"
    and other: "\<forall>path q p ps. split path (CHR ''/'') = q # p # ps \<longrightarrow> p \<notin> {''admin'', ''raft''} \<longrightarrow>
        match_route path t = Inl Segfault"
    using server_dispatch [of "\<lambda>_. []"] by blast
  have "split ''/favicon.ico'' (CHR ''/'') = [[], ''favicon.ico'']"
    by simp
  then have "match_route ''/favicon.ico'' t = Inl Segfault"
    using other by fastforce
  then show ?thesis
    using t by blast
qed

section \<open>Remote calls\<close>

lemma get_json_post:
  assumes "json_exact j"
  shows "\<exists>r. get_json ((Request_post m p u (json_dump j) json_headers)\<lparr>req_peer := q\<rparr>) = Inr (j, r)"
  using assms by (simp add: get_json_def Request_post_def json_headers_def empty_request_def)

lemma body_json_response [simp]: "body (json_response t) = t" "status_code (json_response t) = 200"
  by (simp_all add: json_response_def)

lemma route_vote_json:
  "get_json req = Inr (request_vote_json t la ci, req') \<Longrightarrow>
   route_request_vote args req s =
    (let (granted, s') = try_grant_vote (req_peer req) ci t la s
     in Inr (json_response (json_dump (json_object [(''term'', JInt (current_term s')), (''vote_granted'', JBool granted)])), s'))"
  by (simp add: route_request_vote_def json_fields request_vote_json_def get_current_term_def Let_def)

lemma route_vote_run:
  "route_request_vote args
      ((Request_post m p u (json_dump (request_vote_json t la ci)) json_headers)\<lparr>req_peer := q\<rparr>) s =
    (let (granted, s') = try_grant_vote q ci t la s
     in Inr (json_response (json_dump (json_object [(''term'', JInt (current_term s')), (''vote_granted'', JBool granted)])), s'))"
proof -
  let ?r = "(Request_post m p u (json_dump (request_vote_json t la ci)) json_headers)\<lparr>req_peer := q\<rparr>"
  obtain r where "get_json ?r = Inr (request_vote_json t la ci, r)"
    using get_json_post [OF request_jsons_exact(1)] by blast
  then show ?thesis
    by (simp add: route_vote_json)
qed

text \<open>An entry as a client makes it: not committed, and with a command without NUL bytes.\<close>

definition fresh_entry :: "log_entry \<Rightarrow> bool" where
  "fresh_entry e \<longleftrightarrow> \<not> committed e \<and> c_str (command_text (entry_command e)) = command_text (entry_command e)"

lemma decode_encode:
  "\<forall>e \<in> set es. fresh_entry e \<Longrightarrow> decode_entries (map entry_to_json es) = Inr es"
proof (induction es)
  case (Cons e es)
  then show ?case
    by (cases e; cases "entry_command e") (simp add: json_fields entry_to_json_def LogEntry_def fresh_entry_def)
qed simp

lemma route_append_json:
  assumes "\<forall>e \<in> set es. fresh_entry e" and "get_json req = Inr (append_entries_json es ci prev_idx pt t, req')"
  shows "route_append_entries args req s =
    seq (try_replicate_log (req_peer req) es ci prev_idx pt t)
      (\<lambda>success s. Inr (json_response (json_dump (json_object [(''term'', JInt (current_term s)), (''success'', JBool success)])), s)) s"
  using assms(2) decode_encode [OF assms(1)]
  by (simp add: route_append_entries_def json_fields append_entries_json_def get_current_term_def Let_def)

lemma route_append_run:
  assumes "\<forall>e \<in> set es. fresh_entry e"
  shows "route_append_entries args
      ((Request_post m p u (json_dump (append_entries_json es ci prev_idx pt t)) json_headers)\<lparr>req_peer := q\<rparr>) s =
    seq (try_replicate_log q es ci prev_idx pt t)
      (\<lambda>success s. Inr (json_response (json_dump (json_object [(''term'', JInt (current_term s)), (''success'', JBool success)])), s)) s"
proof -
  let ?r = "(Request_post m p u (json_dump (append_entries_json es ci prev_idx pt t)) json_headers)\<lparr>req_peer := q\<rparr>"
  obtain r where "get_json ?r = Inr (append_entries_json es ci prev_idx pt t, r)"
    using get_json_post [OF request_jsons_exact(2)] by blast
  then show ?thesis
    using route_append_json [OF assms] by simp
qed

end
