(* ===== verification/Cluster.thy ===== *)
theory Cluster
  imports ServerProps
begin

text \<open>
  Several nodes: what happens when the timer of one of them expires while the others answer its
  requests. A request reaches the node at its address unless it is lost; the server there sees the
  sender's address (and always port 8080, see \<open>Peer_sockaddr\<close>); a node whose handler crashes is
  gone; a request without an answer gives a response that is not 200.
\<close>

type_synonym cluster = "u64 \<rightharpoonup> gallocy_state"

definition serve :: "peer \<Rightarrow> request \<Rightarrow> (gallocy_state, response) op" where
  "serve from r = (\<lambda>s.
     rbind (GallocyServer (\<lambda>_. []))
       (\<lambda>table. rbind (match_route (uri r) table)
         (\<lambda>(h, args). h args (r\<lparr>req_peer := from\<rparr>) s)))"

definition answer :: "request \<Rightarrow> response \<Rightarrow> arrival" where
  "answer r rsp =
     (response_of_rest r \<lparr>rest_code = ucast (status_code rsp), rest_body = body rsp @ crlf @ crlf, rest_headers = rsp_headers rsp\<rparr>, True)"

definition no_answer :: "request \<Rightarrow> arrival" where
  "no_answer r = (response_of_rest r \<lparr>rest_code = - 1, rest_body = ''Failed to query.'', rest_headers = []\<rparr>, True)"

text \<open>The requests of one round, each with whether it gets through.\<close>

fun deliver :: "peer \<Rightarrow> (request \<times> bool) list \<Rightarrow> cluster \<Rightarrow> arrival list \<times> cluster" where
  "deliver from [] c = ([], c)"
| "deliver from ((r, up) # rs) c =
     (let a = get_canonical_id (req_peer r);
          (arrival, c') =
            (case (if up then c a else None) of
               None \<Rightarrow> (no_answer r, c)
             | Some s \<Rightarrow>
                 (case serve from r s of
                    Inl e \<Rightarrow> (no_answer r, c(a := None))
                  | Inr (rsp, s') \<Rightarrow> (answer r rsp, c(a \<mapsto> s'))));
          (arrivals, c'') = deliver from rs c'
      in (arrival # arrivals, c''))"

text \<open>The state in which a node asks for votes, and its heartbeat requests if it wins.\<close>

definition candidate_state :: "gallocy_state \<Rightarrow> gallocy_state" where
  "candidate_state s =
     snd (increment_current_term (if get_state s = FOLLOWER then set_state CANDIDATE s else s))"

definition beat_requests :: "gallocy_state \<Rightarrow> request list" where
  "beat_requests s = (case append_requests [] s of Inl e \<Rightarrow> [] | Inr reqs \<Rightarrow> reqs)"

definition after_votes :: "arrival list \<Rightarrow> gallocy_state \<Rightarrow> request list" where
  "after_votes arrivals s =
     (case raft_request request_vote_callback arrivals (candidate_state s) of
        Inr (True, s') \<Rightarrow> beat_requests (reset_timer (set_state LEADER s'))
      | _ \<Rightarrow> [])"

text \<open>
  The turn of the node at \<open>a\<close>; \<open>ups\<close> and \<open>ups'\<close> say which requests of the two rounds get through.
\<close>

definition turn :: "u64 \<Rightarrow> bool list \<Rightarrow> bool list \<Rightarrow> cluster \<Rightarrow> cluster" where
  "turn a ups ups' c =
     (case c a of
        None \<Rightarrow> c
      | Some s \<Rightarrow>
          let me = Peer a 8080;
              (votes, c1) = (if get_state s = LEADER then ([], c)
                             else deliver me (zip (vote_requests (candidate_state s)) ups) c);
              breqs = (if get_state s = LEADER then beat_requests s else after_votes votes s);
              (beats, c2) = deliver me (zip breqs ups') c1
          in (case work_turn (\<lambda>_. votes) (\<lambda>_. beats) s of
                Inl e \<Rightarrow> c2(a := None)
              | Inr (_, s') \<Rightarrow> c2(a \<mapsto> s')))"

text \<open>
  A client's request to the node at \<open>a\<close>, which appends an entry to its log and sends it to the others.
\<close>

definition entry_requests :: "gallocy_state \<Rightarrow> request list" where
  "entry_requests s =
     (case append_requests [LogEntry (Command ''hello world'') (get_current_term s)] s of
        Inl e \<Rightarrow> [] | Inr reqs \<Rightarrow> reqs)"

definition client_request :: "u64 \<Rightarrow> bool list \<Rightarrow> cluster \<Rightarrow> cluster" where
  "client_request a ups c =
     (case c a of
        None \<Rightarrow> c
      | Some s \<Rightarrow>
          let (arrivals, c1) = deliver (Peer a 8080) (zip (entry_requests s) ups) c
          in (case route_request (\<lambda>_. arrivals) [] (Request_get ''GET'' no_peer ''/raft/request'') s of
                Inl e \<Rightarrow> c1(a := None)
              | Inr (_, s') \<Rightarrow> c1(a \<mapsto> s')))"

text \<open>
  What a cluster can reach. The configuration of a node names the other nodes and not the node
  itself; a round of requests is over before the next node moves.
\<close>

definition others_only :: "u64 \<Rightarrow> cluster \<Rightarrow> bool" where
  "others_only a c \<longleftrightarrow>
     (case c a of None \<Rightarrow> True | Some s \<Rightarrow> a \<notin> get_canonical_id ` set (peer_list s))"

inductive cluster_reach :: "cluster \<Rightarrow> cluster \<Rightarrow> bool" for c0 :: cluster where
  start: "cluster_reach c0 c0"
| expired: "cluster_reach c0 c \<Longrightarrow> others_only a c \<Longrightarrow> cluster_reach c0 (turn a ups ups' c)"
| asked: "cluster_reach c0 c \<Longrightarrow> others_only a c \<Longrightarrow> cluster_reach c0 (client_request a ups c)"

section \<open>Serving a vote\<close>

lemma serve_vote:
  "serve from (Request_post ''POST'' p ''/raft/request_vote'' (json_dump (request_vote_json t la ci)) json_headers) s =
    (let (granted, s') = try_grant_vote from ci t la s
     in Inr (json_response (json_dump (json_object [(''term'', JInt (current_term s')), (''vote_granted'', JBool granted)])), s'))"
proof -
  have u: "uri (Request_post ''POST'' p ''/raft/request_vote'' (json_dump (request_vote_json t la ci)) json_headers)
      = ''/raft/request_vote''"
    by (simp add: Request_post_def)
  show ?thesis
    unfolding serve_def GallocyServer_table rbind_simps u server_match(2)
    by (simp add: route_vote_run)
qed

lemma vote_answer:
  "request_vote_callback
      (fst (answer r (json_response (json_dump (json_object [(''term'', JInt t), (''vote_granted'', JBool g)]))))) s =
    Inr (g, if current_term s < t then set_state FOLLOWER (set_current_term t s) else s)"
  by (simp add: request_vote_callback_def answer_def response_of_rest_def json_fields get_current_term_def)

lemma vote_no_answer: "request_vote_callback (fst (no_answer r)) s = Inr (False, s)"
  by (simp add: request_vote_callback_def no_answer_def response_of_rest_def)


section \<open>Two leaders\<close>

definition three_nodes :: cluster where
  "three_nodes =
     [1 \<mapsto> GallocyState True False [Peer 2 8080, Peer 3 8080],
      2 \<mapsto> GallocyState True False [Peer 1 8080, Peer 3 8080],
      3 \<mapsto> GallocyState True False [Peer 1 8080, Peer 2 8080]]"

text \<open>One vote in a round of two, for a node that has not heard of a later term.\<close>

definition yes :: "u64 \<Rightarrow> response" where
  "yes t = json_response (json_dump (json_object [(''term'', JInt t), (''vote_granted'', JBool True)]))"

definition no :: "u64 \<Rightarrow> response" where
  "no t = json_response (json_dump (json_object [(''term'', JInt t), (''vote_granted'', JBool False)]))"

lemma no_beats:
  "deliver from (zip reqs (replicate n False)) c =
     (map no_answer (take n reqs), c)"
  by (induction n arbitrary: reqs) (case_tac reqs; simp)+

lemma beat_no_answer: "append_entries_callback (fst (no_answer r)) s = Inr (False, s)"
  by (simp add: append_entries_callback_def no_answer_def response_of_rest_def)

lemma multirequest_no_answer:
  "multirequest append_entries_callback (map no_answer rs) n s = Inr (n, s)"
  by (induction rs) (simp_all add: no_answer_def append_entries_callback_def response_of_rest_def)


lemma heartbeat_unheard:
  assumes "log s = []" and "2 \<le> length (peer_list s)"
  shows "send_heartbeat (\<lambda>_. map no_answer rs) s = Inr (False, s)"
proof -
  have m: "multirequest append_entries_callback (map no_answer rs) 0 s = Inr (0, s)"
    by (rule multirequest_no_answer)
  have "\<not> length (peer_list s) div 2 \<le> 0"
    using assms(2) by simp
  then have "raft_request append_entries_callback (map no_answer rs) s = Inr (False, s)"
    using m by (simp add: raft_request_def Let_def)
  then show ?thesis
    using assms(1)
    by (simp add: send_heartbeat_def send_append_entries_def append_requests_def get_previous_log_index_def
        get_previous_log_term_def append_to_log_def leader_commit_def Let_def seq_def)
qed

lemma won_election:
  assumes "get_state s \<noteq> LEADER"
    and "raft_request request_vote_callback votes (candidate_state s) = Inr (True, s1)"
    and "log s1 = []" and "2 \<le> length (peer_list s1)"
  shows "work_turn (\<lambda>_. votes) (\<lambda>_. map no_answer rs) s =
    Inr ((), set_state LEADER (reset_timer (set_state LEADER s1)))"
proof -
  let ?s = "if get_state s = FOLLOWER then set_state CANDIDATE s else s"
  have "get_state ?s = CANDIDATE"
    using assms(1) by (cases "state s") (simp_all add: get_state_def)
  moreover have "send_request_vote (\<lambda>_. votes) ?s = Inr (True, s1)"
    using assms(2) by (simp add: send_request_vote_def candidate_state_def increment_current_term_def)
  moreover have "send_heartbeat (\<lambda>_. map no_answer rs) (reset_timer (set_state LEADER s1)) =
      Inr (False, reset_timer (set_state LEADER s1))"
    using assms(3,4) by (intro heartbeat_unheard) simp_all
  ultimately show ?thesis
    unfolding work_turn_def Let_def
    by (simp only: raft_state.case) (simp add: state_candidate_def state_leader_def seq_def)
qed

text \<open>The two rounds of votes in a cluster of three.\<close>

lemma one_vote:
  assumes "length (peer_list s) = 2" and "current_term s = t"
  shows "raft_request request_vote_callback [answer r (yes t), no_answer r'] s = Inr (True, s)"
    and "raft_request request_vote_callback [answer r (yes t), answer r' (no t)] s = Inr (True, s)"
proof -
  have y: "request_vote_callback (fst (answer r (yes t))) s = Inr (True, s)"
    and n: "request_vote_callback (fst (answer r' (no t))) s = Inr (False, s)"
    using vote_answer assms(2) by (simp_all add: yes_def no_def)
  note nn = vote_no_answer [of r' s]
  show "raft_request request_vote_callback [answer r (yes t), no_answer r'] s = Inr (True, s)"
    "raft_request request_vote_callback [answer r (yes t), answer r' (no t)] s = Inr (True, s)"
    using y n nn assms(1)
    by (simp_all add: raft_request_def Let_def answer_def no_answer_def seq_def)
qed


text \<open>A turn in which the votes are as given and no heartbeat gets through.\<close>

lemma turn_won:
  assumes "c a = Some s" and "get_state s \<noteq> LEADER"
    and "deliver (Peer a 8080) (zip (vote_requests (candidate_state s)) ups) c = (votes, c1)"
    and "raft_request request_vote_callback votes (candidate_state s) = Inr (True, s1)"
    and "log s1 = []" and "2 \<le> length (peer_list s1)"
  shows "turn a ups [False, False] c = c1(a \<mapsto> set_state LEADER (reset_timer (set_state LEADER s1)))"
proof -
  have "[False, False] = replicate 2 False"
    by (simp add: numeral_2_eq_2)
  then have "\<exists>rs. deliver (Peer a 8080) (zip (after_votes votes s) [False, False]) c1 = (map no_answer rs, c1)"
    using no_beats by metis
  then obtain rs where "deliver (Peer a 8080) (zip (after_votes votes s) [False, False]) c1 =
      (map no_answer rs, c1)"
    by blast
  then show ?thesis
    using assms(1-3) won_election [OF assms(2,4-6), of rs] by (simp add: turn_def Let_def)
qed

definition first_leader :: gallocy_state where
  "first_leader =
     (let s = candidate_state (GallocyState True False [Peer 2 8080, Peer 3 8080])
      in set_state LEADER (reset_timer (set_state LEADER s)))"

definition second_leader :: gallocy_state where
  "second_leader =
     (let s = candidate_state (GallocyState True False [Peer 1 8080, Peer 2 8080])
      in set_state LEADER (reset_timer (set_state LEADER s)))"

definition voter :: "peer list \<Rightarrow> gallocy_state" where
  "voter ps =
     reset_timer ((GallocyState True False ps)\<lparr>current_term := 1, voted_for := Peer 1 8080\<rparr>)"

lemma candidate_start:
  "current_term (candidate_state (GallocyState True False ps)) = 1"
  "last_applied (candidate_state (GallocyState True False ps)) = 0"
  "commit_index (candidate_state (GallocyState True False ps)) = 0"
  "log (candidate_state (GallocyState True False ps)) = []"
  "peer_list (candidate_state (GallocyState True False ps)) = ps"
  by (simp_all add: candidate_state_def increment_current_term_def get_state_def)
    (simp_all add: GallocyState_def)

lemma first_turn:
  "turn 1 [True, False] [False, False] three_nodes =
    three_nodes(1 \<mapsto> first_leader, 2 \<mapsto> voter [Peer 1 8080, Peer 3 8080])"
proof -
  let ?s = "GallocyState True False [Peer 2 8080, Peer 3 8080]"
  let ?v = "GallocyState True False [Peer 1 8080, Peer 3 8080]"
  let ?req = "\<lambda>p. Request_post ''POST'' p ''/raft/request_vote'' (json_dump (request_vote_json 1 0 0)) json_headers"
  have reqs: "vote_requests (candidate_state ?s) = [?req (Peer 2 8080), ?req (Peer 3 8080)]"
    by (simp add: vote_requests_def candidate_start raft_getters Let_def)
  have g: "try_grant_vote (Peer 1 8080) 0 1 0 ?v = (True, voter [Peer 1 8080, Peer 3 8080])"
    by (simp add: vote_granted voter_def) (simp add: GallocyState_def)
  have sv: "serve (Peer 1 8080) (?req p) ?v = Inr (yes 1, voter [Peer 1 8080, Peer 3 8080])" for p
    using serve_vote [of "Peer 1 8080" p 1 0 0 ?v] g by (simp add: yes_def voter_def)
  have peer: "req_peer (?req p) = p" for p
    by (simp add: Request_post_def)
  have del: "deliver (Peer 1 8080) (zip (vote_requests (candidate_state ?s)) [True, False]) three_nodes =
      ([answer (?req (Peer 2 8080)) (yes 1), no_answer (?req (Peer 3 8080))],
       three_nodes(2 \<mapsto> voter [Peer 1 8080, Peer 3 8080]))"
    unfolding reqs using sv by (simp add: peer get_canonical_id_def Let_def) (simp add: three_nodes_def)
  have "turn 1 [True, False] [False, False] three_nodes =
      (three_nodes(2 \<mapsto> voter [Peer 1 8080, Peer 3 8080]))(1 \<mapsto> first_leader)"
    unfolding first_leader_def Let_def
    by (rule turn_won [OF _ _ del one_vote(1)])
      (simp_all add: candidate_start, simp_all add: three_nodes_def get_state_def GallocyState_def)
  then show ?thesis
    by (simp add: fun_upd_twist)
qed

lemma second_turn:
  defines "c \<equiv> three_nodes(1 \<mapsto> first_leader, 2 \<mapsto> voter [Peer 1 8080, Peer 3 8080])"
  shows "\<exists>v. turn 3 [True, True] [False, False] c = c(1 \<mapsto> v, 3 \<mapsto> second_leader) \<and>
    state v = LEADER \<and> current_term v = 1"
proof -
  let ?s = "GallocyState True False [Peer 1 8080, Peer 2 8080]"
  let ?w = "voter [Peer 1 8080, Peer 3 8080]"
  let ?req = "\<lambda>p. Request_post ''POST'' p ''/raft/request_vote'' (json_dump (request_vote_json 1 0 0)) json_headers"
  have reqs: "vote_requests (candidate_state ?s) = [?req (Peer 1 8080), ?req (Peer 2 8080)]"
    by (simp add: vote_requests_def candidate_start raft_getters Let_def)
  define v where "v = snd (try_grant_vote (Peer 3 8080) 0 1 0 first_leader)"
  have first: "current_term first_leader = 1" "voted_for first_leader = no_peer" "last_applied first_leader = 0"
    "commit_index first_leader = 0" "state first_leader = LEADER"
    by (simp_all add: first_leader_def candidate_start candidate_state_def increment_current_term_def get_state_def)
      (simp_all add: GallocyState_def)
  have g1: "try_grant_vote (Peer 3 8080) 0 1 0 first_leader = (True, v)"
    unfolding v_def by (simp add: vote_granted first)
  have v: "state v = LEADER" "current_term v = 1"
    unfolding v_def by (simp_all add: vote_granted first)
  have g2: "try_grant_vote (Peer 3 8080) 0 1 0 ?w = (False, ?w)"
    by (simp add: vote_granted voter_def no_peer_def)
  have sv: "serve (Peer 3 8080) (?req p) first_leader = Inr (yes 1, v)"
    "serve (Peer 3 8080) (?req p) ?w = Inr (no 1, ?w)" for p
    using serve_vote [of "Peer 3 8080" p 1 0 0 first_leader] g1 v
      serve_vote [of "Peer 3 8080" p 1 0 0 ?w] g2
    by (simp_all add: yes_def no_def voter_def)
  have peer: "req_peer (?req p) = p" for p
    by (simp add: Request_post_def)
  have del: "deliver (Peer 3 8080) (zip (vote_requests (candidate_state ?s)) [True, True]) c =
      ([answer (?req (Peer 1 8080)) (yes 1), answer (?req (Peer 2 8080)) (no 1)], c(1 \<mapsto> v))"
    unfolding reqs c_def using sv by (simp add: peer get_canonical_id_def Let_def fun_upd_twist)
  have "turn 3 [True, True] [False, False] c = (c(1 \<mapsto> v))(3 \<mapsto> second_leader)"
    unfolding second_leader_def Let_def
    by (rule turn_won [OF _ _ del one_vote(2)])
      (simp_all add: candidate_start, simp_all add: c_def three_nodes_def get_state_def GallocyState_def)
  then show ?thesis
    using v by auto
qed

text \<open>
  C11. Two leaders in one term. Three fresh nodes that know each other reach, by two expired timers
  and some lost messages, a state in which two of them are leaders of the same term: a majority is
  half of the other nodes, a candidate does not vote for itself, and a leader still grants votes.
\<close>

theorem two_leaders_one_term:
  "\<exists>c s s'. cluster_reach three_nodes c \<and> c 1 = Some s \<and> c 3 = Some s' \<and>
    state s = LEADER \<and> state s' = LEADER \<and> current_term s = 1 \<and> current_term s' = 1"
proof -
  let ?c = "three_nodes(1 \<mapsto> first_leader, 2 \<mapsto> voter [Peer 1 8080, Peer 3 8080])"
  obtain v where v: "turn 3 [True, True] [False, False] ?c = ?c(1 \<mapsto> v, 3 \<mapsto> second_leader)"
    "state v = LEADER" "current_term v = 1"
    using second_turn by blast
  have o1: "others_only 1 three_nodes" and o3: "others_only 3 ?c"
    by (simp_all add: others_only_def three_nodes_def GallocyState_def get_canonical_id_def)
  have "cluster_reach three_nodes ?c"
    using expired [OF start] first_turn o1 by metis
  then have "cluster_reach three_nodes (?c(1 \<mapsto> v, 3 \<mapsto> second_leader))"
    using expired o3 v(1) by metis
  moreover have "state second_leader = LEADER" "current_term second_leader = 1"
    by (simp_all add: second_leader_def candidate_start)
  ultimately show ?thesis
    using v(2,3) by (intro exI conjI) (assumption | simp)+
qed

end
