(* ===== verification/RaftOrder.thy ===== *)
theory RaftOrder
  imports ServerProps "HOL-Library.Sublist"
begin

text \<open>
  How the state of a node may move. The locale \<open>step_order\<close> states what an order on states must
  satisfy so that every operation built from steps that respect it respects it as a whole; it is
  interpreted on the growth of the log and of the applied index, and on the order of the terms.
\<close>

locale step_order =
  fixes R :: "'s \<Rightarrow> 's \<Rightarrow> bool"
  assumes refl: "R s s"
    and trans: "R s s' \<Longrightarrow> R s' s'' \<Longrightarrow> R s s''"
begin

definition keeps :: "('s, 'a) op \<Rightarrow> bool" where
  "keeps m \<longleftrightarrow> (\<forall>s x s'. m s = Inr (x, s') \<longrightarrow> R s s')"

lemma keepsD: "keeps m \<Longrightarrow> m s = Inr (x, s') \<Longrightarrow> R s s'"
  by (simp add: keeps_def)

lemma keeps_ok: "keeps (ok x)"
  by (simp add: keeps_def refl)

lemma keeps_modify: "(\<And>s. R s (f s)) \<Longrightarrow> keeps (modify f)"
  by (simp add: keeps_def)

lemma keeps_seq: "keeps m \<Longrightarrow> (\<And>x. keeps (f x)) \<Longrightarrow> keeps (seq m f)"
  unfolding keeps_def seq_eq_Inr using trans by blast

lemma keeps_if: "keeps m \<Longrightarrow> keeps m' \<Longrightarrow> keeps (if b then m else m')"
  by simp

lemma keeps_multirequest:
  assumes "\<And>rsp. keeps (callback rsp)"
  shows "keeps (multirequest callback arrivals n)"
proof -
  have "multirequest callback arrivals n s = Inr (k, s') \<Longrightarrow> R s s'" for s k s'
  proof (induction arrivals arbitrary: n s)
    case (Cons a arrivals)
    obtain rsp ready where a: "a = (rsp, ready)"
      by (cases a)
    show ?case
    proof (cases "callback rsp s")
      case (Inl e)
      then show ?thesis
        using Cons a by (cases e) (auto split: if_splits)
    next
      case (Inr r)
      obtain b s1 where r: "r = (b, s1)"
        by (cases r)
      have "R s s1"
        using keepsD [OF assms] Inr r by blast
      moreover have "R s1 s'"
        using Cons a Inr r by auto
      ultimately show ?thesis
        by (rule trans)
    qed
  qed (simp add: refl)
  then show ?thesis
    by (simp add: keeps_def)
qed

end

section \<open>Growth\<close>

text \<open>The log is only extended, no entry is applied twice or taken back, and the peers stay.\<close>

definition grows :: "gallocy_state \<Rightarrow> gallocy_state \<Rightarrow> bool" where
  "grows s s' \<longleftrightarrow> prefix (log s) (log s') \<and> last_applied s \<le> last_applied s' \<and> peer_list s' = peer_list s"

interpretation growth: step_order grows
  by unfold_locales (auto simp: grows_def intro: prefix_order.trans)

definition term_le :: "gallocy_state \<Rightarrow> gallocy_state \<Rightarrow> bool" where
  "term_le s s' \<longleftrightarrow> current_term s \<le> current_term s'"

interpretation terms: step_order term_le
  by unfold_locales (auto simp: term_le_def)

lemma index_fields_log [simp]:
  "log (snd (increment_next_index p s)) = log s"
  "log (snd (decrement_next_index p s)) = log s"
  "log (snd (increment_match_index p s)) = log s"
  "last_applied (snd (increment_next_index p s)) = last_applied s"
  "last_applied (snd (decrement_next_index p s)) = last_applied s"
  "last_applied (snd (increment_match_index p s)) = last_applied s"
  by (simp_all add: increment_next_index_def decrement_next_index_def increment_match_index_def
      set_next_index_def set_match_index_def Let_def)

lemma inc_gt: "a \<noteq> - 1 \<Longrightarrow> a < a + (1 :: u64)"
  by (simp add: inc_less_eq_self_iff_eq flip: not_le)

lemma inc_ge: "a < c \<Longrightarrow> a \<le> a + (1 :: u64)"
  by (metis inc_gt less_imp_le not_less word_order.extremum)

lemma applied_le: "a \<le> (if a < c then a + 1 else (a :: u64))"
  by (simp add: inc_ge)

lemma grows_fields:
  "log s' = log s \<Longrightarrow> last_applied s' = last_applied s \<Longrightarrow> peer_list s' = peer_list s \<Longrightarrow> grows s s'"
  by (simp add: grows_def)

lemma grows_apply: "grows s (snd (try_apply s))"
  unfolding grows_def using applied_le by simp

lemma vote_grows:
  "try_grant_vote cand ci t la s = (g, s') \<Longrightarrow> grows s s' \<and> term_le s s'"
  by (auto simp: vote_granted grows_def term_le_def split: if_splits)

lemma replicate_grows:
  assumes "try_replicate_log leader es lc prev_idx pt lt s = Inr (b, s')"
  shows "grows s s'" and "term_le s s'"
proof -
  consider "s' = s" | l where "replicate_entries es prev_idx pt (log s) False = Inr (b, l)" "log s' = l"
      "current_term s \<le> lt" "current_term s' = lt" "peer_list s' = peer_list s"
      "last_applied s' = (if last_applied s < commit_index s' then last_applied s + 1 else last_applied s)"
    using try_replicate_cases [OF assms] by auto
  then have "grows s s' \<and> term_le s s'"
  proof cases
    case 2
    have "prefix (log s) (log s')"
      using replicate_log_extends [OF 2(1)] 2(2) by auto
    then show ?thesis
      using 2(3-6) applied_le [of "last_applied s" "commit_index s'"] by (simp add: grows_def term_le_def)
  qed (simp add: growth.refl terms.refl)
  then show "grows s s'" "term_le s s'" by auto
qed

section \<open>Handlers\<close>

lemma handler_keeps:
  "growth.keeps (route_admin args r)" "terms.keeps (route_admin args r)"
  "growth.keeps (route_request_vote args r)" "terms.keeps (route_request_vote args r)"
  "growth.keeps (route_append_entries args r)" "terms.keeps (route_append_entries args r)"
proof -
  show "growth.keeps (route_admin args r)" "terms.keeps (route_admin args r)"
    by (simp_all add: growth.keeps_def terms.keeps_def route_admin_def growth.refl terms.refl)
  show "growth.keeps (route_request_vote args r)" "terms.keeps (route_request_vote args r)"
    by (auto simp: growth.keeps_def terms.keeps_def route_request_vote_def rbind_eq_Inr Let_def
        split: prod.splits dest: vote_grows) (metis vote_grows prod.exhaust)+
  show "growth.keeps (route_append_entries args r)" "terms.keeps (route_append_entries args r)"
    by (auto simp: growth.keeps_def terms.keeps_def route_append_entries_def rbind_eq_Inr Let_def
        seq_eq_Inr dest: replicate_grows)
qed

section \<open>The client side\<close>

lemma vote_callback_keeps:
  "growth.keeps (request_vote_callback rsp)" "terms.keeps (request_vote_callback rsp)"
  by (auto simp: growth.keeps_def terms.keeps_def request_vote_callback_def rbind_eq_Inr Let_def
      get_current_term_def grows_fields term_le_def growth.refl split: if_splits)

lemma append_callback_cases:
  assumes "append_entries_callback rsp s = Inr (b, s')"
  shows "s' = s \<or> (\<exists>t. current_term s < t \<and> s' = set_current_term t (set_state FOLLOWER s)) \<or>
    s' = snd (increment_match_index (rsp_peer rsp) (snd (increment_next_index (rsp_peer rsp) s))) \<or>
    s' = snd (decrement_next_index (rsp_peer rsp) s)"
proof (cases "status_code rsp = 200")
  case True
  then obtain j b0 t where
    "(if t > current_term s then Inr (False, set_current_term t (set_state FOLLOWER s))
      else if b0 then Inr (True, snd (increment_match_index (rsp_peer rsp) (snd (increment_next_index (rsp_peer rsp) s))))
      else Inr (False, snd (decrement_next_index (rsp_peer rsp) s))) = (Inr (b, s') :: (bool \<times> gallocy_state) result)"
    using assms unfolding append_entries_callback_def get_current_term_def
    by (simp only: if_P rbind_eq_Inr) blast
  then show ?thesis
    by (cases "t > current_term s"; cases b0) auto
qed (use assms in \<open>simp add: append_entries_callback_def\<close>)

lemma append_callback_keeps:
  "growth.keeps (append_entries_callback rsp)" "terms.keeps (append_entries_callback rsp)"
  unfolding growth.keeps_def terms.keeps_def
  by (auto dest!: append_callback_cases simp: grows_fields term_le_def growth.refl)

lemma raft_request_keeps:
  "(\<And>rsp. growth.keeps (callback rsp)) \<Longrightarrow> growth.keeps (raft_request callback arrivals)"
  "(\<And>rsp. terms.keeps (callback rsp)) \<Longrightarrow> terms.keeps (raft_request callback arrivals)"
  using growth.keeps_multirequest [of callback arrivals 0] terms.keeps_multirequest [of callback arrivals 0]
  by (auto simp: growth.keeps_def terms.keeps_def raft_request_def seq_eq_Inr Let_def)

lemma append_to_log_eq: "append_to_log es s = s\<lparr>log := log s @ es\<rparr>"
proof -
  have "foldl (\<lambda>l e. snd (append_entry e l)) l es = l @ es" for l
    by (induction es arbitrary: l) (simp_all add: append_entry_def)
  then show ?thesis
    by (simp add: append_to_log_def)
qed

lemma leader_commit_keeps: "grows s (leader_commit b s)" "term_le s (leader_commit b s)"
  by (auto simp: leader_commit_def grows_def term_le_def Let_def intro: inc_ge)

lemma send_append_keeps:
  "growth.keeps (send_append_entries exchange es)" "terms.keeps (send_append_entries exchange es)"
proof -
  have "grows s s' \<and> term_le s s'" if sent: "send_append_entries exchange es s = Inr (b, s')" for s s' b
  proof -
    obtain arrivals s1 s2 where "s1 = s\<lparr>log := log s @ es\<rparr>"
      and r: "raft_request append_entries_callback arrivals s1 = Inr (b, s2)"
      and s': "s' = leader_commit b s2"
      using sent by (auto simp: send_append_entries_def rbind_eq_Inr seq_eq_Inr append_to_log_eq)
    then have "grows s s1" "term_le s s1"
      by (simp_all add: grows_def term_le_def)
    moreover have "grows s1 s2" "term_le s1 s2"
      using raft_request_keeps append_callback_keeps r growth.keepsD terms.keepsD by metis+
    ultimately show ?thesis
      unfolding s' using leader_commit_keeps growth.trans terms.trans by metis
  qed
  then show "growth.keeps (send_append_entries exchange es)" "terms.keeps (send_append_entries exchange es)"
    by (auto simp: growth.keeps_def terms.keeps_def)
qed

lemma state_leader_keeps:
  "growth.keeps (state_leader beats)" "terms.keeps (state_leader beats)"
  unfolding state_leader_def send_heartbeat_def
  by (intro growth.keeps_seq terms.keeps_seq send_append_keeps growth.keeps_ok terms.keeps_ok)+

lemma route_request_keeps:
  "growth.keeps (route_request exchange args r)" "terms.keeps (route_request exchange args r)"
  using send_append_keeps
  by (auto simp: growth.keeps_def terms.keeps_def route_request_def Let_def seq_eq_Inr)

text \<open>The increment of the term is the one step that can lower it, at the largest term.\<close>

lemma vote_round_keeps:
  assumes "send_request_vote votes s = Inr (b, s')"
  shows "grows s s'" and "current_term s \<noteq> - 1 \<Longrightarrow> current_term s < current_term s'"
proof -
  let ?s = "s\<lparr>current_term := current_term s + 1\<rparr>"
  have r: "raft_request request_vote_callback (votes (vote_requests ?s)) ?s = Inr (b, s')"
    using assms by (simp add: send_request_vote_def increment_current_term_def)
  have "grows s ?s"
    by (simp add: grows_def)
  moreover have "grows ?s s'" "term_le ?s s'"
    using r raft_request_keeps vote_callback_keeps growth.keepsD terms.keepsD by metis+
  ultimately show "grows s s'" and "current_term s \<noteq> - 1 \<Longrightarrow> current_term s < current_term s'"
    by (auto simp: term_le_def intro: growth.trans less_le_trans [OF inc_gt])
qed

end
