(* ===== verification/ClusterProps.thy ===== *)
theory ClusterProps
  imports Cluster RaftOrder
begin

text \<open>
  What holds in every cluster, whatever is lost: how the state of each node moves, and what a remote
  call does at both ends.
\<close>

section \<open>Turns\<close>

lemma candidate_keeps:
  assumes "state_candidate votes beats s = Inr (r, s')"
  shows "grows s s'" and "current_term s \<noteq> - 1 \<Longrightarrow> current_term s < current_term s'"
proof -
  obtain won s1 where v: "send_request_vote votes s = Inr (won, s1)"
    and rest: "(if won then seq (modify (set_state LEADER))
        (\<lambda>_. seq (modify reset_timer) (\<lambda>_. state_leader beats))
      else seq (modify reset_timer) (\<lambda>_. seq (modify (set_voted_for no_peer)) (\<lambda>_. ok CANDIDATE))) s1 = Inr (r, s')"
    using assms by (auto simp: state_candidate_def seq_eq_Inr)
  have "growth.keeps (if won then seq (modify (set_state LEADER))
        (\<lambda>_. seq (modify reset_timer) (\<lambda>_. state_leader beats))
      else seq (modify reset_timer) (\<lambda>_. seq (modify (set_voted_for no_peer)) (\<lambda>_. ok CANDIDATE)))"
    by (intro growth.keeps_if growth.keeps_seq growth.keeps_modify growth.keeps_ok state_leader_keeps
        grows_fields) simp_all
  then have g: "grows s1 s'"
    using rest by (rule growth.keepsD)
  have "terms.keeps (if won then seq (modify (set_state LEADER))
        (\<lambda>_. seq (modify reset_timer) (\<lambda>_. state_leader beats))
      else seq (modify reset_timer) (\<lambda>_. seq (modify (set_voted_for no_peer)) (\<lambda>_. ok CANDIDATE)))"
    by (intro terms.keeps_if terms.keeps_seq terms.keeps_modify terms.keeps_ok state_leader_keeps)
      (simp_all add: term_le_def)
  then have t: "term_le s1 s'"
    using rest by (rule terms.keepsD)
  show "grows s s'"
    using vote_round_keeps(1) [OF v] g by (rule growth.trans)
  show "current_term s < current_term s'" if "current_term s \<noteq> - 1"
    using vote_round_keeps(2) [OF v that] t by (simp add: term_le_def)
qed

lemma work_turn_cases:
  assumes "work_turn votes beats s = Inr (u, s')"
  shows "\<exists>r s1. s' = set_state r s1 \<and>
    (if state s = LEADER then state_leader beats s = Inr (r, s1)
     else state_candidate votes beats (if state s = FOLLOWER then set_state CANDIDATE s else s) = Inr (r, s1))"
  using assms by (cases "state s") (auto simp: work_turn_def get_state_def Let_def seq_eq_Inr)

lemma work_turn_keeps:
  assumes "work_turn votes beats s = Inr (u, s')"
  shows "grows s s'"
    and "current_term s \<noteq> - 1 \<Longrightarrow> current_term s \<le> current_term s'"
    and "current_term s \<noteq> - 1 \<Longrightarrow> state s \<noteq> LEADER \<Longrightarrow> current_term s < current_term s'"
proof -
  let ?s = "if state s = FOLLOWER then set_state CANDIDATE s else s"
  obtain r s1 where s': "s' = set_state r s1" and run:
    "if state s = LEADER then state_leader beats s = Inr (r, s1) else state_candidate votes beats ?s = Inr (r, s1)"
    using work_turn_cases [OF assms] by blast
  have s: "grows s ?s" "current_term ?s = current_term s"
    by (simp_all add: grows_def)
  have "grows s s1 \<and> (current_term s \<noteq> - 1 \<longrightarrow> current_term s \<le> current_term s1 \<and>
      (state s \<noteq> LEADER \<longrightarrow> current_term s < current_term s1))"
  proof (cases "state s = LEADER")
    case True
    then show ?thesis
      using run growth.keepsD [OF state_leader_keeps(1)] terms.keepsD [OF state_leader_keeps(2)]
      by (simp add: term_le_def)
  next
    case False
    then have "state_candidate votes beats ?s = Inr (r, s1)"
      using run by simp
    from candidate_keeps [OF this] show ?thesis
      using s growth.trans [of s ?s s1] by (auto simp: less_imp_le)
  qed
  then show "grows s s'"
    and "current_term s \<noteq> - 1 \<Longrightarrow> current_term s \<le> current_term s'"
    and "current_term s \<noteq> - 1 \<Longrightarrow> state s \<noteq> LEADER \<Longrightarrow> current_term s < current_term s'"
    by (auto simp: s' grows_def)
qed

text \<open>
  C13. A turn of a node that is not the leader ends in a higher term, and a turn of a leader never in
  a lower one, as long as the term is not the largest number; in both cases no log entry is lost and
  none is taken back after it was applied.
\<close>

theorem turn_raises_term:
  assumes "work_turn votes beats s = Inr (u, s')" and "current_term s \<noteq> - 1"
  shows "prefix (log s) (log s') \<and> last_applied s \<le> last_applied s' \<and> current_term s \<le> current_term s' \<and>
    (state s \<noteq> LEADER \<longrightarrow> current_term s < current_term s')"
  using work_turn_keeps [OF assms(1)] assms(2) by (simp add: grows_def)

theorem turn_raises_term_witness:
  "\<exists>s'. work_turn (\<lambda>_. []) (\<lambda>_. []) (GallocyState True False [Peer 2 8080, Peer 3 8080]) = Inr ((), s') \<and>
    current_term (GallocyState True False [Peer 2 8080, Peer 3 8080]) < current_term s'"
proof -
  let ?s = "GallocyState True False [Peer 2 8080, Peer 3 8080]"
  have "state ?s = FOLLOWER" "peer_list ?s = [Peer 2 8080, Peer 3 8080]"
    by (simp_all add: GallocyState_def)
  then have "\<exists>s'. work_turn (\<lambda>_. []) (\<lambda>_. []) ?s = Inr ((), s')"
    by (simp add: work_turn_def get_state_def state_candidate_def send_request_vote_def raft_request_def
        Let_def seq_def increment_current_term_def)
  then obtain s' where w: "work_turn (\<lambda>_. []) (\<lambda>_. []) ?s = Inr ((), s')"
    by blast
  then have "current_term ?s < current_term s'"
    using turn_raises_term [OF w] by (simp add: GallocyState_def)
  then show ?thesis
    using w by blast
qed

section \<open>All nodes\<close>

text \<open>A node that has stopped stays away, and the others only grow.\<close>

definition cluster_grows :: "cluster \<Rightarrow> cluster \<Rightarrow> bool" where
  "cluster_grows c c' \<longleftrightarrow> (\<forall>a s'. c' a = Some s' \<longrightarrow> (\<exists>s. c a = Some s \<and> grows s s'))"

interpretation clusters: step_order cluster_grows
proof
  fix c c' c'' :: cluster
  show "cluster_grows c c"
    by (auto simp: cluster_grows_def growth.refl)
  show "cluster_grows c c''" if "cluster_grows c c'" "cluster_grows c' c''"
    using that unfolding cluster_grows_def by (meson growth.trans)
qed

lemma cluster_grows_upd: "c a = Some s \<Longrightarrow> grows s s' \<Longrightarrow> cluster_grows c (c(a \<mapsto> s'))"
  by (auto simp: cluster_grows_def growth.refl)

lemma cluster_grows_stop: "cluster_grows c (c(a := None))"
  by (auto simp: cluster_grows_def growth.refl)

lemma serve_grows:
  assumes "uri r \<in> {''/raft/request_vote'', ''/raft/append_entries''}" and "serve from r s = Inr (rsp, s')"
  shows "grows s s'"
proof -
  have "match_route (uri r) (server_table (\<lambda>_. [])) \<in> {Inr (route_request_vote, []), Inr (route_append_entries, [])}"
    using assms(1) server_match by auto
  then have "route_request_vote [] (r\<lparr>req_peer := from\<rparr>) s = Inr (rsp, s') \<or>
      route_append_entries [] (r\<lparr>req_peer := from\<rparr>) s = Inr (rsp, s')"
    using assms(2) by (auto simp: serve_def GallocyServer_table)
  then show ?thesis
    using handler_keeps(3,5) growth.keepsD by metis
qed

definition raft_call :: "request \<Rightarrow> bool" where
  "raft_call r \<longleftrightarrow> uri r \<in> {''/raft/request_vote'', ''/raft/append_entries''}"

lemma deliver_grows:
  "\<forall>(r, _) \<in> set rs. raft_call r \<Longrightarrow> cluster_grows c (snd (deliver from rs c)) \<and>
     (\<forall>a. (\<forall>(r, _) \<in> set rs. get_canonical_id (req_peer r) \<noteq> a) \<longrightarrow> snd (deliver from rs c) a = c a)"
proof (induction rs arbitrary: c)
  case (Cons q rs)
  obtain r up where q: "q = (r, up)"
    by (cases q)
  let ?a = "get_canonical_id (req_peer r)"
  define c1 where "c1 =
    (case (if up then c ?a else None) of None \<Rightarrow> c
     | Some s \<Rightarrow> (case serve from r s of Inl e \<Rightarrow> c(?a := None) | Inr (rsp, s') \<Rightarrow> c(?a \<mapsto> s')))"
  have "snd (deliver from (q # rs) c) = snd (deliver from rs c1)"
    by (auto simp: q c1_def Let_def split: prod.splits option.splits sum.splits if_splits)
  moreover have "cluster_grows c c1"
    using Cons.prems serve_grows [of r "from"]
    by (auto simp: q c1_def raft_call_def clusters.refl split: option.splits sum.splits
        intro: cluster_grows_stop cluster_grows_upd)
  moreover have "c1 a = c a" if "a \<noteq> ?a" for a
    using that by (auto simp: c1_def split: option.splits sum.splits prod.splits)
  moreover have "\<forall>(r, _) \<in> set rs. raft_call r"
    using Cons.prems by auto
  ultimately show ?case
    using Cons.IH [of c1] clusters.trans by (auto simp: q)
qed (simp add: clusters.refl)

lemma cluster_grows_after:
  "cluster_grows c c2 \<Longrightarrow> c a = Some s \<Longrightarrow> grows s s' \<Longrightarrow> cluster_grows c (c2(a \<mapsto> s'))"
  by (auto simp: cluster_grows_def)

lemma vote_requests_call: "r \<in> set (vote_requests s) \<Longrightarrow> raft_call r"
  by (auto simp: vote_requests_def Let_def raft_call_def Request_post_def)

lemma append_requests_call: "append_requests es s = Inr reqs \<Longrightarrow> r \<in> set reqs \<Longrightarrow> raft_call r"
  by (auto simp: append_requests_def rbind_eq_Inr Let_def raft_call_def Request_post_def)

lemma beat_requests_call: "r \<in> set (beat_requests s) \<Longrightarrow> raft_call r"
  by (auto simp: beat_requests_def dest: append_requests_call [OF sym] split: sum.splits)

lemma entry_requests_call: "r \<in> set (entry_requests s) \<Longrightarrow> raft_call r"
  by (auto simp: entry_requests_def dest: append_requests_call [OF sym] split: sum.splits)

lemma after_votes_call: "r \<in> set (after_votes votes s) \<Longrightarrow> raft_call r"
  by (auto simp: after_votes_def dest: beat_requests_call split: sum.splits bool.splits prod.splits)

lemma deliver_calls_grow:
  assumes "\<And>r. r \<in> set reqs \<Longrightarrow> raft_call r"
  shows "cluster_grows c (snd (deliver from (zip reqs ups) c))"
  using deliver_grows [of "zip reqs ups" c "from"] assms by (auto dest: set_zip_leftD)

lemma turn_grows: "cluster_grows c (turn a ups ups' c)"
proof (cases "c a")
  case (Some s)
  define rounds where "rounds =
    (if get_state s = LEADER then ([], c) else deliver (Peer a 8080) (zip (vote_requests (candidate_state s)) ups) c)"
  define breqs where "breqs = (if get_state s = LEADER then beat_requests s else after_votes (fst rounds) s)"
  define beats where "beats = deliver (Peer a 8080) (zip breqs ups') (snd rounds)"
  have "cluster_grows c (snd rounds)"
    by (simp add: rounds_def clusters.refl deliver_calls_grow vote_requests_call)
  moreover have "cluster_grows (snd rounds) (snd beats)"
    unfolding beats_def
    by (rule deliver_calls_grow) (auto simp: breqs_def dest: beat_requests_call after_votes_call split: if_splits)
  ultimately have c2: "cluster_grows c (snd beats)"
    by (rule clusters.trans)
  have "turn a ups ups' c =
      (case work_turn (\<lambda>_. fst rounds) (\<lambda>_. fst beats) s of
         Inl e \<Rightarrow> (snd beats)(a := None) | Inr (_, s') \<Rightarrow> (snd beats)(a \<mapsto> s'))"
    unfolding beats_def breqs_def rounds_def turn_def Let_def split_beta by (simp add: Some)
  then show ?thesis
    using c2 cluster_grows_stop clusters.trans cluster_grows_after [OF c2 Some] work_turn_keeps(1)
    by (auto split: sum.splits)
qed (simp add: turn_def clusters.refl)

lemma client_request_grows: "cluster_grows c (client_request a ups c)"
proof (cases "c a")
  case (Some s)
  define sent where "sent = deliver (Peer a 8080) (zip (entry_requests s) ups) c"
  have c1: "cluster_grows c (snd sent)"
    unfolding sent_def by (rule deliver_calls_grow) (rule entry_requests_call)
  have "client_request a ups c =
      (case route_request (\<lambda>_. fst sent) [] (Request_get ''GET'' no_peer ''/raft/request'') s of
         Inl e \<Rightarrow> (snd sent)(a := None) | Inr (_, s') \<Rightarrow> (snd sent)(a \<mapsto> s'))"
    unfolding sent_def client_request_def Let_def split_beta by (simp add: Some)
  then show ?thesis
    using c1 cluster_grows_stop clusters.trans cluster_grows_after [OF c1 Some]
      growth.keepsD [OF route_request_keeps(1)]
    by (auto split: sum.splits)
qed (simp add: client_request_def clusters.refl)

lemma reach_grows: "cluster_reach c0 c \<Longrightarrow> cluster_grows c0 c"
  by (induction rule: cluster_reach.induct)
    (auto intro: clusters.refl clusters.trans turn_grows client_request_grows)

text \<open>
  C12. Append-only logs: whatever timers expire, whatever clients ask for and whatever messages are
  lost, the log of every node that is still running extends the log it had, the number of entries it
  has applied does not go down, and its peers are those of its configuration.
\<close>

theorem cluster_logs_append_only:
  assumes "cluster_reach c0 c" and "c a = Some s'"
  shows "\<exists>s. c0 a = Some s \<and> prefix (log s) (log s') \<and> last_applied s \<le> last_applied s' \<and>
    peer_list s' = peer_list s"
  using reach_grows [OF assms(1)] assms(2) by (auto simp: cluster_grows_def grows_def)

theorem cluster_logs_append_only_witness:
  "\<exists>c s'. cluster_reach three_nodes c \<and> c 1 = Some s' \<and> state s' = LEADER \<and>
    (\<exists>s. three_nodes 1 = Some s \<and> prefix (log s) (log s') \<and> last_applied s \<le> last_applied s' \<and>
      peer_list s' = peer_list s)"
proof -
  let ?c = "three_nodes(1 \<mapsto> first_leader, 2 \<mapsto> voter [Peer 1 8080, Peer 3 8080])"
  have "others_only 1 three_nodes"
    by (simp add: others_only_def three_nodes_def GallocyState_def get_canonical_id_def)
  then have r: "cluster_reach three_nodes ?c"
    using expired [OF start] first_turn by metis
  have "?c 1 = Some first_leader" "state first_leader = LEADER"
    by (simp_all add: first_leader_def)
  then show ?thesis
    using cluster_logs_append_only [OF r, of 1 first_leader] r by blast
qed

section \<open>Remote calls\<close>

lemma serve_append:
  assumes "\<forall>e \<in> set es. fresh_entry e"
  shows "serve from
      (Request_post ''POST'' p ''/raft/append_entries'' (json_dump (append_entries_json es ci prev_idx pt t)) json_headers) v =
    seq (try_replicate_log from es ci prev_idx pt t)
      (\<lambda>success s. Inr (json_response (json_dump (json_object [(''term'', JInt (current_term s)), (''success'', JBool success)])), s)) v"
proof -
  have u: "uri (Request_post ''POST'' p ''/raft/append_entries'' (json_dump (append_entries_json es ci prev_idx pt t)) json_headers)
      = ''/raft/append_entries''"
    by (simp add: Request_post_def)
  show ?thesis
    unfolding serve_def GallocyServer_table rbind_simps u server_match(3)
    by (simp add: route_append_run [OF assms])
qed

lemma append_answer:
  "append_entries_callback
      (fst (answer r (json_response (json_dump (json_object [(''term'', JInt t), (''success'', JBool b)]))))) s =
    (if current_term s < t then Inr (False, set_current_term t (set_state FOLLOWER s))
     else if b then Inr (True, snd (increment_match_index (req_peer r) (snd (increment_next_index (req_peer r) s))))
     else Inr (False, snd (decrement_next_index (req_peer r) s)))"
  by (simp add: append_entries_callback_def answer_def response_of_rest_def json_fields get_current_term_def)

text \<open>
  A vote requested over the network is the vote that \<open>try_grant_vote\<close> decides at the other node
  for the candidate's term, applied and commit index: the request is routed, decoded, answered and
  decoded again without loss, and the candidate steps down exactly when the other node knows a later
  term.
\<close>

theorem vote_call:
  assumes "r \<in> set (vote_requests s)"
    and "try_grant_vote from (commit_index s) (current_term s) (last_applied s) v = (granted, v')"
  shows "\<exists>rsp. serve from r v = Inr (rsp, v') \<and>
    request_vote_callback (fst (answer r rsp)) s =
      Inr (granted, if current_term s < current_term v'
                    then set_state FOLLOWER (set_current_term (current_term v') s) else s)"
proof -
  obtain p where "r = Request_post ''POST'' p ''/raft/request_vote''
      (json_dump (request_vote_json (current_term s) (last_applied s) (commit_index s))) json_headers"
    using assms(1) by (auto simp: vote_requests_def raft_getters Let_def)
  then have "serve from r v =
      Inr (json_response (json_dump (json_object [(''term'', JInt (current_term v')), (''vote_granted'', JBool granted)])), v')"
    using serve_vote assms(2) by simp
  then show ?thesis
    using vote_answer by blast
qed

theorem vote_call_witness:
  "\<exists>r rsp v'. r \<in> set (vote_requests (GallocyState True False [Peer 2 8080])) \<and>
    serve (Peer 1 8080) r (GallocyState True False [Peer 1 8080]) = Inr (rsp, v') \<and>
    request_vote_callback (fst (answer r rsp)) (GallocyState True False [Peer 2 8080]) =
      Inr (True, GallocyState True False [Peer 2 8080])"
proof -
  let ?s = "GallocyState True False [Peer 2 8080]"
  let ?v = "GallocyState True False [Peer 1 8080]"
  obtain r where r: "r \<in> set (vote_requests ?s)"
    by (simp add: vote_requests_def Let_def GallocyState_def)
  obtain v' where v': "try_grant_vote (Peer 1 8080) (commit_index ?s) (current_term ?s) (last_applied ?s) ?v = (True, v')"
    "current_term v' = 0"
    by (simp add: vote_granted GallocyState_def)
  have "\<not> current_term ?s < current_term v'"
    using v'(2) by (simp add: GallocyState_def)
  then show ?thesis
    using vote_call [OF r v'(1)] r by auto
qed

text \<open>
  Entries sent over the network are replicated as \<open>try_replicate_log\<close> says at the other node: the
  leader learns whether they were appended and moves the indices of that peer up or down, or steps
  down when the other node knows a later term.
\<close>

theorem append_call:
  assumes "\<forall>e \<in> set es. fresh_entry e" and "append_requests es s = Inr reqs"
    and "r \<in> set reqs" and "get_previous_log_index (log s) = Inr prev_idx" and "get_previous_log_term (log s) = Inr pt"
    and "try_replicate_log from es (commit_index s) prev_idx pt (current_term s) v = Inr (success, v')"
  shows "\<exists>rsp. serve from r v = Inr (rsp, v') \<and>
    append_entries_callback (fst (answer r rsp)) s =
      (if current_term s < current_term v' then Inr (False, set_current_term (current_term v') (set_state FOLLOWER s))
       else if success
       then Inr (True, snd (increment_match_index (req_peer r) (snd (increment_next_index (req_peer r) s))))
       else Inr (False, snd (decrement_next_index (req_peer r) s)))"
proof -
  obtain p where "r = Request_post ''POST'' p ''/raft/append_entries''
      (json_dump (append_entries_json es (commit_index s) prev_idx pt (current_term s))) json_headers"
    using assms(2-5) by (auto simp: append_requests_def raft_getters Let_def)
  then have "serve from r v =
      Inr (json_response (json_dump (json_object [(''term'', JInt (current_term v')), (''success'', JBool success)])), v')"
    using serve_append [OF assms(1)] assms(6) by (simp add: seq_def)
  then show ?thesis
    using append_answer by blast
qed

theorem append_call_witness:
  "\<exists>reqs r rsp v'. append_requests [LogEntry (Command ''x'') 0] (GallocyState True False [Peer 2 8080]) = Inr reqs \<and>
    r \<in> set reqs \<and> serve (Peer 1 8080) r (GallocyState True False [Peer 1 8080]) = Inr (rsp, v') \<and>
    (\<exists>s'. append_entries_callback (fst (answer r rsp)) (GallocyState True False [Peer 2 8080]) = Inr (True, s'))"
proof -
  let ?s = "GallocyState True False [Peer 2 8080]"
  let ?v = "GallocyState True False [Peer 1 8080]"
  let ?e = "LogEntry (Command ''x'') 0"
  have fresh: "\<forall>e \<in> set [?e]. fresh_entry e"
    by (simp add: fresh_entry_def LogEntry_def c_str_def char_code_def)
  have l: "log ?s = []" "current_term ?s = 0" "commit_index ?s = 0"
    by (simp_all add: GallocyState_def)
  have prev: "get_previous_log_index (log ?s) = Inr 0" "get_previous_log_term (log ?s) = Inr 0"
    by (simp_all add: l get_previous_log_index_def get_previous_log_term_def)
  have "\<exists>reqs r. append_requests [?e] ?s = Inr reqs \<and> r \<in> set reqs"
    using prev by (simp add: append_requests_def Let_def) (auto simp: GallocyState_def)
  then obtain reqs r where reqs: "append_requests [?e] ?s = Inr reqs" "r \<in> set reqs"
    by blast
  obtain v' where v': "try_replicate_log (Peer 1 8080) [?e] (commit_index ?s) 0 0 (current_term ?s) ?v = Inr (True, v')"
    "current_term v' = 0"
    by (simp add: try_replicate_log_def get_current_term_def l append_entry_def follow_leader_fields)
      (simp add: GallocyState_def follow_leader_fields)
  then show ?thesis
    using append_call [OF fresh reqs prev v'(1)] reqs by (auto simp: l)
qed

text \<open>
  A heartbeat is always answered with failure, and the leader takes the next index of every peer
  that answers one down: the answer to a request without entries never says success, whatever the
  state of the other node.
\<close>

theorem heartbeat_refused:
  assumes "append_requests [] s = Inr reqs" and "r \<in> set reqs"
  shows "\<exists>rsp v'. serve from r v = Inr (rsp, v') \<and>
    append_entries_callback (fst (answer r rsp)) s =
      Inr (False, if current_term s < current_term v
                  then set_current_term (current_term v) (set_state FOLLOWER s)
                  else snd (decrement_next_index (req_peer r) s))"
proof -
  obtain prev_idx pt where p: "get_previous_log_index (log s) = Inr prev_idx" "get_previous_log_term (log s) = Inr pt"
    using assms(1) by (auto simp: append_requests_def rbind_eq_Inr)
  obtain v' where v': "try_replicate_log from [] (commit_index s) prev_idx pt (current_term s) v = Inr (False, v')"
    "current_term v' = max (current_term s) (current_term v)"
    by (cases "current_term s < current_term v")
      (simp_all add: try_replicate_log_def get_current_term_def follow_leader_fields max.absorb1 max.absorb2 less_imp_le)
  obtain q where r: "r = Request_post ''POST'' q ''/raft/append_entries''
      (json_dump (append_entries_json [] (commit_index s) prev_idx pt (current_term s))) json_headers"
    using assms(1,2) p by (auto simp: append_requests_def raft_getters Let_def)
  have "serve from r v =
      Inr (json_response (json_dump (json_object [(''term'', JInt (current_term v')), (''success'', JBool False)])), v')"
    unfolding r using serve_append [of "[]"] v'(1) by (simp add: seq_def)
  then show ?thesis
    using append_answer [of r "current_term v'" False s] v'(2)
    by (auto simp: max_def not_less)
qed

theorem heartbeat_refused_witness:
  "\<exists>reqs r rsp v'. append_requests [] first_leader = Inr reqs \<and> r \<in> set reqs \<and>
    serve (Peer 1 8080) r (voter [Peer 1 8080, Peer 3 8080]) = Inr (rsp, v') \<and>
    append_entries_callback (fst (answer r rsp)) first_leader =
      Inr (False, snd (decrement_next_index (req_peer r) first_leader))"
proof -
  have l: "log first_leader = []" "peer_list first_leader = [Peer 2 8080, Peer 3 8080]" "current_term first_leader = 1"
    by (simp_all add: first_leader_def candidate_start)
  have "\<exists>reqs r. append_requests [] first_leader = Inr reqs \<and> r \<in> set reqs"
    by (auto simp: append_requests_def Let_def l get_previous_log_index_def get_previous_log_term_def)
  then obtain reqs r where reqs: "append_requests [] first_leader = Inr reqs" "r \<in> set reqs"
    by blast
  have "current_term (voter [Peer 1 8080, Peer 3 8080]) = 1"
    by (simp add: voter_def)
  then show ?thesis
    using heartbeat_refused [OF reqs, of "Peer 1 8080" "voter [Peer 1 8080, Peer 3 8080]"] reqs l
    by auto
qed

end
