(* ===== verification/Wire.thy ===== *)
theory Wire
  imports ClusterProps
begin

text \<open>
  A remote call on the wire: the text of a request as the server reads it in pieces, and the text of a
  response as libcurl hands it back in lines and pieces. What libcurl sends for a \<open>POST\<close> is a request in
  the wire format of theory \<open>HttpMessage\<close> that has the headers of the client among others.
\<close>

section \<open>Reading a request\<close>

text \<open>A text that arrives in pieces, none of which fills the buffer.\<close>

definition arrives :: "string list \<Rightarrow> string \<Rightarrow> bool" where
  "arrives chunks text \<longleftrightarrow>
     concat chunks = text \<and> list_all (\<lambda>c. c \<noteq> [] \<and> length c < 512 \<and> c_str c = c) chunks"

lemma arrives_singly: "nul \<notin> set text \<Longrightarrow> arrives (map (\<lambda>c. [c]) text) text"
  by (auto simp: arrives_def list_all_iff intro!: c_str_no_nul)

lemma read_chunks_arrives: "arrives chunks text \<Longrightarrow> read_chunks chunks = Inr text"
proof -
  have "list_all (\<lambda>c. c \<noteq> [] \<and> length c < 512 \<and> c_str c = c) chunks \<Longrightarrow> read_chunks chunks = Inr (concat chunks)"
    by (induction chunks) auto
  then show "arrives chunks text \<Longrightarrow> read_chunks chunks = Inr text"
    by (auto simp: arrives_def)
qed

definition parsed :: "string \<Rightarrow> string \<Rightarrow> string \<Rightarrow> (string \<times> string) list \<Rightarrow> string \<Rightarrow> peer \<Rightarrow> request" where
  "parsed m u p hs b peer =
     empty_request\<lparr>headers := foldl (\<lambda>h kv. map_set h (fst kv) (header_value (snd kv))) [] hs,
       req_peer := peer, req_method := m, uri := u, protocol := p, raw_body := b\<rparr>"

lemma handle_wire:
  assumes "wire_ok m u p hs b" and "arrives chunks (wire m u p hs b)" and "match_route u table = Inr (h, args)"
  shows "handle table chunks name v =
    rbind (h args (parsed m u p hs b (Peer_sockaddr name)) v) (\<lambda>(rsp, s'). Inr (response_str rsp, s'))"
  using assms
  by (simp add: handle_def get_request_def read_chunks_arrives parse_wire parsed_def [symmetric])
    (simp add: parsed_def)

text \<open>The JSON body is found whatever other headers libcurl has added.\<close>

lemma parsed_header:
  "map_of (headers (parsed m u p hs b peer)) k = map_option header_value (map_of (rev hs) k)"
  by (simp add: parsed_def map_of_headers split: option.split)

lemma get_json_parsed:
  assumes "json_exact j" and "map_of (rev hs) ''Content-Type'' = Some ''application/json''"
  shows "\<exists>r. get_json (parsed m u p hs (json_dump j) peer) = Inr (j, r)"
proof -
  have "header_value ''application/json'' = ''application/json''"
    by (simp add: header_value_def trim_def ltrim_def rtrim_def isspace_def char_code_def)
  then have "map_of (headers (parsed m u p hs (json_dump j) peer)) ''Content-Type'' = Some ''application/json''"
    using assms(2) by (simp add: parsed_header)
  moreover have "req_json (parsed m u p hs (json_dump j) peer) = JNull"
    "raw_body (parsed m u p hs (json_dump j) peer) = json_dump j"
    by (simp_all add: parsed_def empty_request_def)
  ultimately show ?thesis
    using assms(1) by (simp add: get_json_def)
qed

text \<open>The printed form of an object is a body that survives on the wire.\<close>

lemma json_dump_object: "\<exists>s. json_dump (json_object kvs) = CHR ''{'' # s @ [CHR ''}'']"
  by (cases "emplace_all kvs [] = []")
    (auto simp: json_dump_def json_dump_indent_def json_object_eq Let_def)

lemma plain_json_object:
  assumes "json_exact (json_object kvs)"
  shows "plain (json_dump (json_object kvs))"
proof -
  obtain s where s: "json_dump (json_object kvs) = CHR ''{'' # s @ [CHR ''}'']"
    using json_dump_object by blast
  have "printable (json_dump (json_object kvs))"
    using dump_printable [OF assms] by (simp add: json_dump_def json_dump_indent_def)
  then have "CHR 0x0A \<notin> set (json_dump (json_object kvs))"
    by (auto simp: printable_def list_all_iff char_code_def)
  then show ?thesis
    unfolding plain_def s by (simp add: trim_def ltrim_def rtrim_def isspace_def char_code_def)
qed

text \<open>
  A JSON request that arrives is handled: the handler of its path gets a request with the caller as its
  peer, whose \<open>get_json\<close> is the value that was sent.
\<close>

definition header_fields_ok :: "(string \<times> string) list \<Rightarrow> bool" where
  "header_fields_ok hs \<longleftrightarrow>
     (\<forall>(k, h) \<in> set hs. plain k \<and> plain h \<and> CHR '':'' \<notin> set k) \<and>
     map_of (rev hs) ''Content-Type'' = Some ''application/json''"

lemma handle_json_post:
  assumes "j = json_object kvs" and "r = Request_post ''POST'' p u (json_dump j) json_headers"
    and "json_exact j" and "plain u" and "CHR '' '' \<notin> set u" and "header_fields_ok hs"
    and "arrives chunks (wire ''POST'' (uri r) ''HTTP/1.1'' hs (raw_body r))"
    and "match_route u table = Inr (h, args)"
  obtains req req' where "handle table chunks name v = rbind (h args req v) (\<lambda>(rsp, s'). Inr (response_str rsp, s'))"
    "req_peer req = Peer_sockaddr name" "get_json req = Inr (j, req')"
proof -
  let ?req = "parsed ''POST'' u ''HTTP/1.1'' hs (json_dump j) (Peer_sockaddr name)"
  have r: "uri r = u" "raw_body r = json_dump j"
    by (simp_all add: assms(2) Request_post_def)
  have "plain (json_dump j)"
    using plain_json_object assms(1,3) by blast
  then have "wire_ok ''POST'' u ''HTTP/1.1'' hs (json_dump j)"
    using assms(4-6) by (auto simp: wire_ok_def header_fields_ok_def)
      (simp_all add: plain_def trim_def ltrim_def rtrim_def isspace_def char_code_def)
  then have "handle table chunks name v = rbind (h args ?req v) (\<lambda>(rsp, s'). Inr (response_str rsp, s'))"
    using handle_wire assms(7,8) unfolding r by blast
  moreover have "req_peer ?req = Peer_sockaddr name"
    by (simp add: parsed_def)
  moreover obtain req' where "get_json ?req = Inr (j, req')"
    using get_json_parsed [OF assms(3)] assms(6) unfolding header_fields_ok_def by blast
  ultimately show ?thesis
    by (rule that)
qed

lemma plain_path: "plain ''/raft/request_vote''" "plain ''/raft/append_entries''"
  by (simp_all add: plain_def trim_def ltrim_def rtrim_def isspace_def char_code_def)

section \<open>Reading a response\<close>

definition status_line :: "response \<Rightarrow> string" where
  "status_line rsp = rsp_protocol rsp @ '' '' @ show_nat (unat (status_code rsp)) @ '' OK''"

definition delivers :: "transfer \<Rightarrow> response \<Rightarrow> bool" where
  "delivers t rsp \<longleftrightarrow>
     curl_res t = CURLE_OK \<and> http_code t = status_code rsp \<and>
     (\<exists>chunks. concat chunks = body rsp @ crlf @ crlf \<and>
        deliveries t = Header_line (status_line rsp @ crlf) # map header_delivery (rsp_headers rsp) @
          [Header_line crlf] @ map Body_data chunks)"

text \<open>What is delivered is the text that the server has sent.\<close>

fun delivery_text :: "delivery \<Rightarrow> string" where
  "delivery_text (Header_line l) = l"
| "delivery_text (Body_data d) = d"

lemma delivers_text: "delivers t rsp \<Longrightarrow> concat (map delivery_text (deliveries t)) = response_str rsp"
  by (auto simp: delivers_def response_str_def status_line_def header_delivery_def comp_def case_prod_unfold)

lemma status_line_200: "status_line (json_response x) = ''HTTP/1.0 200 OK''"
proof -
  have "show_nat 200 = ''200''"
    by code_simp
  then show ?thesis
    by (simp add: status_line_def json_response_def Response_def)
qed

lemma json_response_wire:
  "trimmed (status_line (json_response x))" "status_line (json_response x) \<noteq> []"
  "CHR '':'' \<notin> set (status_line (json_response x))" "list_all header_ok (rsp_headers (json_response x))"
  unfolding status_line_200
  by (simp_all add: json_response_def trimmed_def header_ok_def isspace_def char_code_def)

lemma curl_request_reply:
  assumes "curl_easy_init curl" and "req_method r = ''POST''"
    and "delivers (curl_easy_perform curl (post_options junk (c_str (get_url r)) ''application/json'' (c_str (raw_body r))))
           (json_response x)"
  shows "\<exists>rsp. curl_request curl junk r = Inr rsp \<and> status_code rsp = 200 \<and>
    body rsp = c_str (x @ crlf @ crlf) \<and> rsp_peer rsp = req_peer r"
proof -
  let ?t = "curl_easy_perform curl (post_options junk (c_str (get_url r)) ''application/json'' (c_str (raw_body r)))"
  obtain chunks where c: "concat chunks = x @ crlf @ crlf"
    "deliveries ?t = Header_line (status_line (json_response x) @ crlf) # map header_delivery (rsp_headers (json_response x)) @
          [Header_line crlf] @ map Body_data chunks"
    and ok: "curl_res ?t = CURLE_OK" "http_code ?t = 200"
    using assms(3) by (auto simp: delivers_def)
  have "transfer_result ?t = \<lparr>rest_code = 200, rest_body = x @ crlf @ crlf,
      rest_headers = std_map.put_all (rsp_headers (json_response x)) (map_set [] (status_line (json_response x)) ''present'')\<rparr>"
    unfolding transfer_result_def Let_def c(2) receive_reply [OF json_response_wire] using c(1) ok by simp
  then show ?thesis
    using assms(1,2) by (simp add: curl_request_def rest_post_transfer response_of_rest_def)
qed

section \<open>An undisturbed exchange\<close>

text \<open>A transfer library that delivers one response, in its lines and one piece.\<close>

definition delivering :: "response \<Rightarrow> curl_lib" where
  "delivering rsp =
    \<lparr>curl_easy_init = True,
     curl_easy_perform = (\<lambda>_. \<lparr>curl_res = CURLE_OK,
       deliveries = Header_line (status_line rsp @ crlf) # map header_delivery (rsp_headers rsp) @
         [Header_line crlf] @ map Body_data [body rsp @ crlf @ crlf],
       http_code = status_code rsp, curl_info = no_request\<rparr>)\<rparr>"

lemma delivering:
  "curl_easy_init (delivering rsp)" "delivers (curl_easy_perform (delivering rsp) opts) rsp"
  unfolding delivers_def delivering_def by (simp, intro conjI exI [of _ "[body rsp @ crlf @ crlf]"]) simp_all

definition example_headers :: "(string \<times> string) list" where
  "example_headers = [(''Host'', ''0.0.0.2:8080''), (''Content-Type'', ''application/json'')]"

lemma example_headers_ok: "header_fields_ok example_headers"
  by (simp add: example_headers_def header_fields_ok_def plain_def trim_def ltrim_def rtrim_def isspace_def char_code_def)

text \<open>A JSON request that arrives byte by byte.\<close>

lemma example_arrives:
  assumes "r = Request_post ''POST'' p u (json_dump j) json_headers" and "json_exact j" and "nul \<notin> set u"
  shows "arrives (map (\<lambda>c. [c]) (wire ''POST'' (uri r) ''HTTP/1.1'' example_headers (raw_body r)))
    (wire ''POST'' (uri r) ''HTTP/1.1'' example_headers (raw_body r))"
  by (rule arrives_singly)
    (use json_dump_no_nul [OF assms(2)] assms(1,3) in
      \<open>simp add: Request_post_def wire_def HttpMessage.header_line_def crlf_def example_headers_def\<close>,
      simp add: nul_def)

end
