(* ===== verification/Config.thy ===== *)
theory Config
  imports JsonIter Peer
begin

text \<open>
  \<open>utils/config.h\<close> and \<open>utils/config.cpp\<close>: the configuration of a node, read from a JSON file. The file
  system is a parameter, a file that cannot be opened reads as empty.
\<close>

record gallocy_config =
  cfg_address :: string
  cfg_peer_list :: "peer list"
  cfg_port :: u16

definition GallocyConfig :: "string \<Rightarrow> peer list \<Rightarrow> u16 \<Rightarrow> gallocy_config" where
  "GallocyConfig address peers port = \<lparr>cfg_address = address, cfg_peer_list = peers, cfg_port = port\<rparr>"

fun config_peers :: "u16 \<Rightarrow> json list \<Rightarrow> peer list result" where
  "config_peers port [] = Inr []"
| "config_peers port (j # js) =
     rbind (json_string j)
       (\<lambda>ip. rbind (config_peers port js) (\<lambda>ps. Inr (Peer_string (c_str ip) port # ps)))"

text \<open>The conversion to \<open>uint16_t\<close> keeps the low bits of an integer.\<close>

definition GallocyConfig_json :: "json \<Rightarrow> gallocy_config result" where
  "GallocyConfig_json config_json =
     rbind (rbind (json_at config_json ''port'') json_u16)
       (\<lambda>port. rbind (json_field_string config_json ''self'')
         (\<lambda>address. rbind (json_at config_json ''peers'')
           (\<lambda>pj. rbind (rbind (range_for pj) (config_peers port))
             (\<lambda>peers. Inr (GallocyConfig (c_str address) peers port)))))"

definition read_file :: "(string \<Rightarrow> string option) \<Rightarrow> string \<Rightarrow> string" where
  "read_file files path = (case files path of None \<Rightarrow> [] | Some s \<Rightarrow> s)"

definition load_config :: "(string \<Rightarrow> string option) \<Rightarrow> string \<Rightarrow> gallocy_config result" where
  "load_config files path =
     rbind (json_parse (c_str (read_file files (c_str path)))) GallocyConfig_json"

section \<open>Files that were written for it\<close>

definition config_to_json :: "string \<Rightarrow> string list \<Rightarrow> u64 \<Rightarrow> json" where
  "config_to_json address ips port =
     json_object [(''self'', JString address), (''peers'', JArray (map JString ips)), (''port'', JInt port)]"

lemma config_peers_strings:
  "config_peers port (map JString ips) = Inr (map (\<lambda>ip. Peer_string (c_str ip) port) ips)"
  by (induction ips) simp_all

lemma load_config_parsed:
  "json_exact j \<Longrightarrow> files (c_str path) = Some (json_dump j) \<Longrightarrow> load_config files path = GallocyConfig_json j"
  by (simp add: load_config_def read_file_def)

lemma config_to_json_exact [simp]: "json_exact (config_to_json address ips port)"
  by (simp add: config_to_json_def list_all_iff)

lemma config_json_written:
  "GallocyConfig_json (config_to_json address ips port) =
     Inr (GallocyConfig (c_str address) (map (\<lambda>ip. Peer_string (c_str ip) (ucast port)) ips) (ucast port))"
  by (simp add: GallocyConfig_json_def config_to_json_def json_fields config_peers_strings Let_def)

lemmas load_config_written = trans [OF load_config_parsed [OF config_to_json_exact] config_json_written]

text \<open>
  Loading a configuration file gives back what was written to it: the address of the node, its
  peers in the order of the file, each with the port of the node itself, and the port modulo 65536. A
  file without peers gives an empty list of peers, and one without a port or an address ends in an
  exception.
\<close>

theorem load_config_roundtrip:
  assumes "json_exact j" and "files (c_str path) = Some (json_dump j)"
  shows "(j = config_to_json address ips port \<longrightarrow>
      load_config files path =
        Inr (GallocyConfig (c_str address) (map (\<lambda>ip. Peer_string (c_str ip) (ucast port)) ips) (ucast port))) \<and>
    (j = json_object [(''self'', JString address), (''port'', JInt port)] \<longrightarrow>
      load_config files path = Inr (GallocyConfig (c_str address) [] (ucast port))) \<and>
    (j = json_object [(''self'', JString address)] \<or> j = json_object [(''port'', JInt port)] \<longrightarrow>
      load_config files path = Inl (Uncaught domain_error))"
proof -
  have "load_config files path = GallocyConfig_json j"
    by (rule load_config_parsed [where files = files and path = path, OF assms])
  then show ?thesis
    by (auto simp: config_json_written) (simp_all add: GallocyConfig_json_def json_fields)
qed

theorem load_config_roundtrip_witness:
  "load_config (\<lambda>_. Some (json_dump (config_to_json ''10.0.0.1'' [''10.0.0.2''] 8080))) ''config.json'' =
     Inr (GallocyConfig ''10.0.0.1'' [Peer_string ''10.0.0.2'' 8080] 8080)"
  using load_config_roundtrip [of "config_to_json ''10.0.0.1'' [''10.0.0.2''] 8080"
      "\<lambda>_. Some (json_dump (config_to_json ''10.0.0.1'' [''10.0.0.2''] 8080))" _ "''10.0.0.1''" "[''10.0.0.2'']" 8080]
  by (simp add: c_str_def char_code_def)

end
