(* ===== verification/Models.thy ===== *)
theory Models
  imports Peer
begin

text \<open>
  \<open>models.h\<close> and \<open>models.cpp\<close>: the tables of a node. SQLite is a parameter, its state a type variable:
  whether a statement can be prepared, what the first step of a statement returns and does, and the
  rows that a query steps through, whose columns are 64-bit values.
\<close>

record peer_info =
  is_master :: bool
  pi_id :: u64
  ip_address :: u64
  first_seen :: u64
  last_seen :: u64

text \<open>The primary constructor leaves \<open>id\<close> unset.\<close>

definition PeerInfo :: "u64 \<Rightarrow> u64 \<Rightarrow> u64 \<Rightarrow> u64 \<Rightarrow> bool \<Rightarrow> peer_info" where
  "PeerInfo junk ip first0 last0 master =
     \<lparr>is_master = master, pi_id = junk, ip_address = ip, first_seen = first0, last_seen = last0\<rparr>"

definition PeerInfo_row :: "u64 \<Rightarrow> u64 \<Rightarrow> u64 \<Rightarrow> u64 \<Rightarrow> bool \<Rightarrow> peer_info" where
  "PeerInfo_row i ip first0 last0 master =
     \<lparr>is_master = master, pi_id = i, ip_address = ip, first_seen = first0, last_seen = last0\<rparr>"

text \<open>The rows that describe the application and its memory; their primary constructors leave \<open>id\<close> unset too.\<close>

record application_info =
  data_region :: u64
  heap_region :: u64
  ai_id :: u64
  main_address :: u64
  memory_in_use :: u64
  text_region :: u64
  threads_in_use :: u64

definition ApplicationInfo_row :: "u64 \<Rightarrow> u64 \<Rightarrow> u64 \<Rightarrow> u64 \<Rightarrow> u64 \<Rightarrow> u64 \<Rightarrow> u64 \<Rightarrow> application_info" where
  "ApplicationInfo_row i text_r data_r main_a heap_r memory threads =
     \<lparr>data_region = data_r, heap_region = heap_r, ai_id = i, main_address = main_a, memory_in_use = memory,
      text_region = text_r, threads_in_use = threads\<rparr>"

definition ApplicationInfo :: "u64 \<Rightarrow> u64 \<Rightarrow> u64 \<Rightarrow> u64 \<Rightarrow> u64 \<Rightarrow> u64 \<Rightarrow> u64 \<Rightarrow> application_info" where
  "ApplicationInfo junk text_r data_r main_a heap_r memory threads =
     \<lparr>data_region = data_r, heap_region = heap_r, ai_id = junk, main_address = main_a, memory_in_use = memory,
      text_region = text_r, threads_in_use = threads\<rparr>"

record application_memory =
  dirty :: bool
  am_address :: u64
  coherency_model :: u64
  faults :: u64
  am_id :: u64
  am_owner :: u64
  permissions :: u64
  am_size :: u64

definition ApplicationMemory :: "u64 \<Rightarrow> bool \<Rightarrow> u64 \<Rightarrow> u64 \<Rightarrow> u64 \<Rightarrow> u64 \<Rightarrow> u64 \<Rightarrow> u64 \<Rightarrow> application_memory" where
  "ApplicationMemory junk d address model flts own perms sz =
     \<lparr>dirty = d, am_address = address, coherency_model = model, faults = flts, am_id = junk, am_owner = own,
      permissions = perms, am_size = sz\<rparr>"

definition ApplicationMemory_row ::
  "bool \<Rightarrow> u64 \<Rightarrow> u64 \<Rightarrow> u64 \<Rightarrow> u64 \<Rightarrow> u64 \<Rightarrow> u64 \<Rightarrow> u64 \<Rightarrow> application_memory" where
  "ApplicationMemory_row d address model flts i own perms sz =
     \<lparr>dirty = d, am_address = address, coherency_model = model, faults = flts, am_id = i, am_owner = own,
      permissions = perms, am_size = sz\<rparr>"

definition TABLE_NAME :: string where "TABLE_NAME = ''peer_info''"

definition CREATE_STATEMENT :: string where
  "CREATE_STATEMENT =
     ''CREATE TABLE peer_info ('' @
     ''id INTEGER PRIMARY KEY, '' @
     ''ip_address INT UNIQUE, '' @
     ''first_seen INT NOT NULL, '' @
     ''last_seen INT NOT NULL, '' @
     ''is_master INT NOT NULL);''"

definition COLUMNS_LIST :: string where
  "COLUMNS_LIST = ''id, ip_address, first_seen, last_seen, is_master''"

definition insert_statement :: "peer_info \<Rightarrow> string" where
  "insert_statement p =
     ''INSERT INTO peer_info '' @
     ''(ip_address,first_seen,last_seen,is_master) '' @
     ''VALUES ('' @
     show_nat (unat (ip_address p)) @ '','' @
     show_nat (unat (first_seen p)) @ '','' @
     show_nat (unat (last_seen p)) @ '','' @
     (if is_master p then ''1'' else ''0'') @
     '');''"

text \<open>\<open>sqlite3_column_int\<close> returns the low 32 bits of the column as an \<open>int\<close>.\<close>

definition sqlite3_column_int :: "u64 list \<Rightarrow> nat \<Rightarrow> u32" where
  "sqlite3_column_int row i = (if i < length row then ucast (row ! i) else 0)"

definition extract_row :: "u64 list \<Rightarrow> peer_info" where
  "extract_row stmt =
     PeerInfo_row (scast (sqlite3_column_int stmt 0)) (scast (sqlite3_column_int stmt 1))
       (scast (sqlite3_column_int stmt 2)) (scast (sqlite3_column_int stmt 3))
       (sqlite3_column_int stmt 4 \<noteq> 0)"

record 'd sqlite_lib =
  sqlite3_config_ok :: bool
  sqlite3_open_db :: "'d"
  sqlite3_prepare_ok :: "'d \<Rightarrow> string \<Rightarrow> bool"
  sqlite3_step_done :: "'d \<Rightarrow> string \<Rightarrow> bool \<times> 'd"
  sqlite3_rows :: "'d \<Rightarrow> string \<Rightarrow> u64 list list"

definition init_sqlite_memory :: "'d sqlite_lib \<Rightarrow> unit result" where
  "init_sqlite_memory lib = (if sqlite3_config_ok lib then Inr () else Inl Aborted)"

text \<open>An engine is the database it has opened; \<open>execute\<close> returns its \<open>int\<close>.\<close>

definition Engine :: "'d sqlite_lib \<Rightarrow> unit result" where
  "Engine lib = init_sqlite_memory lib"

definition engine_initialize :: "'d sqlite_lib \<Rightarrow> 'd" where
  "engine_initialize lib = sqlite3_open_db lib"

definition engine_execute :: "'d sqlite_lib \<Rightarrow> string \<Rightarrow> 'd \<Rightarrow> int \<times> 'd" where
  "engine_execute lib sql db =
     (if \<not> sqlite3_prepare_ok lib db (c_str sql) then (- 1, db)
      else let (is_done, db') = sqlite3_step_done lib db (c_str sql)
           in if \<not> is_done then (- 1, db') else (1, db'))"

definition select_statement :: string where
  "select_statement = ''SELECT '' @ COLUMNS_LIST @ '' FROM '' @ TABLE_NAME @ '';''"

definition model_all :: "'d sqlite_lib \<Rightarrow> 'd \<Rightarrow> peer_info list" where
  "model_all lib db =
     (if \<not> sqlite3_prepare_ok lib db (c_str select_statement) then []
      else map extract_row (sqlite3_rows lib db (c_str select_statement)))"

section \<open>What comes back\<close>

lemma sint_shift: "sint (w :: u32) = (uint w + 2 ^ 31) mod 2 ^ 32 - 2 ^ 31"
  by (simp add: sint_uint signed_take_bit_eq_take_bit_shift take_bit_eq_mod)

lemma column_small:
  fixes v :: u64
  assumes "unat v < 2 ^ 31"
  shows "scast (ucast v :: u32) = v"
proof -
  have "int (unat v) < int (2 ^ 31)"
    using assms by (simp only: of_nat_less_iff)
  then have v: "uint v < 2 ^ 31"
    by simp
  have "uint (ucast v :: u32) = uint v"
    using v by (simp add: unsigned_ucast_eq take_bit_int_eq_self)
  then have "sint (ucast v :: u32) = uint v"
    using v by (simp add: sint_shift)
  then show ?thesis
    by (simp add: scast_eq)
qed

lemma column_large:
  fixes v :: u64
  assumes "2 ^ 31 \<le> unat v" and "unat v < 2 ^ 32"
  shows "unat (scast (ucast v :: u32) :: u64) = unat v + (2 ^ 64 - 2 ^ 32)"
proof -
  have "int (2 ^ 31) \<le> int (unat v)" "int (unat v) < int (2 ^ 32)"
    using assms by (simp_all only: of_nat_less_iff of_nat_le_iff)
  then have v: "2 ^ 31 \<le> uint v" "uint v < 2 ^ 32"
    by simp_all
  have "uint (ucast v :: u32) = uint v"
    using v by (simp add: unsigned_ucast_eq take_bit_int_eq_self)
  moreover have "(uint v + 2 ^ 31) mod 2 ^ 32 = uint v + 2 ^ 31 - 2 ^ 32"
    using v mod_pos_geq [of "2 ^ 32" "uint v + 2 ^ 31"] by (simp add: mod_pos_pos_trivial)
  ultimately have "sint (ucast v :: u32) = uint v - 2 ^ 32"
    by (simp add: sint_shift)
  then have "scast (ucast v :: u32) = (word_of_int (uint v - 2 ^ 32) :: u64)"
    by (simp add: scast_eq)
  also have "word_of_int (uint v - 2 ^ 32) = (word_of_int (uint v + (2 ^ 64 - 2 ^ 32)) :: u64)"
    by (simp add: word_of_int_eq_iff take_bit_eq_mod)
  finally have e: "scast (ucast v :: u32) = v + (0xFFFFFFFF00000000 :: u64)"
    by simp
  show ?thesis
    unfolding e by (subst unat_add_small) (use assms in simp_all)
qed

definition fields :: "peer_info \<Rightarrow> u64 list" where
  "fields p = [pi_id p, ip_address p, first_seen p, last_seen p]"

text \<open>The row of a peer, as SQLite stores it.\<close>

definition peer_row :: "peer_info \<Rightarrow> u64 list" where
  "peer_row p = fields p @ [if is_master p then 1 else 0]"

lemma column_exact:
  fixes v :: u64
  assumes "unat v < 2 ^ 32"
  shows "scast (ucast v :: u32) = v \<longleftrightarrow> unat v < 2 ^ 31"
proof (cases "unat v < 2 ^ 31")
  case False
  then have "unat (scast (ucast v :: u32) :: u64) \<noteq> unat v"
    using column_large [of v] assms by simp
  then show ?thesis
    using False by metis
qed (simp add: column_small)

lemma extract_exact:
  assumes "list_all (\<lambda>v. unat v < 2 ^ 32) (fields p)"
  shows "extract_row (peer_row p) = p \<longleftrightarrow> list_all (\<lambda>v. unat v < 2 ^ 31) (fields p)"
proof -
  have "extract_row (peer_row p) = p \<longleftrightarrow> list_all (\<lambda>v. scast (ucast v :: u32) = v) (fields p)"
    by (cases p) (auto simp: extract_row_def PeerInfo_row_def sqlite3_column_int_def peer_row_def fields_def)
  also have "\<dots> \<longleftrightarrow> list_all (\<lambda>v. unat v < 2 ^ 31) (fields p)"
    using assms column_exact by (auto simp: list_all_iff)
  finally show ?thesis .
qed

text \<open>
  Reading the peer table gives back the stored peers only as long as every number in it is below
  2147483648, because columns are read as \<open>int\<close>s: a stored IPv4 address from 128.0.0.0 on comes back
  with its upper 32 bits set, and is not the address of the peer any more.
\<close>

theorem peer_table_exact:
  assumes "sqlite3_prepare_ok lib db (c_str select_statement)"
    and "sqlite3_rows lib db (c_str select_statement) = map peer_row ps"
    and "list_all (\<lambda>p. list_all (\<lambda>v. unat v < 2 ^ 32) (fields p)) ps"
  shows "(model_all lib db = ps \<longleftrightarrow> list_all (\<lambda>p. list_all (\<lambda>v. unat v < 2 ^ 31) (fields p)) ps) \<and>
    (\<forall>i < length ps. 2 ^ 31 \<le> unat (ip_address (ps ! i)) \<longrightarrow>
       unat (ip_address (model_all lib db ! i)) = unat (ip_address (ps ! i)) + (2 ^ 64 - 2 ^ 32))"
proof
  have all: "model_all lib db = map (\<lambda>p. extract_row (peer_row p)) ps"
    using assms(1,2) by (simp add: model_all_def)
  have "map (\<lambda>p. extract_row (peer_row p)) ps = ps \<longleftrightarrow> list_all (\<lambda>p. extract_row (peer_row p) = p) ps"
    by (induction ps) auto
  also have "\<dots> \<longleftrightarrow> list_all (\<lambda>p. list_all (\<lambda>v. unat v < 2 ^ 31) (fields p)) ps"
    using assms(3) extract_exact unfolding list_all_iff by blast
  finally show "model_all lib db = ps \<longleftrightarrow> list_all (\<lambda>p. list_all (\<lambda>v. unat v < 2 ^ 31) (fields p)) ps"
    unfolding all .
  show "\<forall>i < length ps. 2 ^ 31 \<le> unat (ip_address (ps ! i)) \<longrightarrow>
       unat (ip_address (model_all lib db ! i)) = unat (ip_address (ps ! i)) + (2 ^ 64 - 2 ^ 32)"
  proof (intro allI impI)
    fix i assume i: "i < length ps" "2 ^ 31 \<le> unat (ip_address (ps ! i))"
    then have "unat (ip_address (ps ! i)) < 2 ^ 32"
      using assms(3) nth_mem [OF i(1)] by (auto simp: list_all_iff fields_def)
    from column_large [OF i(2) this] show "unat (ip_address (model_all lib db ! i)) = unat (ip_address (ps ! i)) + (2 ^ 64 - 2 ^ 32)"
      using i(1) by (simp add: all extract_row_def PeerInfo_row_def sqlite3_column_int_def peer_row_def fields_def)
  qed
qed

definition demo_sqlite :: "u64 list list sqlite_lib" where
  "demo_sqlite =
     \<lparr>sqlite3_config_ok = True, sqlite3_open_db = [], sqlite3_prepare_ok = (\<lambda>db sql. True),
      sqlite3_step_done = (\<lambda>db sql. (True, db)), sqlite3_rows = (\<lambda>db sql. db)\<rparr>"

theorem peer_table_exact_witness:
  "model_all demo_sqlite [peer_row (PeerInfo 1 0x7F000001 0 0 False)] = [PeerInfo 1 0x7F000001 0 0 False] \<and>
   model_all demo_sqlite [peer_row (PeerInfo 1 0xC0A80001 0 0 True)] \<noteq> [PeerInfo 1 0xC0A80001 0 0 True]"
  using peer_table_exact [of demo_sqlite "[peer_row (PeerInfo 1 0x7F000001 0 0 False)]" "[PeerInfo 1 0x7F000001 0 0 False]"]
    peer_table_exact [of demo_sqlite "[peer_row (PeerInfo 1 0xC0A80001 0 0 True)]" "[PeerInfo 1 0xC0A80001 0 0 True]"]
  by (simp add: demo_sqlite_def fields_def PeerInfo_def)

end
