(* ===== verification/Startup.thy ===== *)
theory Startup
  imports Wire Config Models
begin

text \<open>
  \<open>worker.h\<close>, \<open>entrypoint.cpp\<close> and the loops of the two daemons: how a node comes up, serves its
  connections, runs its state machine and goes down. The thread library is a parameter: \<open>pthread_create\<close>
  gives a result and a thread identifier for the daemon whose work it is to run, and \<open>pthread_join\<close>
  a result for a thread identifier, or hangs. Log messages are not part of the model.
\<close>

section \<open>Daemons\<close>









section \<open>The state machine daemon\<close>

text \<open>The turns of the loop until \<open>alive\<close> is cleared, each with its two exchanges.\<close>

fun machine_turns :: "(exchange \<times> exchange) list \<Rightarrow> (gallocy_state, unit) op" where
  "machine_turns [] = ok ()"
| "machine_turns ((votes, beats) # turns) =
     seq (work_turn votes beats) (\<lambda>_. machine_turns turns)"

definition machine_work :: "(exchange \<times> exchange) list \<Rightarrow> (gallocy_state option, unit) op" where
  "machine_work turns g =
     (case g of
        None \<Rightarrow> Inl Aborted
      | Some s \<Rightarrow>
          rbind (machine_turns turns (s\<lparr>timer := timer_start (timer s)\<rparr>)) (\<lambda>(_, s). Inr ((), Some s)))"

section \<open>The server daemon\<close>

definition error_die :: "('s, 'a) op" where
  "error_die = die Exited"

record accepted =
  client_sock :: int
  client_name :: sockaddr_in
  client_data :: "string list"
  client_thread :: int
  client_send :: int
  client_alive :: bool

text \<open>
  \<open>handle_entry\<close> runs \<open>handle\<close> for one connection; a failing \<open>send\<close> ends the process. The server joins
  the thread at once, so connections are handled one after the other; when the thread cannot be made,
  the server joins a thread identifier that was never set.
\<close>

definition handle_entry :: "handler node \<Rightarrow> accepted \<Rightarrow> (gallocy_state, string) op" where
  "handle_entry table c =
     seq (handle table (client_data c) (client_name c))
       (\<lambda>out. if client_send c = - 1 then error_die else ok out)"

text \<open>
  The loop reads \<open>alive\<close>, then waits in \<open>accept\<close>. \<open>client_alive\<close> is what it reads after a connection is
  done. When the connections are used up, it waits in \<open>accept\<close>; when it reads that \<open>alive\<close> is not
  set, it returns.
\<close>

datatype loop_end = Waiting | Returned

fun server_accept :: "handler node \<Rightarrow> bool \<Rightarrow> accepted list \<Rightarrow> (gallocy_state, string list \<times> loop_end) op" where
  "server_accept table False cs = ok ([], Returned)"
| "server_accept table True [] = ok ([], Waiting)"
| "server_accept table True (c # cs) =
     (if client_sock c = - 1 then error_die
      else if client_thread c \<noteq> 0 then die Undefined
      else seq (handle_entry table c)
             (\<lambda>out. seq (server_accept table (client_alive c) cs) (\<lambda>(outs, e). ok (out # outs, e))))"

record server_sys =
  srv_socket :: int
  srv_bind :: int
  srv_listen :: int

definition server_work ::
  "server_sys \<Rightarrow> handler node \<Rightarrow> bool \<Rightarrow> accepted list \<Rightarrow> (gallocy_state, string list \<times> loop_end) op" where
  "server_work sys table live cs =
     (if srv_socket sys = - 1 then error_die
      else if srv_bind sys < 0 then error_die
      else if srv_listen sys < 0 then error_die
      else server_accept table live cs)"

section \<open>Coming up and going down\<close>








section \<open>Serving connections\<close>

lemma func_at_register:
  assumes "node_at qs (register_parts ps h t) = Some n" and "func n = Some h'"
  shows "h' = h \<or> (\<exists>n'. node_at qs t = Some n' \<and> func n' = Some h')"
  using assms by (auto simp: node_at_register func_register new_node_def split: if_splits option.splits)

lemma server_match_only:
  assumes "match_route path (server_table ex) = Inr (h, args)"
  shows "h \<in> {route_admin, route_request_vote, route_append_entries, route_request ex}"
proof -
  obtain q qs where "split path (CHR ''/'') = q # qs"
    using assms by (cases "split path (CHR ''/'')") (auto simp: match_route_def)
  from match_route_fixed [OF server_table_fixed this, of ex] assms
  obtain n where n: "node_at qs (server_table ex) = Some n" "func n = Some h"
    by (auto split: option.splits)
  have "\<not> (\<exists>n'. node_at qs (new_node :: handler node) = Some n' \<and> func n' = Some h)"
    by (cases qs) (auto simp: new_node_def get_item_def node_at.simps)
  then show ?thesis
    using n unfolding server_table_def by (fast dest: func_at_register)
qed

lemma handle_keeps:
  "growth.keeps (handle (server_table ex) chunks name)" "terms.keeps (handle (server_table ex) chunks name)"
proof -
  have "growth.keeps (h args r) \<and> terms.keeps (h args r)"
    if "match_route path (server_table ex) = Inr (h, args)" for path h args r
    using server_match_only [OF that] handler_keeps route_request_keeps by auto
  then show "growth.keeps (handle (server_table ex) chunks name)"
    and "terms.keeps (handle (server_table ex) chunks name)"
    by (fastforce simp: growth.keeps_def terms.keeps_def handle_def rbind_eq_Inr split: prod.splits)+
qed

lemma die_keeps:
  "growth.keeps error_die" "terms.keeps error_die" "growth.keeps (die e)" "terms.keeps (die e)"
  by (simp_all add: growth.keeps_def terms.keeps_def error_die_def die_def)

lemma server_accept_keeps:
  "growth.keeps (server_accept (server_table ex) live cs) \<and> terms.keeps (server_accept (server_table ex) live cs)"
proof (induction "server_table ex" live cs rule: server_accept.induct)
  case (3 c cs)
  then show ?case
    unfolding server_accept.simps handle_entry_def case_prod_beta
    by (auto intro!: growth.keeps_seq terms.keeps_seq handle_keeps growth.keeps_ok terms.keeps_ok die_keeps)
qed (simp_all add: growth.keeps_def terms.keeps_def growth.refl terms.refl)

text \<open>
  The connections the loop accepts; answers to connections, each given in the state that the ones
  before left; and the ways in which a connection ends the process.
\<close>

fun taken :: "bool \<Rightarrow> accepted list \<Rightarrow> accepted list" where
  "taken True (c # cs) = c # taken (client_alive c) cs"
| "taken _ _ = []"

inductive answers :: "handler node \<Rightarrow> gallocy_state \<Rightarrow> accepted list \<Rightarrow> string list \<Rightarrow> gallocy_state \<Rightarrow> bool" for table where
  none: "answers table s [] [] s"
| next_one: "handle table (client_data c) (client_name c) s = Inr (out, s1) \<Longrightarrow> answers table s1 cs outs s' \<Longrightarrow>
    answers table s (c # cs) (out # outs) s'"

definition connection_ok :: "accepted \<Rightarrow> bool" where
  "connection_ok c \<longleftrightarrow> client_sock c \<noteq> - 1 \<and> client_thread c = 0 \<and> client_send c \<noteq> - 1"

definition connection_fails :: "handler node \<Rightarrow> gallocy_state \<Rightarrow> accepted \<Rightarrow> crash \<Rightarrow> bool" where
  "connection_fails table s c e \<longleftrightarrow>
     (if client_sock c = - 1 then e = Exited
      else if client_thread c \<noteq> 0 then e = Undefined
      else case handle table (client_data c) (client_name c) s of
             Inl e' \<Rightarrow> e = e'
           | Inr _ \<Rightarrow> client_send c = - 1 \<and> e = Exited)"

lemma server_accept_step:
  "server_accept table True (c # cs) s =
     (if client_sock c = - 1 then Inl Exited
      else if client_thread c \<noteq> 0 then Inl Undefined
      else case handle table (client_data c) (client_name c) s of
             Inl e \<Rightarrow> Inl e
           | Inr (out, s1) \<Rightarrow>
               if client_send c = - 1 then Inl Exited
               else case server_accept table (client_alive c) cs s1 of
                      Inl e \<Rightarrow> Inl e
                    | Inr ((outs, e), s') \<Rightarrow> Inr ((out # outs, e), s'))"
  by (simp add: handle_entry_def seq_def error_die_def die_def ok_def split: sum.split prod.split)

lemma server_accept_answers:
  "server_accept table live cs s = Inr ((outs, e), s') \<Longrightarrow>
     answers table s (taken live cs) outs s' \<and> list_all connection_ok (taken live cs) \<and>
     e = (if live \<and> list_all client_alive cs then Waiting else Returned)"
proof (induction table live cs arbitrary: s outs rule: server_accept.induct)
  case (3 table c cs)
  obtain out s1 outs' where c: "connection_ok c" and h: "handle table (client_data c) (client_name c) s = Inr (out, s1)"
    and r: "server_accept table (client_alive c) cs s1 = Inr ((outs', e), s')" and outs: "outs = out # outs'"
    using 3(2) unfolding server_accept_step by (auto simp: connection_ok_def split: if_splits sum.splits prod.splits)
  from c have "client_sock c \<noteq> - 1" "\<not> client_thread c \<noteq> 0"
    by (simp_all add: connection_ok_def)
  from 3(1) [OF this r] show ?case
    using c answers.next_one [OF h] by (auto simp: outs)
qed (simp_all add: ok_def answers.none)

lemma server_accept_fails:
  "server_accept table live cs s = Inl e \<Longrightarrow>
     \<exists>before c after outs s1. taken live cs = before @ c # after \<and> answers table s before outs s1 \<and>
       list_all connection_ok before \<and> connection_fails table s1 c e"
proof (induction table live cs arbitrary: s rule: server_accept.induct)
  case (3 table c cs)
  show ?case
  proof (cases "connection_fails table s c e")
    case True
    then show ?thesis
      using answers.none [of table s] by (intro exI [of _ "[]"]) auto
  next
    case False
    then obtain out s1 where c: "connection_ok c" and h: "handle table (client_data c) (client_name c) s = Inr (out, s1)"
      and r: "server_accept table (client_alive c) cs s1 = Inl e"
      using 3(2) unfolding server_accept_step
      by (auto simp: connection_ok_def connection_fails_def split: if_splits sum.splits prod.splits)
    from c have "client_sock c \<noteq> - 1" "\<not> client_thread c \<noteq> 0"
      by (simp_all add: connection_ok_def)
    from 3(1) [OF this r] obtain before d after outs s2 where "taken (client_alive c) cs = before @ d # after"
      "answers table s1 before outs s2" "list_all connection_ok before" "connection_fails table s2 d e"
      by blast
    then show ?thesis
      using c answers.next_one [OF h]
      by (intro exI [of _ "c # before"] exI [of _ d] exI [of _ after] exI [of _ "out # outs"] exI [of _ s2]) simp
  qed
qed (simp_all add: ok_def)

text \<open>
  C30. The server loop. When the socket cannot be made, bound or listened on, the process ends. Otherwise
  the loop accepts connections until it reads that \<open>alive\<close> is not set, answers each of them in the order
  of their arrival with what \<open>handle\<close> says in the state that the earlier ones left, and then waits for the next
  connection if \<open>alive\<close> was set at every test, or returns. The log only grows, nothing that was applied
  is taken back and the term never falls. If the process ends early, then at the first
  connection that fails, with all before it answered, and in one of these ways: \<open>accept\<close> or \<open>send\<close> failed, the
  thread could not be made, or handling the request fails.
\<close>

theorem server_loop:
  "if srv_socket sys = - 1 \<or> srv_bind sys < 0 \<or> srv_listen sys < 0
   then server_work sys (server_table ex) live cs s = Inl Exited
   else case server_work sys (server_table ex) live cs s of
     Inr ((outs, e), s') \<Rightarrow>
       answers (server_table ex) s (taken live cs) outs s' \<and> list_all connection_ok (taken live cs) \<and>
       e = (if live \<and> list_all client_alive cs then Waiting else Returned) \<and>
       grows s s' \<and> current_term s \<le> current_term s'
   | Inl e \<Rightarrow>
       (\<exists>before c after outs s1. taken live cs = before @ c # after \<and> answers (server_table ex) s before outs s1 \<and>
          list_all connection_ok before \<and> connection_fails (server_table ex) s1 c e)"
proof -
  have grow: "grows s s' \<and> term_le s s'" if "server_accept (server_table ex) live cs s = Inr (r, s')" for r s'
    using that server_accept_keeps growth.keepsD terms.keepsD by metis
  show ?thesis
  proof (cases "server_accept (server_table ex) live cs s")
    case (Inl e)
    then show ?thesis
      using server_accept_fails [OF Inl] by (auto simp: server_work_def error_die_def die_def)
  next
    case (Inr r)
    obtain outs e s' where r: "server_accept (server_table ex) live cs s = Inr ((outs, e), s')"
      using Inr by (cases r) auto
    then show ?thesis
      using server_accept_answers [OF r] grow [OF r] by (auto simp: server_work_def term_le_def error_die_def die_def)
  qed
qed

section \<open>A node that nobody answers\<close>

definition silence :: exchange where
  "silence rs = map no_answer rs"

lemma multirequest_silence: "multirequest request_vote_callback (map no_answer rs) n s = Inr (n, s)"
  by (induction rs) (simp_all add: no_answer_def request_vote_callback_def response_of_rest_def)

lemma raft_request_silence:
  "raft_request request_vote_callback (silence rs) s = Inr (length (peer_list s) \<le> 1, s)"
  "raft_request append_entries_callback (silence rs) s = Inr (length (peer_list s) \<le> 1, s)"
  by (auto simp: raft_request_def silence_def multirequest_silence multirequest_no_answer Let_def)

lemma heartbeat_silence:
  assumes "log s = []" and "commit_index s = 0" and "last_applied s = 0"
  shows "send_heartbeat silence s = Inr (length (peer_list s) \<le> 1, s)"
  using assms
  by (auto simp: send_heartbeat_def send_append_entries_def append_requests_def get_previous_log_index_def
      get_previous_log_term_def append_to_log_def leader_commit_def Let_def seq_def raft_request_silence
      try_apply_def)

definition quiet :: "gallocy_state \<Rightarrow> bool" where
  "quiet s \<longleftrightarrow> log s = [] \<and> commit_index s = 0 \<and> last_applied s = 0"

lemma quiet_fields [simp]:
  "quiet (set_state r s) = quiet s" "quiet (reset_timer s) = quiet s" "quiet (set_voted_for p s) = quiet s"
  "quiet (s\<lparr>current_term := t\<rparr>) = quiet s" "quiet (s\<lparr>timer := tm\<rparr>) = quiet s"
  by (simp_all add: quiet_def)

lemma silent_candidate:
  assumes "quiet s"
  shows "\<exists>r s'. state_candidate silence silence s = Inr (r, s') \<and> quiet s' \<and>
    r = (if length (peer_list s) \<le> 1 then LEADER else CANDIDATE) \<and>
    current_term s' = current_term s + 1 \<and> peer_list s' = peer_list s"
proof -
  let ?s = "s\<lparr>current_term := current_term s + 1\<rparr>"
  have v: "send_request_vote silence s = Inr (length (peer_list s) \<le> 1, ?s)"
    by (simp add: send_request_vote_def increment_current_term_def raft_request_silence)
  show ?thesis
  proof (cases "length (peer_list s) \<le> 1")
    case True
    let ?l = "reset_timer (set_state LEADER ?s)"
    have "quiet ?l"
      using assms by simp
    then have "send_heartbeat silence ?l = Inr (length (peer_list ?l) \<le> 1, ?l)"
      unfolding quiet_def by (intro heartbeat_silence) simp_all
    then show ?thesis
      using True assms v by (simp add: state_candidate_def state_leader_def seq_def)
  next
    case False
    then show ?thesis
      using assms v by (simp add: state_candidate_def seq_def)
  qed
qed

lemma silent_turn:
  assumes "quiet s"
  shows "\<exists>s'. work_turn silence silence s = Inr ((), s') \<and> quiet s' \<and> peer_list s' = peer_list s \<and>
    (if state s = LEADER then state s' = LEADER \<and> current_term s' = current_term s
     else state s' = (if length (peer_list s) \<le> 1 then LEADER else CANDIDATE) \<and>
          current_term s' = current_term s + 1)"
proof (cases "state s = LEADER")
  case True
  have "send_heartbeat silence s = Inr (length (peer_list s) \<le> 1, s)"
    using assms unfolding quiet_def by (intro heartbeat_silence) simp_all
  then show ?thesis
    using True assms by (simp add: work_turn_def get_state_def state_leader_def seq_def)
next
  case False
  let ?s = "if get_state s = FOLLOWER then set_state CANDIDATE s else s"
  have c: "get_state ?s = CANDIDATE" "quiet ?s" "peer_list ?s = peer_list s" "current_term ?s = current_term s"
    using False assms by (cases "state s"; simp add: get_state_def)+
  obtain r s1 where "state_candidate silence silence ?s = Inr (r, s1)" and s1: "quiet s1"
    "r = (if length (peer_list s) \<le> 1 then LEADER else CANDIDATE)"
    "current_term s1 = current_term s + 1" "peer_list s1 = peer_list s"
    using silent_candidate [OF c(2), of] c by auto
  then have "work_turn silence silence s = Inr ((), set_state r s1)"
    unfolding work_turn_def Let_def using c(1) by (simp only: raft_state.case) (simp add: seq_def)
  then show ?thesis
    using False s1 by simp
qed

text \<open>
  C28. A node whose requests nobody answers, from its start through any number of elections: with two
  or more peers it stays a candidate and its term is the number of timeouts; with one peer or none it
  is the leader of term 1 after its first timeout, without a single vote.
\<close>

theorem unheard_node:
  "\<exists>s. machine_work (replicate n (silence, silence)) (Some (GallocyState a r peers)) = Inr ((), Some s) \<and>
     log s = [] \<and>
     (if n = 0 then state s = FOLLOWER \<and> current_term s = 0
      else if length peers \<le> 1 then state s = LEADER \<and> current_term s = 1
      else state s = CANDIDATE \<and> current_term s = of_nat n)"
proof -
  let ?s0 = "(GallocyState a r peers)\<lparr>timer := timer_start (timer (GallocyState a r peers))\<rparr>"
  have start: "quiet ?s0" "peer_list ?s0 = peers" "state ?s0 = FOLLOWER" "current_term ?s0 = 0"
    by (simp_all add: GallocyState_def quiet_def)
  have turns: "\<exists>s'. machine_turns (replicate n (silence, silence)) s = Inr ((), s') \<and> quiet s' \<and>
      (if state s = LEADER then state s' = LEADER \<and> current_term s' = current_term s
       else if n = 0 then state s' = state s \<and> current_term s' = current_term s
       else if length (peer_list s) \<le> 1 then state s' = LEADER \<and> current_term s' = current_term s + 1
       else state s' = CANDIDATE \<and> current_term s' = current_term s + of_nat n)"
    if "quiet s" for s n
    using that
  proof (induction n arbitrary: s)
    case (Suc n)
    obtain s1 where t: "work_turn silence silence s = Inr ((), s1)" "quiet s1" "peer_list s1 = peer_list s"
      "if state s = LEADER then state s1 = LEADER \<and> current_term s1 = current_term s
       else state s1 = (if length (peer_list s) \<le> 1 then LEADER else CANDIDATE) \<and> current_term s1 = current_term s + 1"
      using silent_turn [OF Suc.prems] by blast
    have run: "machine_turns (replicate (Suc n) (silence, silence)) s =
        machine_turns (replicate n (silence, silence)) s1"
      using t(1) by (simp add: seq_def)
    obtain s2 where s2: "machine_turns (replicate n (silence, silence)) s1 = Inr ((), s2)" "quiet s2"
      "if state s1 = LEADER then state s2 = LEADER \<and> current_term s2 = current_term s1
       else if n = 0 then state s2 = state s1 \<and> current_term s2 = current_term s1
       else if length (peer_list s1) \<le> 1 then state s2 = LEADER \<and> current_term s2 = current_term s1 + 1
       else state s2 = CANDIDATE \<and> current_term s2 = current_term s1 + of_nat n"
      using Suc.IH [OF t(2)] by blast
    show ?case
    proof (intro exI [of _ s2] conjI)
      show "machine_turns (replicate (Suc n) (silence, silence)) s = Inr ((), s2)"
        unfolding run by (rule s2(1))
      show "if state s = LEADER then state s2 = LEADER \<and> current_term s2 = current_term s
          else if Suc n = 0 then state s2 = state s \<and> current_term s2 = current_term s
          else if length (peer_list s) \<le> 1 then state s2 = LEADER \<and> current_term s2 = current_term s + 1
          else state s2 = CANDIDATE \<and> current_term s2 = current_term s + of_nat (Suc n)"
        using s2(3) t(4) unfolding t(3)
        by (cases "state s = LEADER"; cases "length (peer_list s) \<le> 1"; cases "n = 0")
          (simp_all only: if_True if_False refl simp_thms raft_state.distinct nat.distinct of_nat_Suc semiring_1_class.of_nat_0
            add_0_right add_0_left ac_simps)
    qed (rule s2(2))
  qed auto
  from turns [OF start(1), of n] show ?thesis
    using start(2-4) by (auto simp: machine_work_def quiet_def split: if_splits)
qed

section \<open>From the configuration file to a node and back\<close>







end
