(* ===== verification/RaftRace.thy ===== *)
theory RaftRace
  imports RaftProps
begin

text \<open>
  \<open>try_grant_vote\<close> of \<open>consensus/state.cpp\<close> with another thread. Each getter and setter takes the lock of the
  state, but the call holds it across none of them: between two accesses the thread of the state
  machine may run its own. A schedule says which thread takes the next step; a step of the other
  thread is any function on the state.
\<close>

record vote_request =
  vr_candidate :: peer
  vr_commit_index :: u64
  vr_term :: u64
  vr_last_applied :: u64

datatype vote_pc =
    Get_voted_for
  | Get_commit_index peer
  | Get_current_term peer u64
  | Get_last_applied peer u64 u64
  | Set_current_term
  | Set_voted_for
  | Reset_timer
  | Done bool

definition vote_decision :: "vote_request \<Rightarrow> peer \<Rightarrow> u64 \<Rightarrow> u64 \<Rightarrow> u64 \<Rightarrow> bool" where
  "vote_decision r local_voted_for local_commit_index local_current_term local_last_applied \<longleftrightarrow>
     \<not> vr_term r < local_current_term \<and>
     (peer_eq local_voted_for no_peer \<or> peer_eq local_voted_for (vr_candidate r)) \<and>
     vr_last_applied r \<ge> local_last_applied \<and> vr_commit_index r \<ge> local_commit_index"

fun vote_step :: "vote_request \<Rightarrow> vote_pc \<times> gallocy_state \<Rightarrow> vote_pc \<times> gallocy_state" where
  "vote_step r (Get_voted_for, s) = (Get_commit_index (get_voted_for s), s)"
| "vote_step r (Get_commit_index v, s) = (Get_current_term v (get_commit_index s), s)"
| "vote_step r (Get_current_term v c, s) = (Get_last_applied v c (get_current_term s), s)"
| "vote_step r (Get_last_applied v c t, s) =
     (if vote_decision r v c t (get_last_applied s) then Set_current_term else Done False, s)"
| "vote_step r (Set_current_term, s) = (Set_voted_for, set_current_term (vr_term r) s)"
| "vote_step r (Set_voted_for, s) = (Reset_timer, set_voted_for (vr_candidate r) s)"
| "vote_step r (Reset_timer, s) = (Done True, reset_timer s)"
| "vote_step r (Done b, s) = (Done b, s)"

datatype turn = Voter | Other "gallocy_state \<Rightarrow> gallocy_state"

fun vote_race :: "vote_request \<Rightarrow> turn list \<Rightarrow> vote_pc \<times> gallocy_state \<Rightarrow> vote_pc \<times> gallocy_state" where
  "vote_race r [] p = p"
| "vote_race r (Voter # ts) p = vote_race r ts (vote_step r p)"
| "vote_race r (Other f # ts) p = vote_race r ts (fst p, f (snd p))"

text \<open>Undisturbed, seven steps are the whole call.\<close>

theorem vote_race_undisturbed:
  "vote_race r (replicate 7 Voter) (Get_voted_for, s) =
     (case try_grant_vote (vr_candidate r) (vr_commit_index r) (vr_term r) (vr_last_applied r) s of
        (granted, s') \<Rightarrow> (Done granted, s'))"
  by (auto simp: numeral_eq_Suc try_grant_vote_def vote_decision_def Let_def)

text \<open>
  A vote for the current term that the node would grant, while its state machine starts an election between
  the four reads and the writes: the vote is granted all the same, and the term of the node falls
  back below that of its own election.
\<close>

theorem vote_race_lowers_term:
  assumes "fst (try_grant_vote (vr_candidate r) (vr_commit_index r) (vr_term r) (vr_last_applied r) s)"
    and "vr_term r = current_term s" and "current_term s \<noteq> - 1"
  shows "\<exists>s'. vote_race r (replicate 4 Voter @ [Other (\<lambda>s. snd (increment_current_term s))] @ replicate 3 Voter)
        (Get_voted_for, s) = (Done True, s') \<and>
      current_term s' < current_term (snd (increment_current_term s)) \<and> voted_for s' = vr_candidate r"
proof -
  have "vote_decision r (get_voted_for s) (get_commit_index s) (get_current_term s) (get_last_applied s)"
    using assms(1) by (auto simp: try_grant_vote_def vote_decision_def Let_def split: if_splits)
  moreover have "current_term s < current_term s + 1"
  proof -
    have "unat (current_term s) < 2 ^ 64 - 1"
      using assms(3) word_order.not_eq_extremum [of "current_term s"]
      by (simp add: word_less_nat_alt unsigned_minus_1_eq_mask mask_eq_exp_minus_1)
    then show ?thesis
      by (simp add: word_less_nat_alt unat_add_small)
  qed
  ultimately show ?thesis
    using assms(2) by (simp add: numeral_eq_Suc increment_current_term_def)
qed

theorem vote_race_lowers_term_witness:
  "\<exists>s'. vote_race \<lparr>vr_candidate = Peer 1 8080, vr_commit_index = 0, vr_term = 0, vr_last_applied = 0\<rparr>
        (replicate 4 Voter @ [Other (\<lambda>s. snd (increment_current_term s))] @ replicate 3 Voter)
        (Get_voted_for, GallocyState True False [Peer 1 8080]) = (Done True, s') \<and>
      current_term s' < 1"
  using vote_race_lowers_term [of "\<lparr>vr_candidate = Peer 1 8080, vr_commit_index = 0, vr_term = 0, vr_last_applied = 0\<rparr>"
      "GallocyState True False [Peer 1 8080]"]
  by (auto simp: try_grant_vote_def GallocyState_def raft_getters increment_current_term_def peer_eq_def)

end
