(* ===== verification/JsonSafety.thy ===== *)
theory JsonSafety
  imports JsonText
begin

text \<open>
  What the parser of the JSON library does on any text: it ends, what it returns is well-formed, and it
  stays inside its buffer, with two exceptions that are shown to be real: a surrogate pair in a string,
  and a number that is too large for \<open>int64_t\<close>.
\<close>

section \<open>String tokens\<close>

text \<open>The characters between the quotes of a string token.\<close>

inductive str_body :: "string \<Rightarrow> bool" where
  body_Nil: "str_body []"
| body_plain: "is_plain c \<Longrightarrow> str_body s \<Longrightarrow> str_body (c # s)"
| body_simple: "e \<in> set simple_escapes \<Longrightarrow> str_body s \<Longrightarrow> str_body (CHR 0x5C # e # s)"
| body_unicode: "is_hex a \<Longrightarrow> is_hex b \<Longrightarrow> is_hex c \<Longrightarrow> is_hex d \<Longrightarrow> str_body s \<Longrightarrow>
    str_body (CHR 0x5C # CHR ''u'' # a # b # c # d # s)"

definition closed :: "string \<Rightarrow> string \<Rightarrow> bool" where
  "closed p q \<longleftrightarrow> (\<exists>body. p = body @ CHR 0x22 # q \<and> str_body body)"

lemma closed_intros:
  "closed (CHR 0x22 # q) q"
  "is_plain c \<Longrightarrow> closed p q \<Longrightarrow> closed (c # p) q"
  "e \<in> set simple_escapes \<Longrightarrow> closed p q \<Longrightarrow> closed (CHR 0x5C # e # p) q"
  "is_hex a \<Longrightarrow> is_hex b \<Longrightarrow> is_hex c \<Longrightarrow> is_hex d \<Longrightarrow> closed p q \<Longrightarrow>
     closed (CHR 0x5C # CHR ''u'' # a # b # c # d # p) q"
  unfolding closed_def
  by (auto intro: body_Nil, metis append_Cons body_plain, metis append_Cons body_simple, metis append_Cons body_unicode)

lemma quote_class: "\<not> is_plain c \<Longrightarrow> \<not> char_code c \<le> 15 \<Longrightarrow> char_code c \<le> 34 \<Longrightarrow> c = CHR 0x22"
  "\<not> is_plain c \<Longrightarrow> \<not> char_code c \<le> 34 \<Longrightarrow> c = CHR 0x5C"
  using char_code_eq_iff [of c "CHR 0x22"] char_code_eq_iff [of c "CHR 0x5C"]
  by (auto simp: is_plain_def char_code_def)

lemma scan_31_closed:
  "scan_31 p = Inr (Some q) \<Longrightarrow> closed p q"
  "scan_33 p1 = Inr (Some q) \<Longrightarrow> closed (CHR 0x5C # p1) q"
  "scan_36 p2 = Inr (Some q) \<Longrightarrow> closed (CHR 0x5C # CHR ''u'' # p2) q"
  "scan_37 p3 = Inr (Some q) \<Longrightarrow> (\<forall>a. is_hex a \<longrightarrow> closed (CHR 0x5C # CHR ''u'' # a # p3) q)"
  "scan_38 p4 = Inr (Some q) \<Longrightarrow> (\<forall>a b. is_hex a \<longrightarrow> is_hex b \<longrightarrow> closed (CHR 0x5C # CHR ''u'' # a # b # p4) q)"
  "scan_39 p5 = Inr (Some q) \<Longrightarrow>
     (\<forall>a b c. is_hex a \<longrightarrow> is_hex b \<longrightarrow> is_hex c \<longrightarrow> closed (CHR 0x5C # CHR ''u'' # a # b # c # p5) q)"
  by (induction p and p1 and p2 and p3 and p4 and p5 rule: scan_31_scan_33_scan_36_scan_37_scan_38_scan_39.induct)
    (auto split: if_splits intro: closed_intros dest: quote_class)

lemma scan_string_token:
  "scan p = Inr (value_string, start, q) \<Longrightarrow> \<exists>p'. start = CHR 0x22 # p' \<and> closed p' q"
proof (induction p rule: scan.induct)
  case (2 c p)
  show ?case
  proof (cases "is_blank c \<and> c \<noteq> nul")
    case True
    then show ?thesis
      using 2 by (auto simp: scan.simps(2) [of c] split: sum.splits)
  next
    case False
    then show ?thesis
      using 2(2) by (auto simp: scan.simps(2) [of c] accept_def rbind_eq_Inr
          dest!: scan_31_closed(1) split: if_splits option.splits)
  qed
qed (simp add: scan.simps)

section \<open>Reading a string\<close>

text \<open>A place in the text where an escape of a high surrogate starts.\<close>

definition high_surrogate :: "string \<Rightarrow> bool" where
  "high_surrogate p \<longleftrightarrow>
     (\<exists>a b c d q. p = CHR 0x5C # CHR ''u'' # a # b # c # d # q \<and> list_all is_hex [a, b, c, d] \<and>
        0xD800 \<le> strtoul16 [a, b, c, d] \<and> strtoul16 [a, b, c, d] \<le> 0xDBFF)"

lemma to_unicode_bmp:
  "n \<le> 0xFFFF \<Longrightarrow> \<not> (0xD800 \<le> n \<and> n \<le> 0xDBFF) \<Longrightarrow> \<exists>s. to_unicode n 0 = Inr s"
  unfolding to_unicode_def by (auto simp: rbind_def)

lemma digit_value_hex: "is_hex c \<Longrightarrow> digit_value c < 16"
  by (auto simp: is_hex_def digit_value_def isdigit_def)

lemma is_hex_not: "is_hex c \<Longrightarrow> \<not> isspace c \<and> c \<noteq> CHR ''-'' \<and> c \<noteq> CHR ''+'' \<and> c \<noteq> CHR ''x'' \<and> c \<noteq> CHR ''X''"
  by (auto simp: is_hex_def isdigit_def isspace_def char_code_def)

lemma strtoul16_hex4:
  assumes "is_hex a" "is_hex b" "is_hex c" "is_hex d"
  shows "strtoul16 [a, b, c, d] \<le> 0xFFFF"
proof -
  have "strtoul16 [a, b, c, d] = ((digit_value a * 16 + digit_value b) * 16 + digit_value c) * 16 + digit_value d"
    using assms is_hex_not [of a] is_hex_not [of b] by (simp add: strtoul16_def strip_sign_def digits_value_def)
  then show ?thesis
    using assms [THEN digit_value_hex] by simp
qed

lemma unescape_u_bmp:
  assumes "is_hex a" "is_hex b" "is_hex c" "is_hex d"
    and "\<not> high_surrogate (CHR 0x5C # CHR ''u'' # a # b # c # d # p)"
  shows "\<exists>s. unescape_u (CHR ''u'' # a # b # c # d # p) = Inr (s, 5)"
proof -
  let ?n = "strtoul16 [a, b, c, d]"
  have n: "\<not> (0xD800 \<le> ?n \<and> ?n \<le> 0xDBFF)"
    using assms by (auto simp: high_surrogate_def)
  obtain s where "to_unicode ?n 0 = Inr s"
    using to_unicode_bmp [OF strtoul16_hex4 n] assms by blast
  then show ?thesis
    using n by (auto simp: unescape_u_def read_hex4_def)
qed

lemma unescape_body:
  assumes "str_body body" "\<forall>p. suffix p (body @ q) \<longrightarrow> \<not> high_surrogate p"
  shows "\<exists>s. unescape (body @ q) (length body) res = Inr s"
  using assms
proof (induction body arbitrary: res rule: str_body.induct)
  case (body_plain c s)
  then have "c \<noteq> CHR 0x5C"
    by auto
  then show ?case
    using body_plain by (subst unescape.simps) (auto simp: suffix_Cons)
next
  case (body_simple e s)
  then have "e \<noteq> CHR ''u''"
    by (auto simp: simple_escapes_def)
  then show ?case
    using body_simple by (subst unescape.simps) (auto simp: suffix_Cons)
next
  case (body_unicode a b c d s)
  then have "\<not> high_surrogate (CHR 0x5C # CHR ''u'' # a # b # c # d # s @ q)"
    by (auto simp: suffix_Cons)
  then obtain x where "unescape_u (CHR ''u'' # a # b # c # d # s @ q) = Inr (x, 5)"
    using unescape_u_bmp body_unicode.hyps by blast
  then show ?case
    using body_unicode by (subst unescape.simps) (auto simp: suffix_Cons numeral_eq_Suc)
qed (simp add: unescape.simps)

section \<open>The parser\<close>

text \<open>
  The two hazards of a buffer: a high surrogate, and a number outside of \<open>int64_t\<close>. Without them the
  only exception is \<open>std::invalid_argument\<close>.
\<close>

definition hazard :: "string \<Rightarrow> bool" where
  "hazard buf \<longleftrightarrow> (\<exists>p. suffix p buf \<and> (high_surrogate p \<or> to_int64 (fst (strtold p)) = Inl Undefined))"

definition fault :: "string \<Rightarrow> crash \<Rightarrow> bool" where
  "fault buf e \<longleftrightarrow>
     e = Uncaught invalid_argument \<or> hazard buf \<and> (e = Undefined \<or> e = Uncaught out_of_range)"

text \<open>The states of the parser: the cursor is in the buffer, and a string token is closed.\<close>

definition live :: "string \<Rightarrow> json_parser \<Rightarrow> bool" where
  "live buf st \<longleftrightarrow>
     suffix (m_start st) buf \<and> suffix (m_cursor st) buf \<and>
     (last_token st = end_of_input \<or> nul \<in> set (m_cursor st)) \<and>
     (last_token st = value_string \<longrightarrow> (\<exists>p. m_start st = CHR 0x22 # p \<and> closed p (m_cursor st)))"

definition good :: "string \<Rightarrow> ('a \<Rightarrow> bool) \<Rightarrow> nat \<Rightarrow> ('a \<times> json_parser) result \<Rightarrow> bool" where
  "good buf P len r =
     (case r of
        Inl e \<Rightarrow> fault buf e
      | Inr (v, st) \<Rightarrow> P v \<and> live buf st \<and> length (m_cursor st) < len)"

lemma good_simps [simp]:
  "good buf P len (Inl e) \<longleftrightarrow> fault buf e"
  "good buf P len (Inr (v, st)) \<longleftrightarrow> P v \<and> live buf st \<and> length (m_cursor st) < len"
  by (simp_all add: good_def)

lemma fault_invalid [simp]: "fault buf (Uncaught invalid_argument)"
  by (simp add: fault_def)

lemma good_rbind:
  assumes "\<And>e. m = Inl e \<Longrightarrow> fault buf e" "\<And>x. m = Inr x \<Longrightarrow> good buf P len (f x)"
  shows "good buf P len (rbind m f)"
  using assms by (cases m) auto

lemma good_bind:
  assumes "good buf Q len' m" "\<And>v st. Q v \<Longrightarrow> live buf st \<Longrightarrow> length (m_cursor st) < len' \<Longrightarrow> good buf P len (f (v, st))"
  shows "good buf P len (rbind m f)"
  using assms by (cases m) (auto simp: good_def)

lemma get_token_live:
  assumes "live buf st" "last_token st \<noteq> end_of_input"
  obtains st' where "get_token st = Inr st'" "live buf st'" "length (m_cursor st') < length (m_cursor st)"
proof -
  have cur: "nul \<in> set (m_cursor st)" "suffix (m_cursor st) buf"
    using assms by (auto simp: live_def)
  obtain t start q where scan: "scan (m_cursor st) = Inr (t, start, q)"
    and q: "suffix start (m_cursor st)" "start \<noteq> []" "suffix q (tl start)" "t = end_of_input \<or> nul \<in> set q"
    using scan_nul_ahead [OF cur(1)] by (auto simp: scanned_def split: sum.splits)
  have suf: "suffix start buf" "suffix q buf" "suffix q start"
    using q cur(2) by (meson suffix_order.trans suffix_tl)+
  have "length q < length start" "length start \<le> length (m_cursor st)"
    using q suffix_length_le [OF q(3)] suffix_length_le [OF q(1)] by (cases start; simp)+
  then show thesis
    using that [of "\<lparr>last_token = t, m_start = start, m_cursor = q\<rparr>"] scan suf q(4) scan_string_token [of "m_cursor st" start q]
    by (auto simp: get_token_def live_def)
qed

lemma good_token:
  assumes "live buf st" "last_token st \<noteq> end_of_input"
    and "\<And>st'. live buf st' \<Longrightarrow> length (m_cursor st') < length (m_cursor st) \<Longrightarrow> good buf P len (f st')"
  shows "good buf P len (rbind (get_token st) f)"
  using get_token_live [OF assms(1,2)] assms(3) by (metis rbind_simps(2))

lemma good_expect:
  "(last_token st = t \<Longrightarrow> good buf P len (f ())) \<Longrightarrow> good buf P len (rbind (expect t st) f)"
  "(last_token st \<noteq> t \<Longrightarrow> good buf P len (f ())) \<Longrightarrow> good buf P len (rbind (unexpect t st) f)"
  by (auto simp: expect_def unexpect_def)

lemma to_unicode_errors: "to_unicode a b = Inl e \<Longrightarrow> e = Uncaught invalid_argument \<or> e = Uncaught out_of_range"
  by (auto simp: to_unicode_def rbind_def split: if_splits)

lemma unescape_u_errors:
  "unescape_u p = Inl e \<Longrightarrow> e = Undefined \<or> e = Uncaught invalid_argument \<or> e = Uncaught out_of_range"
  by (auto simp: unescape_u_def rbind_def read_hex4_def dest: to_unicode_errors split: if_splits sum.splits)

lemma unescape_errors:
  "unescape p n res = Inl e \<Longrightarrow> e = Undefined \<or> e = Uncaught invalid_argument \<or> e = Uncaught out_of_range"
proof (induction p n res rule: unescape.induct)
  case (1 p n res)
  show ?case
  proof (cases "n = 0 \<or> p = []")
    case True
    then show ?thesis
      using 1(4) by (auto simp: unescape.simps [of p] split: if_splits)
  next
    case False
    then obtain c p' where p: "p = c # p'"
      by (cases p) auto
    have run: "unescape (c # p') n res = Inl e"
      using 1(4) by (simp add: p)
    note run = run [unfolded unescape.simps [of "c # p'"]]
    consider (plain) "c \<noteq> CHR 0x5C" | (stop) "c = CHR 0x5C" "p' = []"
      | (escape) e' q where "c = CHR 0x5C" "p' = e' # q"
      by (cases p') auto
    then show ?thesis
    proof cases
      case plain
      then show ?thesis
        using 1(1) [of c] run False by (simp add: p)
    next
      case stop
      then show ?thesis
        using run False by simp
    next
      case escape
      then show ?thesis
        using 1(2) [of c e'] 1(3) [of c e'] run False unescape_u_errors [of p']
        by (auto simp: p split: if_splits sum.splits)
    qed
  qed
qed

lemma get_string_fault:
  assumes "live buf st" "last_token st = value_string" "lexer_get_string (m_start st) (m_cursor st) = Inl e"
  shows "fault buf e"
proof -
  obtain body where body: "m_start st = CHR 0x22 # body @ CHR 0x22 # m_cursor st" "str_body body"
    using assms(1,2) by (auto simp: live_def closed_def)
  have suf: "suffix (body @ CHR 0x22 # m_cursor st) buf"
    using assms(1) body(1) by (auto simp: live_def dest: suffix_ConsD)
  have u: "unescape (body @ CHR 0x22 # m_cursor st) (length body) [] = Inl e"
    using assms(3) body(1) by (simp add: lexer_get_string_def)
  have "hazard buf"
  proof (rule ccontr)
    assume "\<not> hazard buf"
    then have "\<forall>p. suffix p (body @ CHR 0x22 # m_cursor st) \<longrightarrow> \<not> high_surrogate p"
      using suf suffix_order.trans unfolding hazard_def by blast
    from unescape_body [OF body(2) this] u show False
      by (metis Inl_Inr_False)
  qed
  then show ?thesis
    using unescape_errors [OF u] by (auto simp: fault_def)
qed

lemma good_string:
  assumes "live buf st" "last_token st = value_string" "\<And>s. good buf P len (f s)"
  shows "good buf P len (rbind (lexer_get_string (m_start st) (m_cursor st)) f)"
  using get_string_fault [OF assms(1,2)] assms(3) by (intro good_rbind)

lemma skip_comma_live:
  assumes "live buf st"
  obtains st' where "skip_comma st = Inr st'" "live buf st'" "length (m_cursor st') \<le> length (m_cursor st)"
proof (cases "last_token st = value_separator")
  case True
  then have "last_token st \<noteq> end_of_input"
    by simp
  from get_token_live [OF assms this] show ?thesis
    using that True by (metis less_imp_le skip_comma_def)
next
  case False
  then show ?thesis
    using that assms by (simp add: skip_comma_def)
qed

lemma parse_key_good: "live buf st \<Longrightarrow> good buf (\<lambda>_. True) (length (m_cursor st)) (parse_key st)"
proof -
  assume "live buf st"
  then obtain st1 where st1: "skip_comma st = Inr st1" "live buf st1" "length (m_cursor st1) \<le> length (m_cursor st)"
    using skip_comma_live by blast
  then show ?thesis
    unfolding parse_key_def st1(1) rbind_simps
    by (intro good_expect(1) good_string good_token) auto
qed

lemma number_value_good:
  assumes "get_number start cursor = Some x" "suffix start buf"
  shows "number_value x = Inl e \<Longrightarrow> fault buf e" and "number_value x = Inr j \<Longrightarrow> json_wf j"
proof -
  have x: "fst (strtold start) = x"
    using assms(1) by (auto simp: get_number_def split: prod.splits if_splits)
  have "to_int64 x = Inl e' \<Longrightarrow> e' = Undefined" for e'
    by (auto simp: to_int64_def float_to_int_def rbind_def split: long_double.splits if_splits)
  moreover have "to_int64 (Infinite b) = Inl Undefined" for b
    by (simp add: to_int64_def float_to_int_def)
  ultimately show "number_value x = Inl e \<Longrightarrow> fault buf e"
    using x assms(2)
    by (auto simp: number_value_def fault_def hazard_def rbind_def split: sum.splits long_double.splits if_splits)
  show "number_value x = Inr j \<Longrightarrow> json_wf j"
    by (auto simp: number_value_def rbind_def split: sum.splits long_double.splits if_splits)
qed

lemma good_number:
  assumes "get_number start cursor = Some x" "suffix start buf" "\<And>j. json_wf j \<Longrightarrow> good buf P len (f j)"
  shows "good buf P len (rbind (number_value x) f)"
  using number_value_good [OF assms(1,2)] assms(3) by (intro good_rbind) auto

lemma parse_scalar_good:
  assumes "live buf st"
  shows "good buf json_wf (length (m_cursor st)) (parse_scalar st)"
proof -
  have start: "suffix (m_start st) buf"
    using assms by (simp add: live_def)
  show ?thesis
    unfolding parse_scalar_def using assms start
    by (cases "last_token st")
      (auto intro!: good_token good_string good_number good_expect split: option.split)
qed

lemma map_ordered_Nil [simp]: "map_ordered []"
  by (simp add: map_ordered_def)

lemma json_wf_set: "json_wf (JObject kvs) \<Longrightarrow> json_wf v \<Longrightarrow> json_wf (JObject (map_set kvs k v))"
  by (simp add: map_ordered_set map_set_values)

lemma json_wf_snoc: "json_wf (JArray xs) \<Longrightarrow> json_wf v \<Longrightarrow> json_wf (JArray (xs @ [v]))"
  by simp

lemma good_mono: "good buf P len r \<Longrightarrow> len \<le> len' \<Longrightarrow> good buf P len' r"
  by (auto simp: good_def split: sum.splits)

lemma parse_good:
  "live buf st \<Longrightarrow> 2 * length (m_cursor st) + 1 \<le> n \<Longrightarrow>
     good buf json_wf (length (m_cursor st)) (parse_internal n st)"
  "live buf st \<Longrightarrow> 2 * length (m_cursor st) + 2 \<le> n \<Longrightarrow> json_wf (JObject kvs) \<Longrightarrow>
     good buf (\<lambda>kvs. json_wf (JObject kvs)) (length (m_cursor st)) (parse_members n kvs st)"
  "live buf st \<Longrightarrow> 2 * length (m_cursor st) + 2 \<le> n \<Longrightarrow> json_wf (JArray xs) \<Longrightarrow>
     good buf (\<lambda>xs. json_wf (JArray xs)) (length (m_cursor st)) (parse_elements n xs st)"
proof (induction n arbitrary: st kvs xs)
  case (Suc n)
  note IH = Suc.IH
  {
    case 1
    have members: "good buf (\<lambda>kvs. json_wf (JObject kvs)) (length (m_cursor st')) (parse_members n [] st')"
      if "live buf st'" "length (m_cursor st') < length (m_cursor st)" for st'
      using that 1 by (intro IH(2)) simp_all
    have elements: "good buf (\<lambda>xs. json_wf (JArray xs)) (length (m_cursor st')) (parse_elements n [] st')"
      if "live buf st'" "length (m_cursor st') < length (m_cursor st)" for st'
      using that 1 by (intro IH(3)) simp_all
    show ?case
      unfolding parse_internal.simps(2)
      using 1 parse_scalar_good
      by (auto intro!: good_token good_expect good_bind [OF members] good_bind [OF elements])
  next
    case 2
    have step: "good buf json_wf (length (m_cursor st')) (parse_internal n st')"
      if "live buf st'" "length (m_cursor st') < length (m_cursor st)" for st'
      using that 2 by (intro IH) auto
    have loop: "good buf (\<lambda>kvs. json_wf (JObject kvs)) (length (m_cursor st)) (parse_members n kvs' st')"
      if "live buf st'" "length (m_cursor st') < length (m_cursor st)" "json_wf (JObject kvs')" for kvs' st'
      using that 2 by (intro good_mono [OF IH(2)]) auto
    show ?case
      unfolding parse_members.simps(2) Let_def
      using 2 json_wf_set
      by (auto intro!: good_bind [OF parse_key_good] good_bind [OF step] loop simp del: json_wf.simps(2))
  next
    case 3
    obtain st1 where st1: "skip_comma st = Inr st1" "live buf st1" "length (m_cursor st1) \<le> length (m_cursor st)"
      using skip_comma_live 3(1) by blast
    have step: "good buf json_wf (length (m_cursor st1)) (parse_internal n st1)"
      using st1 3 by (intro IH) auto
    have loop: "good buf (\<lambda>xs. json_wf (JArray xs)) (length (m_cursor st)) (parse_elements n xs' st')"
      if "live buf st'" "length (m_cursor st') < length (m_cursor st)" "json_wf (JArray xs')" for xs' st'
      using that 3 by (intro good_mono [OF IH(3)]) auto
    show ?case
      unfolding parse_elements.simps(2) Let_def
      using 3 st1 json_wf_snoc by (auto intro!: good_bind [OF step] loop simp del: json_wf.simps(1))
  }
qed simp_all

lemma live_start: "live (s @ [nul]) (at_token (s @ [nul]))"
proof -
  have "live (s @ [nul]) \<lparr>last_token = uninitialized, m_start = s @ [nul], m_cursor = s @ [nul]\<rparr>"
    by (simp add: live_def)
  from get_token_live [OF this] show ?thesis
    by (auto simp: get_token_cursor)
qed

lemma json_parse_outcome:
  "case json_parse s of Inl e \<Rightarrow> fault (s @ [nul]) e | Inr j \<Rightarrow> json_wf j"
proof -
  let ?st = "at_token (s @ [nul])"
  have "length (m_cursor ?st) \<le> length s + 1"
    using live_start [of s] suffix_length_le by (fastforce simp: live_def)
  then have "good (s @ [nul]) json_wf (length (m_cursor ?st)) (parse_internal (2 * length s + 4) ?st)"
    by (intro parse_good live_start) simp
  then show ?thesis
    by (auto simp: json_parse_eq good_def rbind_def expect_def split: sum.splits)
qed

text \<open>
  C17. Parsing any text ends: with a well-formed value, in which the keys of every object are distinct and in
  order, or with the exception \<open>std::invalid_argument\<close>. Only a text with the escape of a high surrogate
  or with a number outside of \<open>int64_t\<close> can do anything else, and even that is not to run forever.
\<close>

theorem json_parse_total:
  "(case json_parse s of
      Inr j \<Rightarrow> json_wf j
    | Inl e \<Rightarrow> e = Uncaught invalid_argument \<or> hazard (s @ [nul]) \<and> (e = Undefined \<or> e = Uncaught out_of_range)) \<and>
   json_parse s \<noteq> Inl Hang"
  using json_parse_outcome [of s] by (auto simp: fault_def split: sum.splits)

section \<open>The hazards are real\<close>

definition surrogate_pair :: string where
  "surrogate_pair = [CHR 0x5C, CHR ''u'', CHR ''d'', CHR ''8'', CHR ''3'', CHR ''d'',
                     CHR 0x5C, CHR ''u'', CHR ''d'', CHR ''e'', CHR ''0'', CHR ''0'']"

definition emoji :: string where
  "emoji = [CHR 0xF0, CHR 0x9F, CHR 0x98, CHR 0x80]"

lemma scan_31_plain: "list_all is_plain s \<Longrightarrow> scan_31 (s @ CHR 0x22 # q) = Inr (Some q)"
  by (induction s) (simp_all add: is_plain_def char_code_def)

lemma scan_31_pair: "scan_31 (surrogate_pair @ p) = scan_31 p"
  by (simp add: surrogate_pair_def simple_escapes_def is_hex_def isdigit_def char_code_def)

lemma unescape_plain:
  "list_all is_plain s \<Longrightarrow> unescape (s @ q) (length s) res = Inr (res @ s)"
proof (induction s arbitrary: res)
  case (Cons c s)
  then have "c \<noteq> CHR 0x5C"
    by auto
  then show ?case
    using Cons by (subst unescape.simps) simp
qed (simp add: unescape.simps)

lemma unescape_u_pair: "unescape_u (tl surrogate_pair @ q) = Inr (emoji, 12)"
proof -
  have "strtoul16 ''d83d'' = 0xD83D" "strtoul16 ''de00'' = 0xDE00"
    by (simp_all add: strtoul16_def strip_sign_def isspace_def is_hex_def isdigit_def char_code_def digits_value_def
        digit_value_def)
  moreover have "to_unicode 0xD83D 0xDE00 = Inr emoji"
    by (simp add: to_unicode_def utf8_tail_def emoji_def push_bit_eq_mult drop_bit_eq_div char_of_def bit_Suc_0_iff)
  ultimately show ?thesis
    by (simp add: unescape_u_def read_hex4_def surrogate_pair_def)
qed

lemma unescape_escape_u:
  "0 < n \<Longrightarrow> unescape (CHR 0x5C # CHR ''u'' # p) n res =
     (case unescape_u (CHR ''u'' # p) of
        Inl x \<Rightarrow> Inl x
      | Inr (s, k) \<Rightarrow> unescape (drop k (CHR ''u'' # p)) (n - 1 - k) (res @ s))"
  by (subst unescape.simps) (simp cong: sum.case_cong)

lemma unescape_pair:
  assumes "12 \<le> n"
  shows "unescape (surrogate_pair @ q) n [] = unescape (drop 1 q) (n - 13) emoji"
proof -
  obtain t where t: "surrogate_pair = CHR 0x5C # CHR ''u'' # t" "length t = 10"
    by (simp add: surrogate_pair_def)
  then have "unescape_u (CHR ''u'' # t @ q) = Inr (emoji, 12)"
    using unescape_u_pair [of q] by (metis append_Cons list.sel(3))
  then show ?thesis
    using assms t(2) unfolding t(1) by (simp add: unescape_escape_u)
qed

text \<open>A text that is one string token.\<close>

lemma json_parse_string:
  assumes "scan_31 (body @ [CHR 0x22, nul]) = Inr (Some [nul])" "body = c # body'" "15 < char_code c"
  shows "json_parse (CHR 0x22 # body @ [CHR 0x22]) =
    rbind (unescape (body @ [CHR 0x22, nul]) (length body) []) (\<lambda>s. Inr (JString s))"
proof -
  have "scan (CHR 0x22 # body @ [CHR 0x22, nul]) = Inr (value_string, CHR 0x22 # body @ [CHR 0x22, nul], [nul])"
    using assms by (simp add: scan.simps(2) accept_def is_blank_def char_code_def) (simp add: nul_def)
  then have "at_token (CHR 0x22 # body @ [CHR 0x22, nul]) =
      \<lparr>last_token = value_string, m_start = CHR 0x22 # body @ [CHR 0x22, nul], m_cursor = [nul]\<rparr>"
    by (simp add: at_token_def)
  then show ?thesis
    by (simp add: json_parse_eq parse_internal_scalar parse_scalar_def lexer_get_string_def get_token_cursor
        at_token_char expect_def rbind_def split: sum.splits)
qed

lemma json_parse_pair:
  assumes "scan_31 (s @ [CHR 0x22, nul]) = Inr (Some [nul])"
  shows "json_parse (CHR 0x22 # surrogate_pair @ s @ [CHR 0x22]) =
    rbind (unescape (drop 1 (s @ [CHR 0x22, nul])) (length s - 1) emoji) (\<lambda>s. Inr (JString s))"
proof -
  have len: "length surrogate_pair = 12"
    by (simp add: surrogate_pair_def)
  have "json_parse (CHR 0x22 # (surrogate_pair @ s) @ [CHR 0x22]) =
      rbind (unescape ((surrogate_pair @ s) @ [CHR 0x22, nul]) (length (surrogate_pair @ s)) []) (\<lambda>s. Inr (JString s))"
    using assms scan_31_pair [of "s @ [CHR 0x22, nul]"]
    by (intro json_parse_string [where c = "CHR 0x5C" and body' = "tl surrogate_pair @ s"])
      (simp_all, simp add: surrogate_pair_def)
  then show ?thesis
    using unescape_pair [of "12 + length s" "s @ [CHR 0x22, nul]"] by (simp add: len)
qed

lemma surrogate_reads_behind:
  "json_parse (CHR 0x22 # surrogate_pair @ [CHR 0x5C, CHR 0x5C, CHR ''u'', CHR 0x22]) = Inl Undefined"
proof -
  have "unescape [CHR 0x5C, CHR ''u'', CHR 0x22, nul] (Suc (Suc 0)) emoji = Inl Undefined"
    by (simp add: unescape_escape_u unescape_u_def read_hex4_def)
  then show ?thesis
    using json_parse_pair [of "[CHR 0x5C, CHR 0x5C, CHR ''u'']"]
    by (simp add: simple_escapes_def is_plain_def char_code_def)
qed

lemma json_parse_digits:
  assumes "n < 2 ^ 64" "2 ^ 63 \<le> n"
  shows "json_parse (show_nat n) = Inl Undefined"
proof -
  have d: "delimiter nul"
    by (simp add: delimiter_def)
  have "at_token (show_nat n @ [nul]) = \<lparr>last_token = value_number, m_start = show_nat n @ [nul], m_cursor = [nul]\<rparr>"
    using scan_digits(1) [OF d, of n "[]"] by (simp add: at_token_def)
  moreover have "get_number (show_nat n @ [nul]) [nul] = Some (Finite False (of_nat n))"
    using strtold_digits(1) [OF d assms(1), of "[]"] by (simp add: get_number_def)
  moreover have "number_value (Finite False (of_nat n)) = Inl Undefined"
  proof -
    have "int (2 ^ 63) \<le> int n"
      using assms(2) by (simp only: of_nat_le_iff)
    then show ?thesis
      by (simp add: number_value_def to_int64_def float_to_int_def toward_zero_def)
  qed
  ultimately show ?thesis
    by (simp add: json_parse_eq parse_internal_scalar parse_scalar_def get_token_cursor)
qed

text \<open>
  C18. The two hazards are real. Behind a surrogate pair the next character of the string is lost, because
  the loop skips eleven characters where ten belong to the pair; when that character is the first of an
  escaped backslash in front of the letter u, four characters are read that may lie behind the text.
  And a number of 64 bits that is too large for \<open>int64_t\<close> is converted to it before it is known to fit.
\<close>

theorem json_parse_hazards:
  assumes "list_all is_plain (c # s)" and "2 ^ 63 \<le> n" and "n < 2 ^ 64"
  shows "json_parse (CHR 0x22 # surrogate_pair @ (c # s) @ [CHR 0x22]) = Inr (JString (emoji @ s)) \<and>
    json_parse (CHR 0x22 # surrogate_pair @ [CHR 0x5C, CHR 0x5C, CHR ''u'', CHR 0x22]) = Inl Undefined \<and>
    json_parse (show_nat n) = Inl Undefined"
  using assms json_parse_pair [of "c # s"] scan_31_plain [of "c # s" "[nul]"] unescape_plain [of s "[CHR 0x22, nul]" emoji]
    surrogate_reads_behind json_parse_digits by simp

theorem json_parse_hazards_witness:
  "json_parse (CHR 0x22 # surrogate_pair @ ''ok'' @ [CHR 0x22]) = Inr (JString (emoji @ ''k'')) \<and>
   json_parse (CHR 0x22 # surrogate_pair @ [CHR 0x5C, CHR 0x5C, CHR ''u'', CHR 0x22]) = Inl Undefined \<and>
   json_parse (show_nat 10000000000000000000) = Inl Undefined"
  using json_parse_hazards [of "CHR ''o''" "''k''" 10000000000000000000] by (simp add: is_plain_def char_code_def)

end
