(* ===== verification/JsonGrammar.thy ===== *)
theory JsonGrammar
  imports JsonSafety
begin

text \<open>
  The JSON grammar (RFC 7159) as the specification of the parser. A text is a series of lexemes; the
  grammar says which series are a value and which value that is, with the last of several members of an
  object that have the same key. The parser of the library accepts exactly the texts whose lexemes the
  grammar derives, and returns the derived value.
\<close>

section \<open>The grammar\<close>

datatype lexeme = Punct token | Lit json

inductive json_value :: "lexeme list \<Rightarrow> json \<Rightarrow> bool"
  and json_members :: "lexeme list \<Rightarrow> (string \<times> json) list \<Rightarrow> bool"
  and json_elements :: "lexeme list \<Rightarrow> json list \<Rightarrow> bool" where
  value_scalar: "json_value [Lit j] j"
| value_empty_object: "json_value [Punct begin_object, Punct end_object] (JObject [])"
| value_object: "json_members ms kvs \<Longrightarrow>
    json_value (Punct begin_object # ms @ [Punct end_object]) (JObject (foldl (\<lambda>m kv. map_set m (fst kv) (snd kv)) [] kvs))"
| value_empty_array: "json_value [Punct begin_array, Punct end_array] (JArray [])"
| value_array: "json_elements es vs \<Longrightarrow> json_value (Punct begin_array # es @ [Punct end_array]) (JArray vs)"
| members_one: "json_value ls v \<Longrightarrow> json_members (Lit (JString k) # Punct name_separator # ls) [(k, v)]"
| members_more: "json_value ls v \<Longrightarrow> json_members ms kvs \<Longrightarrow>
    json_members (Lit (JString k) # Punct name_separator # ls @ Punct value_separator # ms) ((k, v) # kvs)"
| elements_one: "json_value ls v \<Longrightarrow> json_elements ls [v]"
| elements_more: "json_value ls v \<Longrightarrow> json_elements es vs \<Longrightarrow> json_elements (ls @ Punct value_separator # es) (v # vs)"

section \<open>Lexemes of a text\<close>

text \<open>The lexeme that the parser stands at, and the lexemes it reads from one state to another.\<close>

definition lexeme_of :: "json_parser \<Rightarrow> lexeme option" where
  "lexeme_of st =
     (case last_token st of
        literal_null \<Rightarrow> Some (Lit JNull)
      | literal_true \<Rightarrow> Some (Lit (JBool True))
      | literal_false \<Rightarrow> Some (Lit (JBool False))
      | value_string \<Rightarrow>
          (case lexer_get_string (m_start st) (m_cursor st) of Inl _ \<Rightarrow> None | Inr s \<Rightarrow> Some (Lit (JString s)))
      | value_number \<Rightarrow>
          (case get_number (m_start st) (m_cursor st) of
             None \<Rightarrow> None
           | Some x \<Rightarrow> (case number_value x of Inl _ \<Rightarrow> None | Inr j \<Rightarrow> Some (Lit j)))
      | uninitialized \<Rightarrow> None
      | parse_error \<Rightarrow> None
      | end_of_input \<Rightarrow> None
      | t \<Rightarrow> Some (Punct t))"

primrec reads :: "lexeme list \<Rightarrow> json_parser \<Rightarrow> json_parser \<Rightarrow> bool" where
  "reads [] st st' \<longleftrightarrow> st' = st"
| "reads (l # ls) st st' \<longleftrightarrow> lexeme_of st = Some l \<and> (\<exists>st1. get_token st = Inr st1 \<and> reads ls st1 st')"

definition lexed :: "string \<Rightarrow> lexeme list \<Rightarrow> bool" where
  "lexed s ls \<longleftrightarrow> (\<exists>st. reads ls (at_token (s @ [nul])) st \<and> last_token st = end_of_input)"

lemma reads_append: "reads (ls @ ks) st st' \<longleftrightarrow> (\<exists>st1. reads ls st st1 \<and> reads ks st1 st')"
  by (induction ls arbitrary: st) auto

lemma number_value_scalar: "number_value x = Inr j \<Longrightarrow> (\<exists>i. j = JInt i) \<or> (\<exists>b q. j = JFloat b q)"
  by (cases x) (auto simp: number_value_def rbind_eq_Inr split: if_splits)

lemma lexeme_punct: "lexeme_of st = Some (Punct t) \<Longrightarrow> last_token st = t"
  by (auto simp: lexeme_of_def split: token.splits sum.splits option.splits)

lemma lexeme_token:
  "last_token st \<in> {begin_array, begin_object, end_array, end_object, name_separator, value_separator} \<Longrightarrow>
     lexeme_of st = Some (Punct (last_token st))"
  by (auto simp: lexeme_of_def)

lemma lexeme_string:
  "lexeme_of st = Some (Lit (JString s)) \<longleftrightarrow>
     last_token st = value_string \<and> lexer_get_string (m_start st) (m_cursor st) = Inr s"
  by (auto simp: lexeme_of_def dest: number_value_scalar split: token.splits sum.splits option.splits)

lemma lexeme_lit:
  "lexeme_of st = Some (Lit j) \<Longrightarrow>
     last_token st \<in> {literal_null, literal_true, literal_false, value_string, value_number}"
  by (auto simp: lexeme_of_def split: token.splits)

text \<open>A scalar is one lexeme, and the other way round.\<close>

lemma parse_scalar_iff:
  "parse_scalar st = Inr (j, st') \<longleftrightarrow> lexeme_of st = Some (Lit j) \<and> get_token st = Inr st'"
  unfolding parse_scalar_def lexeme_of_def unexpect_def
  by (cases "last_token st") (auto simp: rbind_eq_Inr split: sum.splits option.splits)

section \<open>What is accepted is in the grammar\<close>

definition put_members :: "(string \<times> json) list \<Rightarrow> (string \<times> json) list \<Rightarrow> (string \<times> json) list" where
  "put_members m kvs = foldl (\<lambda>m kv. map_set m (fst kv) (snd kv)) m kvs"

lemma put_members_simps [simp]:
  "put_members m [] = m" "put_members m (kv # kvs) = put_members (map_set m (fst kv) (snd kv)) kvs"
  by (simp_all add: put_members_def)

lemma parse_key_reads:
  assumes "parse_key st = Inr (k, st')"
  shows "\<exists>st1. skip_comma st = Inr st1 \<and> reads [Lit (JString k), Punct name_separator] st1 st'"
  using assms lexeme_token
  by (auto simp: parse_key_def rbind_eq_Inr expect_def lexeme_string split: if_splits)

text \<open>The continuation of a loop starts at a comma, which its next turn passes over.\<close>

lemma skip_comma_reads:
  "last_token st = value_separator \<Longrightarrow> skip_comma st = Inr st1 \<Longrightarrow> reads [Punct value_separator] st st1"
  using lexeme_token [of st] by (simp add: skip_comma_def)

text \<open>One statement for each of the three functions; each step is proved from those below it.\<close>

definition sound_value :: "nat \<Rightarrow> bool" where
  "sound_value n \<longleftrightarrow>
     (\<forall>st j st'. parse_internal n st = Inr (j, st') \<longrightarrow> (\<exists>ls. json_value ls j \<and> reads ls st st'))"

definition sound_members :: "nat \<Rightarrow> bool" where
  "sound_members n \<longleftrightarrow>
     (\<forall>m st m' st'. parse_members n m st = Inr (m', st') \<longrightarrow>
       (\<exists>st1 ms kvs. skip_comma st = Inr st1 \<and> json_members ms kvs \<and> reads ms st1 st' \<and> m' = put_members m kvs))"

definition sound_elements :: "nat \<Rightarrow> bool" where
  "sound_elements n \<longleftrightarrow>
     (\<forall>xs st xs' st'. parse_elements n xs st = Inr (xs', st') \<longrightarrow>
       (\<exists>st1 es vs. skip_comma st = Inr st1 \<and> json_elements es vs \<and> reads es st1 st' \<and> xs' = xs @ vs))"

lemma sound_object:
  assumes "sound_members n" and st: "last_token st = begin_object" and run: "parse_internal (Suc n) st = Inr (j, st')"
  shows "\<exists>ls. json_value ls j \<and> reads ls st st'"
proof -
  obtain st1 where st1: "get_token st = Inr st1" "lexeme_of st = Some (Punct begin_object)"
    using st run lexeme_token [of st] by (auto simp: parse_internal.simps(2) rbind_eq_Inr)
  show ?thesis
  proof (cases "last_token st1 = end_object")
    case True
    then show ?thesis
      using run st st1 lexeme_token [of st1] value_empty_object
      by (force simp: parse_internal.simps(2) rbind_eq_Inr)
  next
    case False
    then obtain m st2 where m: "parse_members n [] st1 = Inr (m, st2)" "j = JObject m"
      and close: "last_token st2 = end_object" "get_token st2 = Inr st'" and no_comma: "skip_comma st1 = Inr st1"
      using run st st1
      by (auto simp: parse_internal.simps(2) rbind_eq_Inr unexpect_def expect_def skip_comma_def split: if_splits)
    obtain ms kvs where ms: "json_members ms kvs" "reads ms st1 st2" "m = put_members [] kvs"
      using assms(1) m(1) no_comma unfolding sound_members_def by fastforce
    have "reads (Punct begin_object # ms @ [Punct end_object]) st st'"
      using st1 ms(2) close lexeme_token [of st2] by (auto simp: reads_append)
    then show ?thesis
      using value_object [OF ms(1)] ms(3) m(2) by (auto simp: put_members_def)
  qed
qed

lemma sound_array:
  assumes "sound_elements n" and st: "last_token st = begin_array" and run: "parse_internal (Suc n) st = Inr (j, st')"
  shows "\<exists>ls. json_value ls j \<and> reads ls st st'"
proof -
  obtain st1 where st1: "get_token st = Inr st1" "lexeme_of st = Some (Punct begin_array)"
    using st run lexeme_token [of st] by (auto simp: parse_internal.simps(2) rbind_eq_Inr)
  show ?thesis
  proof (cases "last_token st1 = end_array")
    case True
    then show ?thesis
      using run st st1 lexeme_token [of st1] value_empty_array
      by (force simp: parse_internal.simps(2) rbind_eq_Inr)
  next
    case False
    then obtain xs st2 where m: "parse_elements n [] st1 = Inr (xs, st2)" "j = JArray xs"
      and close: "last_token st2 = end_array" "get_token st2 = Inr st'" and no_comma: "skip_comma st1 = Inr st1"
      using run st st1
      by (auto simp: parse_internal.simps(2) rbind_eq_Inr unexpect_def expect_def skip_comma_def split: if_splits)
    obtain es where es: "json_elements es xs" "reads es st1 st2"
      using assms(1) m(1) no_comma unfolding sound_elements_def by fastforce
    have "reads (Punct begin_array # es @ [Punct end_array]) st st'"
      using st1 es(2) close lexeme_token [of st2] by (auto simp: reads_append)
    then show ?thesis
      using value_array [OF es(1)] m(2) by auto
  qed
qed

lemma sound_value_step: "sound_members n \<Longrightarrow> sound_elements n \<Longrightarrow> sound_value (Suc n)"
  unfolding sound_value_def [of "Suc n"]
proof (intro allI impI)
  fix st j st'
  assume IH: "sound_members n" "sound_elements n" and run: "parse_internal (Suc n) st = Inr (j, st')"
  show "\<exists>ls. json_value ls j \<and> reads ls st st'"
  proof (cases "last_token st = begin_object \<or> last_token st = begin_array")
    case True
    then show ?thesis
      using sound_object [OF IH(1)] sound_array [OF IH(2)] run by blast
  next
    case False
    then have "parse_scalar st = Inr (j, st')"
      using run by (simp add: parse_internal.simps(2))
    then show ?thesis
      using value_scalar [of j] by (auto simp: parse_scalar_iff intro!: exI [of _ "[Lit j]"])
  qed
qed

lemma sound_members_step: "sound_value n \<Longrightarrow> sound_members n \<Longrightarrow> sound_members (Suc n)"
  unfolding sound_members_def [of "Suc n"]
proof (intro allI impI)
  fix m st m' st'
  assume IH: "sound_value n" "sound_members n" and run: "parse_members (Suc n) m st = Inr (m', st')"
  obtain k st2 v st3 where k: "parse_key st = Inr (k, st2)" and v: "parse_internal n st2 = Inr (v, st3)"
    and rest: "if last_token st3 = value_separator then parse_members n (map_set m k v) st3 = Inr (m', st')
      else m' = map_set m k v \<and> st' = st3"
    using run by (auto simp: parse_members.simps(2) rbind_eq_Inr Let_def split: if_splits)
  obtain st1 where st1: "skip_comma st = Inr st1" "reads [Lit (JString k), Punct name_separator] st1 st2"
    using parse_key_reads [OF k] by blast
  obtain ls where ls: "json_value ls v" "reads ls st2 st3"
    using IH(1) v unfolding sound_value_def by blast
  then have one: "reads (Lit (JString k) # Punct name_separator # ls) st1 st3"
    using st1(2) reads_append [of "[Lit (JString k), Punct name_separator]" ls] by auto
  show "\<exists>st1 ms kvs. skip_comma st = Inr st1 \<and> json_members ms kvs \<and> reads ms st1 st' \<and> m' = put_members m kvs"
  proof (cases "last_token st3 = value_separator")
    case True
    then obtain st4 ms kvs where c: "skip_comma st3 = Inr st4" "json_members ms kvs" "reads ms st4 st'"
      "m' = put_members (map_set m k v) kvs"
      using rest IH(2) unfolding sound_members_def by fastforce
    then have "reads ((Lit (JString k) # Punct name_separator # ls) @ [Punct value_separator] @ ms) st1 st'"
      using one skip_comma_reads [OF True c(1)] by (subst reads_append, subst reads_append) blast
    then show ?thesis
      using st1(1) members_more [OF ls(1) c(2), of k] c(4) by force
  next
    case False
    then show ?thesis
      using rest st1(1) one members_one [OF ls(1), of k] by force
  qed
qed

lemma sound_elements_step: "sound_value n \<Longrightarrow> sound_elements n \<Longrightarrow> sound_elements (Suc n)"
  unfolding sound_elements_def [of "Suc n"]
proof (intro allI impI)
  fix xs st xs' st'
  assume IH: "sound_value n" "sound_elements n" and run: "parse_elements (Suc n) xs st = Inr (xs', st')"
  obtain st1 v st3 where st1: "skip_comma st = Inr st1" and v: "parse_internal n st1 = Inr (v, st3)"
    and rest: "if last_token st3 = value_separator then parse_elements n (xs @ [v]) st3 = Inr (xs', st')
      else xs' = xs @ [v] \<and> st' = st3"
    using run by (auto simp: parse_elements.simps(2) rbind_eq_Inr Let_def split: if_splits)
  obtain ls where ls: "json_value ls v" "reads ls st1 st3"
    using IH(1) v unfolding sound_value_def by blast
  show "\<exists>st1 es vs. skip_comma st = Inr st1 \<and> json_elements es vs \<and> reads es st1 st' \<and> xs' = xs @ vs"
  proof (cases "last_token st3 = value_separator")
    case True
    then obtain st4 es vs where c: "skip_comma st3 = Inr st4" "json_elements es vs" "reads es st4 st'"
      "xs' = (xs @ [v]) @ vs"
      using rest IH(2) unfolding sound_elements_def by fastforce
    then have "reads (ls @ [Punct value_separator] @ es) st1 st'"
      using ls(2) skip_comma_reads [OF True c(1)] by (subst reads_append, subst reads_append) blast
    then show ?thesis
      using st1 elements_more [OF ls(1) c(2)] c(4) by force
  next
    case False
    then show ?thesis
      using rest st1 ls elements_one by force
  qed
qed

lemma parse_sound: "sound_value n \<and> sound_members n \<and> sound_elements n"
proof (induction n)
  case 0
  show ?case
    by (simp add: sound_value_def sound_members_def sound_elements_def)
next
  case (Suc n)
  then show ?case
    using sound_value_step sound_members_step sound_elements_step by blast
qed

section \<open>What is in the grammar is accepted\<close>

text \<open>How a value can begin: never with a closing bracket or a comma.\<close>

lemma value_start:
  "json_value ls j \<Longrightarrow> reads ls st st' \<Longrightarrow> last_token st \<notin> {end_array, end_object, value_separator, name_separator}"
  by (erule json_value.cases) (auto dest: lexeme_punct lexeme_lit)

lemma elements_start:
  "json_elements es vs \<Longrightarrow> reads es st st' \<Longrightarrow> last_token st \<noteq> end_array \<and> last_token st \<noteq> value_separator"
  by (erule json_elements.cases) (auto simp: reads_append dest: value_start)

lemma members_start: "json_members ms kvs \<Longrightarrow> reads ms st st' \<Longrightarrow> last_token st = value_string"
  by (erule json_members.cases) (auto simp: lexeme_string)

lemma parse_key_complete:
  assumes "reads [Lit (JString k), Punct name_separator] st1 st'" and "skip_comma st = Inr st1"
  shows "parse_key st = Inr (k, st')"
  using assms by (auto simp: parse_key_def expect_def lexeme_string dest!: lexeme_punct)

lemma parse_complete:
  "json_value ls j \<Longrightarrow> reads ls st st' \<Longrightarrow> length ls \<le> n \<Longrightarrow> parse_internal n st = Inr (j, st')"
  "json_members ms kvs \<Longrightarrow> reads ms st1 st' \<Longrightarrow> skip_comma st = Inr st1 \<Longrightarrow> last_token st' \<noteq> value_separator \<Longrightarrow>
     length ms \<le> n \<Longrightarrow> parse_members n m st = Inr (put_members m kvs, st')"
  "json_elements es vs \<Longrightarrow> reads es st1 st' \<Longrightarrow> skip_comma st = Inr st1 \<Longrightarrow> last_token st' \<noteq> value_separator \<Longrightarrow>
     length es < n \<Longrightarrow> parse_elements n xs st = Inr (xs @ vs, st')"
proof (induction ls j and ms kvs and es vs arbitrary: st st' n and st1 st st' m n and st1 st st' xs n
    rule: json_value_json_members_json_elements.inducts)
  case (value_scalar j)
  then obtain n' where "n = Suc n'" "parse_scalar st = Inr (j, st')" "lexeme_of st = Some (Lit j)"
    by (cases n) (auto simp: parse_scalar_iff)
  then show ?case
    using lexeme_lit by (fastforce simp: parse_internal.simps(2))
next
  case value_empty_object
  then show ?case
    by (cases n) (auto simp: parse_internal.simps(2) dest!: lexeme_punct)
next
  case (value_object ms kvs)
  then obtain st1 st2 n' where r: "last_token st = begin_object" "get_token st = Inr st1" "reads ms st1 st2"
    "last_token st2 = end_object" "get_token st2 = Inr st'" "n = Suc n'" "length ms \<le> n'"
    by (cases n) (auto simp: reads_append dest!: lexeme_punct)
  have "last_token st1 = value_string"
    using members_start [OF value_object.hyps r(3)] .
  moreover from this have "parse_members n' [] st1 = Inr (put_members [] kvs, st2)"
    using value_object.IH [of st1 st2 st1 n' "[]"] r by (simp add: skip_comma_def)
  ultimately show ?case
    using r by (simp add: parse_internal.simps(2) unexpect_def expect_def put_members_def)
next
  case value_empty_array
  then show ?case
    by (cases n) (auto simp: parse_internal.simps(2) dest!: lexeme_punct)
next
  case (value_array es vs)
  then obtain st1 st2 n' where r: "last_token st = begin_array" "get_token st = Inr st1" "reads es st1 st2"
    "last_token st2 = end_array" "get_token st2 = Inr st'" "n = Suc n'" "length es < n'"
    by (cases n) (auto simp: reads_append dest!: lexeme_punct)
  have "last_token st1 \<noteq> end_array" "last_token st1 \<noteq> value_separator"
    using elements_start [OF value_array.hyps r(3)] by simp_all
  moreover from this have "parse_elements n' [] st1 = Inr ([] @ vs, st2)"
    using value_array.IH [of st1 st2 st1 n' "[]"] r by (simp add: skip_comma_def)
  ultimately show ?case
    using r by (simp add: parse_internal.simps(2) unexpect_def expect_def)
next
  case (members_one ls v k)
  then obtain st2 n' where "reads [Lit (JString k), Punct name_separator] st1 st2" "reads ls st2 st'" "n = Suc n'"
    "length ls \<le> n'"
    by (cases n) auto
  then show ?case
    using members_one parse_key_complete by (simp add: parse_members.simps(2))
next
  case (members_more ls v ms kvs k)
  then obtain st2 st3 st4 n' where r: "reads [Lit (JString k), Punct name_separator] st1 st2" "reads ls st2 st3"
    "last_token st3 = value_separator" "get_token st3 = Inr st4" "reads ms st4 st'" "n = Suc n'"
    "length ls \<le> n'" "length ms \<le> n'"
    by (cases n) (simp, fastforce simp: reads_append dest: lexeme_punct)
  then have "parse_members n' (map_set m k v) st3 = Inr (put_members (map_set m k v) kvs, st')"
    using members_more.IH(2) members_more.prems(3) by (simp add: skip_comma_def)
  then show ?case
    using r members_more.IH(1) [OF r(2,7)] parse_key_complete [OF r(1) members_more.prems(2)]
    by (simp add: parse_members.simps(2))
next
  case (elements_one ls v)
  then show ?case
    by (cases n) (simp_all add: parse_elements.simps(2))
next
  case (elements_more ls v es vs)
  then obtain st2 st3 n' where r: "reads ls st1 st2" "last_token st2 = value_separator" "get_token st2 = Inr st3"
    "reads es st3 st'" "n = Suc n'" "length ls \<le> n'" "length es < n'"
    by (cases n) (auto simp: reads_append dest!: lexeme_punct)
  then have "parse_elements n' (xs @ [v]) st2 = Inr ((xs @ [v]) @ vs, st')"
    using elements_more.IH(2) elements_more.prems(3) by (simp add: skip_comma_def)
  then show ?case
    using r elements_more.IH(1) [OF r(1,6)] elements_more.prems(2) by (simp add: parse_elements.simps(2))
qed

section \<open>The parser decides the grammar\<close>

lemma reads_length:
  "reads ls st st' \<Longrightarrow> live buf st \<Longrightarrow> length ls \<le> length (m_cursor st)"
proof (induction ls arbitrary: st)
  case (Cons l ls)
  then have "last_token st \<noteq> end_of_input"
    by (auto simp: lexeme_of_def)
  with Cons.prems obtain st1 where "get_token st = Inr st1" "live buf st1" "length (m_cursor st1) < length (m_cursor st)"
    using get_token_live by blast
  then show ?case
    using Cons by fastforce
qed simp

text \<open>
  C16. The parser decides the JSON grammar: it returns a value exactly when the text is a series of lexemes
  for which the grammar derives that value. In particular nothing else is accepted, and nothing that the
  grammar derives is refused.
\<close>

theorem json_parse_grammar: "json_parse s = Inr j \<longleftrightarrow> (\<exists>ls. lexed s ls \<and> json_value ls j)"
proof
  assume "json_parse s = Inr j"
  then obtain st where "parse_internal (2 * length s + 4) (at_token (s @ [nul])) = Inr (j, st)" "last_token st = end_of_input"
    by (auto simp: json_parse_eq rbind_eq_Inr expect_def split: if_splits)
  then show "\<exists>ls. lexed s ls \<and> json_value ls j"
    using parse_sound unfolding sound_value_def lexed_def by blast
next
  assume "\<exists>ls. lexed s ls \<and> json_value ls j"
  then obtain ls st where ls: "json_value ls j" "reads ls (at_token (s @ [nul])) st" "last_token st = end_of_input"
    by (auto simp: lexed_def)
  have "length (m_cursor (at_token (s @ [nul]))) \<le> length s + 1"
    using live_start [of s] suffix_length_le by (fastforce simp: live_def)
  then have "length ls \<le> 2 * length s + 4"
    using reads_length [OF ls(2) live_start] by simp
  then show "json_parse s = Inr j"
    using parse_complete(1) [OF ls(1,2)] ls(3) by (simp add: json_parse_eq expect_def)
qed

end
