(* ===== verification/JsonUnicode.thy ===== *)
theory JsonUnicode
  imports JsonParser
begin

text \<open>
  The Unicode escapes of the JSON library (\<open>external/json.hpp\<close>, \<open>lexer::to_unicode\<close>) against the two
  encodings they translate between, which are defined here from their standards: \<open>utf16_value\<close> is the
  code point of one or two UTF-16 units, \<open>utf8_decode\<close> reads the UTF-8 encoding of a single code point
  and refuses what RFC 3629 refuses, longer forms than needed and surrogates among it.
\<close>

definition is_high :: "nat \<Rightarrow> bool" where
  "is_high c \<longleftrightarrow> 0xD800 \<le> c \<and> c \<le> 0xDBFF"

definition is_low :: "nat \<Rightarrow> bool" where
  "is_low c \<longleftrightarrow> 0xDC00 \<le> c \<and> c \<le> 0xDFFF"

definition utf16_value :: "nat \<Rightarrow> nat \<Rightarrow> nat" where
  "utf16_value c1 c2 = (if is_high c1 then 0x10000 + (c1 - 0xD800) * 0x400 + (c2 - 0xDC00) else c1)"

definition is_tail :: "nat \<Rightarrow> bool" where
  "is_tail b \<longleftrightarrow> 0x80 \<le> b \<and> b \<le> 0xBF"

definition tail_value :: "nat \<Rightarrow> nat \<Rightarrow> nat" where
  "tail_value v b = v * 64 + (b - 0x80)"

fun utf8_decode :: "nat list \<Rightarrow> nat option" where
  "utf8_decode [a] = (if a \<le> 0x7F then Some a else None)"
| "utf8_decode [a, b] =
     (let v = tail_value (a - 0xC0) b
      in if 0xC0 \<le> a \<and> a \<le> 0xDF \<and> is_tail b \<and> 0x80 \<le> v then Some v else None)"
| "utf8_decode [a, b, c] =
     (let v = tail_value (tail_value (a - 0xE0) b) c
      in if 0xE0 \<le> a \<and> a \<le> 0xEF \<and> is_tail b \<and> is_tail c \<and> 0x800 \<le> v \<and> \<not> is_high v \<and> \<not> is_low v
         then Some v else None)"
| "utf8_decode [a, b, c, d] =
     (let v = tail_value (tail_value (tail_value (a - 0xF0) b) c) d
      in if 0xF0 \<le> a \<and> a \<le> 0xF7 \<and> is_tail b \<and> is_tail c \<and> is_tail d \<and> 0x10000 \<le> v \<and> v \<le> 0x10FFFF
         then Some v else None)"
| "utf8_decode _ = None"

section \<open>The bit operations as arithmetic\<close>

lemma or_eq_add: "2 ^ k dvd a \<Longrightarrow> x < 2 ^ k \<Longrightarrow> a OR x = a + (x :: nat)"
proof -
  assume "2 ^ k dvd a" "x < 2 ^ k"
  then obtain b where "a = push_bit k b" "x = take_bit k x"
    by (metis dvdE mult.commute push_bit_eq_mult take_bit_nat_eq_self)
  then show ?thesis
    by (metis (no_types, lifting) bit_push_bit_iff_nat bit_take_bit_iff disjunctive_add not_le)
qed

lemma and_masks:
  "n AND 0x3F = n mod (64 :: nat)" "n AND 0x1F = n mod (32 :: nat)"
  "n AND 0x0F = n mod (16 :: nat)" "n AND 0x07 = n mod (8 :: nat)"
  using take_bit_eq_mask [of 6 n] take_bit_eq_mask [of 5 n] take_bit_eq_mask [of 4 n] take_bit_eq_mask [of 3 n]
  by (simp_all add: mask_eq_exp_minus_1 take_bit_eq_mod)

lemma lead_bytes:
  "n < 32 \<Longrightarrow> 0xC0 OR n = 0xC0 + (n :: nat)" "n < 16 \<Longrightarrow> 0xE0 OR n = 0xE0 + (n :: nat)"
  "n < 8 \<Longrightarrow> 0xF0 OR n = 0xF0 + (n :: nat)" "n < 64 \<Longrightarrow> 0x80 OR n = 0x80 + (n :: nat)"
  using or_eq_add [of 5 "0xC0" n] or_eq_add [of 4 "0xE0" n] or_eq_add [of 3 "0xF0" n] or_eq_add [of 6 "0x80" n]
  by simp_all

lemma char_code_of: "n < 256 \<Longrightarrow> char_code (char_of n) = n"
  by (simp add: char_code_def)

lemma utf8_tail_code: "char_code (utf8_tail n) = 0x80 + n mod 64"
  by (simp add: utf8_tail_def and_masks lead_bytes char_code_of)

lemma split_64: "tail_value (n div 64) (0x80 + n mod 64) = n"
  by (simp add: tail_value_def)

lemma is_tail_mod: "is_tail (0x80 + n mod 64)"
  using pos_mod_bound [of 64 "int n"] by (simp add: is_tail_def zmod_int [symmetric])

section \<open>The encodings\<close>

definition encode_codepoint :: "nat \<Rightarrow> string result" where
  "encode_codepoint codepoint =
     (if codepoint < 0x80 then Inr [char_of codepoint]
      else if codepoint \<le> 0x7FF
      then Inr [char_of (0xC0 OR (drop_bit 6 codepoint AND 0x1F)), utf8_tail codepoint]
      else if codepoint \<le> 0xFFFF
      then Inr [char_of (0xE0 OR (drop_bit 12 codepoint AND 0x0F)), utf8_tail (drop_bit 6 codepoint),
                utf8_tail codepoint]
      else if codepoint \<le> 0x10FFFF
      then Inr [char_of (0xF0 OR (drop_bit 18 codepoint AND 0x07)), utf8_tail (drop_bit 12 codepoint),
                utf8_tail (drop_bit 6 codepoint), utf8_tail codepoint]
      else Inl (Uncaught out_of_range))"

lemma to_unicode_encode:
  "to_unicode c1 c2 =
     (if is_high c1 \<and> \<not> is_low c2 then Inl (Uncaught invalid_argument) else encode_codepoint (utf16_value c1 c2))"
proof -
  have "push_bit 10 c1 + c2 - 0x35FDC00 = utf16_value c1 c2" if "is_high c1" "is_low c2"
  proof -
    from that have "c1 = 0xD800 + (c1 - 0xD800)"
      by (simp add: is_high_def)
    then obtain d where "c1 = 0xD800 + d" ..
    then show ?thesis
      using that by (simp add: is_high_def is_low_def utf16_value_def push_bit_eq_mult)
  qed
  then show ?thesis
    unfolding to_unicode_def encode_codepoint_def [symmetric] is_high_def [symmetric] is_low_def [symmetric]
    by (auto simp: utf16_value_def)
qed

lemma div_steps: "n div 4096 = n div 64 div (64 :: nat)" "n div 262144 = n div 64 div 64 div (64 :: nat)"
  by (simp_all add: div_mult2_eq [symmetric])

lemma encode_decode:
  "case encode_codepoint n of
     Inl e \<Rightarrow> e = Uncaught out_of_range \<and> 0x10FFFF < n
   | Inr s \<Rightarrow> n \<le> 0x10FFFF \<and> utf8_decode (map char_code s) = (if is_high n \<or> is_low n then None else Some n)"
proof -
  consider "n < 0x80" | "0x80 \<le> n" "n \<le> 0x7FF" | "0x7FF < n" "n \<le> 0xFFFF" | "0xFFFF < n" "n \<le> 0x10FFFF"
    | "0x10FFFF < n"
    by linarith
  then show ?thesis
  proof cases
    case 1
    then show ?thesis
      by (simp add: encode_codepoint_def char_code_of is_high_def is_low_def)
  next
    case 2
    then have "n div 64 < 32"
      by (simp add: less_mult_imp_div_less)
    with 2 show ?thesis
      by (simp add: encode_codepoint_def drop_bit_eq_div and_masks lead_bytes char_code_of utf8_tail_code is_tail_mod
          split_64 is_high_def is_low_def Let_def)
  next
    case 3
    then have "n div 64 div 64 < 16"
      by (simp add: less_mult_imp_div_less)
    with 3 show ?thesis
      by (simp add: encode_codepoint_def drop_bit_eq_div div_steps and_masks lead_bytes char_code_of utf8_tail_code
          is_tail_mod split_64 Let_def)
  next
    case 4
    then have "n div 64 div 64 div 64 < 8"
      by (simp add: less_mult_imp_div_less)
    with 4 show ?thesis
      by (simp add: encode_codepoint_def drop_bit_eq_div div_steps and_masks lead_bytes char_code_of utf8_tail_code
          is_tail_mod split_64 is_high_def is_low_def Let_def)
  qed (simp add: encode_codepoint_def)
qed

text \<open>
  C37. A Unicode escape is translated from UTF-16 to UTF-8: what \<open>to_unicode\<close> returns is the UTF-8 encoding of
  the code point that the one or two units stand for. A high surrogate without a low one is refused, and so
  is a value above \<open>0x10FFFF\<close>. A low surrogate on its own is not refused: its bytes are not UTF-8.
\<close>

theorem to_unicode_utf8:
  "case to_unicode c1 c2 of
     Inr s \<Rightarrow> utf16_value c1 c2 \<le> 0x10FFFF \<and>
       utf8_decode (map char_code s) = (if is_low c1 then None else Some (utf16_value c1 c2))
   | Inl e \<Rightarrow>
       if is_high c1 then \<not> is_low c2 \<and> e = Uncaught invalid_argument
       else 0x10FFFF < c1 \<and> e = Uncaught out_of_range"
proof -
  have "\<not> is_high (utf16_value c1 c2)" "is_low (utf16_value c1 c2) \<longleftrightarrow> is_low c1" "is_high c1 \<Longrightarrow> \<not> is_low c1"
    "is_high c1 \<Longrightarrow> is_low c2 \<Longrightarrow> utf16_value c1 c2 \<le> 0x10FFFF"
    by (auto simp: utf16_value_def is_high_def is_low_def)
  then show ?thesis
    using encode_decode [of "utf16_value c1 c2"] unfolding to_unicode_encode
    by (auto simp: utf16_value_def split: sum.splits if_splits)
qed

end
