(* ===== verification/JsonOps.thy ===== *)
theory JsonOps
  imports JsonIter
begin

text \<open>
  The container operations of JSON values (\<open>external/json.hpp\<close>, class \<open>basic_json\<close>): types and their
  names, access with and without a check, searching, size, insertion and erasure. An iterator that is
  passed to an operation carries the address of the value it belongs to; the address of the value
  itself is the argument \<open>this\<close>. Positions outside of a container are undefined behaviour, as in C++.
\<close>

section \<open>Types\<close>

datatype value_t = value_null | value_object | value_array | value_string | value_boolean
  | value_integer | value_float | value_discarded

fun json_type :: "json \<Rightarrow> value_t" where
  "json_type JNull = value_null"
| "json_type (JObject _) = value_object"
| "json_type (JArray _) = value_array"
| "json_type (JString _) = value_string"
| "json_type (JBool _) = value_boolean"
| "json_type (JInt _) = value_integer"
| "json_type (JFloat _ _) = value_float"

fun type_name :: "value_t \<Rightarrow> string" where
  "type_name value_null = ''null''"
| "type_name value_object = ''object''"
| "type_name value_array = ''array''"
| "type_name value_string = ''string''"
| "type_name value_boolean = ''boolean''"
| "type_name value_discarded = ''discarded''"
| "type_name _ = ''number''"

definition is_number :: "json \<Rightarrow> bool" where
  "is_number j \<longleftrightarrow> json_type j = value_integer \<or> json_type j = value_float"

definition is_primitive :: "json \<Rightarrow> bool" where
  "is_primitive j \<longleftrightarrow>
     json_type j = value_null \<or> json_type j = value_string \<or> json_type j = value_boolean \<or> is_number j"

definition is_structured :: "json \<Rightarrow> bool" where
  "is_structured j \<longleftrightarrow> json_type j = value_array \<or> json_type j = value_object"

section \<open>Access\<close>

fun at_index :: "json \<Rightarrow> nat \<Rightarrow> json result" where
  "at_index (JArray xs) idx = (if idx < length xs then Inr (xs ! idx) else Inl (Uncaught out_of_range))"
| "at_index _ idx = Inl (Uncaught domain_error)"

fun at_key :: "json \<Rightarrow> string \<Rightarrow> json result" where
  "at_key (JObject kvs) k = (case map_of kvs k of Some v \<Rightarrow> Inr v | None \<Rightarrow> Inl (Uncaught out_of_range))"
| "at_key _ k = Inl (Uncaught domain_error)"

text \<open>\<open>operator[]\<close> with an index fills the array up with null.\<close>

function fill_null :: "json list \<Rightarrow> nat \<Rightarrow> json list" where
  "fill_null xs idx = (if length xs \<le> idx then fill_null (xs @ [JNull]) idx else xs)"
  by auto

termination fill_null
  by (relation "measure (\<lambda>(xs, idx). Suc idx - length xs)") auto

declare fill_null.simps [simp del]

fun index_array :: "json \<Rightarrow> nat \<Rightarrow> (json \<times> json) result" where
  "index_array (JArray xs) idx = (let ys = fill_null xs idx in Inr (ys ! idx, JArray ys))"
| "index_array JNull idx = (let ys = fill_null [] idx in Inr (ys ! idx, JArray ys))"
| "index_array _ idx = Inl (Uncaught domain_error)"

text \<open>\<open>operator--\<close>; in front of the first element it is undefined.\<close>

fun iterator_prev :: "json_iterator \<Rightarrow> json_iterator result" where
  "iterator_prev (Object_iterator i) = (if i = 0 then Inl Undefined else Inr (Object_iterator (i - 1)))"
| "iterator_prev (Array_iterator i) = (if i = 0 then Inl Undefined else Inr (Array_iterator (i - 1)))"
| "iterator_prev (Primitive_iterator i) = Inr (Primitive_iterator (i - 1))"

definition json_front :: "json \<Rightarrow> json result" where
  "json_front j = iterator_deref j (set_begin j)"

definition json_back :: "json \<Rightarrow> json result" where
  "json_back j = rbind (iterator_prev (set_end j)) (iterator_deref j)"

section \<open>Searching and size\<close>

fun map_find :: "('k \<times> 'v) list \<Rightarrow> 'k \<Rightarrow> nat" where
  "map_find [] k = 0"
| "map_find (kv # m) k = (if fst kv = k then 0 else Suc (map_find m k))"

fun json_find :: "json \<Rightarrow> string \<Rightarrow> json_iterator" where
  "json_find (JObject kvs) k = Object_iterator (map_find kvs k)"
| "json_find j k = set_end j"

fun json_count :: "json \<Rightarrow> string \<Rightarrow> nat" where
  "json_count (JObject kvs) k = (if map_of kvs k = None then 0 else 1)"
| "json_count _ k = 0"

fun json_empty :: "json \<Rightarrow> bool" where
  "json_empty JNull = True"
| "json_empty (JArray xs) = (xs = [])"
| "json_empty (JObject kvs) = (kvs = [])"
| "json_empty _ = False"

fun json_size :: "json \<Rightarrow> nat" where
  "json_size JNull = 0"
| "json_size (JArray xs) = length xs"
| "json_size (JObject kvs) = length kvs"
| "json_size _ = 1"

section \<open>Modification\<close>

fun json_clear :: "json \<Rightarrow> json" where
  "json_clear JNull = JNull"
| "json_clear (JInt n) = JInt 0"
| "json_clear (JFloat neg q) = JFloat False 0"
| "json_clear (JBool b) = JBool False"
| "json_clear (JString s) = JString []"
| "json_clear (JArray xs) = JArray []"
| "json_clear (JObject kvs) = JObject []"

text \<open>\<open>push_back\<close> with a pair; \<open>std::map::insert\<close> keeps the value of a key that is already there.\<close>

fun push_back_pair :: "json \<Rightarrow> string \<times> json \<Rightarrow> json result" where
  "push_back_pair (JObject kvs) kv = Inr (JObject (json_emplace kvs (fst kv) (snd kv)))"
| "push_back_pair JNull kv = Inr (JObject [kv])"
| "push_back_pair _ kv = Inl (Uncaught domain_error)"

text \<open>\<open>j[k] = v\<close>.\<close>

definition json_assign :: "json \<Rightarrow> string \<Rightarrow> json \<Rightarrow> json result" where
  "json_assign j k v =
     rbind (json_index j k) (\<lambda>(e, j'). Inr (case j' of JObject kvs \<Rightarrow> JObject (map_set kvs k v) | _ \<Rightarrow> j'))"

fun erase_key :: "json \<Rightarrow> string \<Rightarrow> (nat \<times> json) result" where
  "erase_key (JObject kvs) k = Inr (if map_of kvs k = None then 0 else 1, JObject (map_erase kvs k))"
| "erase_key _ k = Inl (Uncaught domain_error)"

definition remove_range :: "nat \<Rightarrow> nat \<Rightarrow> 'a list \<Rightarrow> 'a list" where
  "remove_range i n xs = take i xs @ drop n xs"

definition erase_index :: "json \<Rightarrow> nat \<Rightarrow> json result" where
  "erase_index j idx =
     (case j of
        JArray xs \<Rightarrow>
          if idx \<ge> json_size j then Inl (Uncaught out_of_range) else Inr (JArray (remove_range idx (idx + 1) xs))
      | _ \<Rightarrow> Inl (Uncaught domain_error))"

type_synonym json_pos = "u64 \<times> json_iterator"

fun erase_iterator :: "json \<Rightarrow> json_iterator \<Rightarrow> (json \<times> json_iterator) result" where
  "erase_iterator (JObject kvs) (Object_iterator i) =
     (if i < length kvs then Inr (JObject (remove_range i (i + 1) kvs), Object_iterator i) else Inl Undefined)"
| "erase_iterator (JArray xs) (Array_iterator i) =
     (if i < length xs then Inr (JArray (remove_range i (i + 1) xs), Array_iterator i) else Inl Undefined)"
| "erase_iterator JNull _ = Inl (Uncaught domain_error)"
| "erase_iterator (JObject _) _ = Inl Undefined"
| "erase_iterator (JArray _) _ = Inl Undefined"
| "erase_iterator j (Primitive_iterator i) =
     (if i \<noteq> begin_value then Inl (Uncaught out_of_range) else Inr (JNull, set_end j))"
| "erase_iterator j _ = Inl Undefined"

definition json_erase :: "u64 \<Rightarrow> json \<Rightarrow> json_pos \<Rightarrow> (json \<times> json_pos) result" where
  "json_erase this j pos =
     (if this \<noteq> fst pos then Inl (Uncaught domain_error)
      else rbind (erase_iterator j (snd pos)) (\<lambda>(j', it). Inr (j', (this, it))))"

fun erase_iterators :: "json \<Rightarrow> json_iterator \<Rightarrow> json_iterator \<Rightarrow> (json \<times> json_iterator) result" where
  "erase_iterators (JObject kvs) (Object_iterator i) (Object_iterator n) =
     (if i \<le> n \<and> n \<le> length kvs then Inr (JObject (remove_range i n kvs), Object_iterator i) else Inl Undefined)"
| "erase_iterators (JArray xs) (Array_iterator i) (Array_iterator n) =
     (if i \<le> n \<and> n \<le> length xs then Inr (JArray (remove_range i n xs), Array_iterator i) else Inl Undefined)"
| "erase_iterators JNull _ _ = Inl (Uncaught domain_error)"
| "erase_iterators (JObject _) _ _ = Inl Undefined"
| "erase_iterators (JArray _) _ _ = Inl Undefined"
| "erase_iterators j (Primitive_iterator i) (Primitive_iterator n) =
     (if i \<noteq> begin_value \<or> n \<noteq> end_value then Inl (Uncaught out_of_range) else Inr (JNull, set_end j))"
| "erase_iterators j _ _ = Inl Undefined"

definition json_erase_range :: "u64 \<Rightarrow> json \<Rightarrow> json_pos \<Rightarrow> json_pos \<Rightarrow> (json \<times> json_pos) result" where
  "json_erase_range this j pos stop =
     (if this \<noteq> fst pos \<or> this \<noteq> fst stop then Inl (Uncaught domain_error)
      else rbind (erase_iterators j (snd pos) (snd stop)) (\<lambda>(j', it). Inr (j', (this, it))))"

text \<open>Insertion in front of a position: of a list, and of so many copies of a value.\<close>

definition vector_insert :: "'a list \<Rightarrow> nat \<Rightarrow> 'a list \<Rightarrow> 'a list" where
  "vector_insert xs i vs = take i xs @ vs @ drop i xs"

definition json_insert_list :: "u64 \<Rightarrow> json \<Rightarrow> json_pos \<Rightarrow> json list \<Rightarrow> (json \<times> json_pos) result" where
  "json_insert_list this j pos ilist =
     (case j of
        JArray xs \<Rightarrow>
          if fst pos \<noteq> this then Inl (Uncaught domain_error)
          else (case snd pos of
                  Array_iterator i \<Rightarrow>
                    if i \<le> length xs then Inr (JArray (vector_insert xs i ilist), (this, Array_iterator i))
                    else Inl Undefined
                | _ \<Rightarrow> Inl Undefined)
      | _ \<Rightarrow> Inl (Uncaught domain_error))"

definition json_insert :: "u64 \<Rightarrow> json \<Rightarrow> json_pos \<Rightarrow> json \<Rightarrow> (json \<times> json_pos) result" where
  "json_insert this j pos v = json_insert_list this j pos [v]"

definition json_insert_copies :: "u64 \<Rightarrow> json \<Rightarrow> json_pos \<Rightarrow> nat \<Rightarrow> json \<Rightarrow> (json \<times> json_pos) result" where
  "json_insert_copies this j pos n v = json_insert_list this j pos (replicate n v)"

text \<open>Insertion of a part of another value \<open>src\<close>, to which both iterators have to belong.\<close>

definition json_insert_range ::
    "u64 \<Rightarrow> json \<Rightarrow> json_pos \<Rightarrow> json \<Rightarrow> json_pos \<Rightarrow> json_pos \<Rightarrow> (json \<times> json_pos) result" where
  "json_insert_range this j pos src start stop =
     (case j of
        JArray xs \<Rightarrow>
          if fst pos \<noteq> this then Inl (Uncaught domain_error)
          else if fst start \<noteq> fst stop then Inl (Uncaught domain_error)
          else if fst start = this \<or> fst stop = this then Inl (Uncaught domain_error)
          else (case (src, snd start, snd stop) of
                  (JArray ys, Array_iterator a, Array_iterator b) \<Rightarrow>
                    if a \<le> b \<and> b \<le> length ys then json_insert_list this j pos (take (b - a) (drop a ys))
                    else Inl Undefined
                | _ \<Rightarrow> Inl Undefined)
      | _ \<Rightarrow> Inl (Uncaught domain_error))"

definition swap_array :: "json \<Rightarrow> json list \<Rightarrow> (json \<times> json list) result" where
  "swap_array j other = (case j of JArray xs \<Rightarrow> Inr (JArray other, xs) | _ \<Rightarrow> Inl (Uncaught domain_error))"

definition swap_object :: "json \<Rightarrow> (string \<times> json) list \<Rightarrow> (json \<times> (string \<times> json) list) result" where
  "swap_object j other = (case j of JObject kvs \<Rightarrow> Inr (JObject other, kvs) | _ \<Rightarrow> Inl (Uncaught domain_error))"

definition swap_string :: "json \<Rightarrow> string \<Rightarrow> (json \<times> string) result" where
  "swap_string j other = (case j of JString s \<Rightarrow> Inr (JString other, s) | _ \<Rightarrow> Inl (Uncaught domain_error))"

section \<open>Random access\<close>

text \<open>
  The operators of \<open>const_iterator\<close> that the iterators of an object refuse. The type of the value decides which
  iterator is meant; moving an iterator out of its array is undefined.
\<close>

fun iterator_add :: "json \<Rightarrow> json_iterator \<Rightarrow> int \<Rightarrow> json_iterator result" where
  "iterator_add (JObject _) it i = Inl (Uncaught domain_error)"
| "iterator_add (JArray xs) (Array_iterator p) i =
     (if 0 \<le> int p + i \<and> int p + i \<le> int (length xs) then Inr (Array_iterator (nat (int p + i))) else Inl Undefined)"
| "iterator_add (JArray _) _ i = Inl Undefined"
| "iterator_add _ (Primitive_iterator p) i = Inr (Primitive_iterator (p + i))"
| "iterator_add _ _ i = Inl Undefined"

definition iterator_sub :: "json \<Rightarrow> json_iterator \<Rightarrow> int \<Rightarrow> json_iterator result" where
  "iterator_sub j it i = iterator_add j it (- i)"

fun iterator_diff :: "json \<Rightarrow> json_iterator \<Rightarrow> json_iterator \<Rightarrow> int result" where
  "iterator_diff (JObject _) a b = Inl (Uncaught domain_error)"
| "iterator_diff (JArray _) (Array_iterator p) (Array_iterator q) = Inr (int p - int q)"
| "iterator_diff (JArray _) _ _ = Inl Undefined"
| "iterator_diff _ (Primitive_iterator p) (Primitive_iterator q) = Inr (p - q)"
| "iterator_diff _ _ _ = Inl Undefined"

fun iterator_at :: "json \<Rightarrow> json_iterator \<Rightarrow> int \<Rightarrow> json result" where
  "iterator_at (JObject _) it n = Inl (Uncaught domain_error)"
| "iterator_at (JArray xs) (Array_iterator p) n =
     (if 0 \<le> int p + n \<and> int p + n < int (length xs) then Inr (xs ! nat (int p + n)) else Inl Undefined)"
| "iterator_at (JArray _) _ n = Inl Undefined"
| "iterator_at JNull it n = Inl (Uncaught out_of_range)"
| "iterator_at j (Primitive_iterator p) n = (if p = - n then Inr j else Inl (Uncaught out_of_range))"
| "iterator_at _ _ n = Inl Undefined"

fun iterator_key :: "json \<Rightarrow> json_iterator \<Rightarrow> string result" where
  "iterator_key (JObject kvs) (Object_iterator i) = (if i < length kvs then Inr (fst (kvs ! i)) else Inl Undefined)"
| "iterator_key (JObject _) _ = Inl Undefined"
| "iterator_key _ it = Inl (Uncaught domain_error)"

fun iterator_before :: "json \<Rightarrow> json_iterator \<Rightarrow> json_iterator \<Rightarrow> bool result" where
  "iterator_before (JObject _) a b = Inl (Uncaught domain_error)"
| "iterator_before (JArray _) (Array_iterator p) (Array_iterator q) = Inr (p < q)"
| "iterator_before (JArray _) _ _ = Inl Undefined"
| "iterator_before _ (Primitive_iterator p) (Primitive_iterator q) = Inr (p < q)"
| "iterator_before _ _ _ = Inl Undefined"

definition iterator_less :: "json \<Rightarrow> json_pos \<Rightarrow> json_pos \<Rightarrow> bool result" where
  "iterator_less j a b =
     (if fst a \<noteq> fst b then Inl (Uncaught domain_error) else iterator_before j (snd a) (snd b))"

section \<open>Agreement of the operations\<close>

text \<open>A value is a scalar or a container, and its size is the number of elements a loop over it visits.\<close>

lemma primitive_or_structured: "is_primitive j \<longleftrightarrow> \<not> is_structured j"
  by (cases j) (simp_all add: is_primitive_def is_structured_def is_number_def)

lemma json_size_elems: "json_size j = length (json_elems j)"
  by (cases j) simp_all

lemma json_empty_size: "json_empty j \<longleftrightarrow> json_size j = 0"
  by (cases j) simp_all

lemma json_empty_iterators: "json_empty j \<longleftrightarrow> \<not> iterator_ne (set_begin j) (set_end j)"
  by (cases j) (simp_all add: iterator_ne_def begin_value_def end_value_def)

text \<open>The first and the last element are those of the loop; on null the access throws.\<close>

lemma front_elems: "\<not> json_empty j \<Longrightarrow> json_front j = Inr (hd (json_elems j))"
  by (cases j) (simp_all add: json_front_def hd_conv_nth hd_map)

lemma back_elems: "\<not> json_empty j \<Longrightarrow> json_back j = Inr (last (json_elems j))"
  by (cases j) (simp_all add: json_back_def end_value_def last_conv_nth last_map)

lemma front_back_null: "json_front JNull = Inl (Uncaught out_of_range)" "json_back JNull = Inl (Uncaught out_of_range)"
  by (simp_all add: json_front_def json_back_def)

text \<open>The distance from the beginning to the end is the size, and \<open>begin()[n]\<close> is element \<open>n\<close> of the loop.\<close>

lemma end_minus_begin:
  "json_type j \<noteq> value_object \<Longrightarrow> iterator_diff j (set_end j) (set_begin j) = Inr (int (json_size j))"
  by (cases j) (simp_all add: begin_value_def end_value_def)

lemma begin_plus_size:
  "json_type j \<noteq> value_object \<Longrightarrow> iterator_add j (set_begin j) (int (json_size j)) = Inr (set_end j)"
  by (cases j) (simp_all add: begin_value_def end_value_def)

lemma iterator_at_elems:
  "json_type j \<noteq> value_object \<Longrightarrow> n < json_size j \<Longrightarrow> iterator_at j (set_begin j) (int n) = Inr (json_elems j ! n)"
  by (cases j) (simp_all add: begin_value_def)

text \<open>Moving there and back again, and reading where one moved to.\<close>

lemma iterator_add_sub: "iterator_add j it i = Inr it' \<Longrightarrow> json_type j = value_array \<Longrightarrow> it = Array_iterator p \<Longrightarrow>
    p \<le> json_size j \<Longrightarrow> iterator_sub j it' i = Inr it"
  by (cases j) (auto simp: iterator_sub_def split: if_splits)

lemma iterator_add_deref:
  "iterator_at j it n = Inr v \<Longrightarrow> rbind (iterator_add j it n) (iterator_deref j) = Inr v"
  by (cases j; cases it) (auto simp: begin_value_def split: if_splits)

text \<open>Filling up adds nulls until the index is valid; afterwards the checked access agrees.\<close>

lemma fill_null_eq: "fill_null xs idx = xs @ replicate (Suc idx - length xs) JNull"
proof (induction xs idx rule: fill_null.induct)
  case (1 xs idx)
  show ?case
  proof (cases "length xs \<le> idx")
    case True
    then have "Suc idx - length xs = Suc (Suc idx - length (xs @ [JNull]))"
      by simp
    then show ?thesis
      using 1 True by (simp add: fill_null.simps [of xs])
  qed (simp add: fill_null.simps [of xs])
qed

lemma fill_null_facts:
  "idx < length (fill_null xs idx)" "length (fill_null xs idx) = max (length xs) (Suc idx)"
  "idx < length xs \<Longrightarrow> fill_null xs idx = xs" "length xs \<le> idx \<Longrightarrow> fill_null xs idx ! idx = JNull"
  by (simp_all add: fill_null_eq nth_append)

lemma index_array_at:
  assumes "index_array j idx = Inr (e, j')"
  shows "at_index j' idx = Inr e \<and> json_size j' = max (json_size j) (idx + 1) \<and>
    (if idx < json_size j then j' = j else e = JNull)"
  using assms
proof (cases j)
  case (JArray xs)
  then show ?thesis
    using assms fill_null_facts [where xs = xs and idx = idx] by (auto simp: Let_def not_less)
next
  case JNull
  then show ?thesis
    using assms fill_null_facts [where xs = "[]" and idx = idx] by (auto simp: Let_def)
qed simp_all

text \<open>Erasing what was inserted gives the array back, and the iterator that \<open>insert\<close> returns fits.\<close>

lemma vector_insert_length [simp]: "i \<le> length xs \<Longrightarrow> length (vector_insert xs i vs) = length xs + length vs"
  by (simp add: vector_insert_def)

lemma remove_inserted: "i \<le> length xs \<Longrightarrow> remove_range i (i + length vs) (vector_insert xs i vs) = xs"
  by (simp add: remove_range_def vector_insert_def min_def)

theorem insert_erase:
  assumes "i \<le> length xs"
  shows "rbind (json_insert_list this (JArray xs) (this, Array_iterator i) vs)
           (\<lambda>(j, pos). json_erase_range this j pos (this, Array_iterator (i + length vs))) =
         Inr (JArray xs, (this, Array_iterator i))"
  using assms by (simp add: json_insert_list_def json_erase_range_def remove_inserted)

lemma erase_index_iterator:
  "i < length xs \<Longrightarrow>
     json_erase this (JArray xs) (this, Array_iterator i) =
     rbind (erase_index (JArray xs) i) (\<lambda>j. Inr (j, (this, Array_iterator i)))"
  by (simp add: json_erase_def erase_index_def)

section \<open>Objects as maps\<close>

lemma map_find_length: "map_find m k < length m \<longleftrightarrow> map_of m k \<noteq> None"
  by (induction m) auto

lemma map_find_nth: "map_of m k = Some v \<Longrightarrow> map_find m k < length m \<and> m ! map_find m k = (k, v)"
  by (induction m) (auto split: if_splits)

lemma map_find_none: "map_of m k = None \<Longrightarrow> map_find m k = length m"
  by (induction m) (auto split: if_splits)

lemma map_erase_find: "map_erase m k = remove_range (map_find m k) (map_find m k + 1) m"
  unfolding remove_range_def by (induction m k rule: map_erase.induct) auto

text \<open>\<open>find\<close> leads to the value \<open>at\<close> returns, and erasing there is erasing the key.\<close>

lemma find_at:
  "map_of kvs k = Some v \<Longrightarrow> iterator_deref (JObject kvs) (json_find (JObject kvs) k) = at_key (JObject kvs) k"
  using map_find_nth [of kvs k v] by simp

lemma find_end: "iterator_ne (json_find j k) (set_end j) \<longleftrightarrow> json_count j k = 1"
proof (cases j)
  case (JObject kvs)
  then show ?thesis
    using map_find_none [of kvs k] map_find_length [of kvs k] by (auto simp: iterator_ne_def)
qed (simp_all add: iterator_ne_def)

lemma erase_find:
  assumes "json_count j k = 1"
  shows "json_erase this j (this, json_find j k) = rbind (erase_key j k) (\<lambda>(n, j'). Inr (j', (this, json_find j k)))"
  using assms map_find_length [of _ k] by (cases j) (auto simp: json_erase_def map_erase_find split: if_splits)

text \<open>The members of an object, as the interface of a map.\<close>

definition object_get :: "json \<Rightarrow> string \<Rightarrow> json option" where
  "object_get j k = (case at_key j k of Inr v \<Rightarrow> Some v | Inl _ \<Rightarrow> None)"

definition object_put :: "json \<Rightarrow> string \<Rightarrow> json \<Rightarrow> json" where
  "object_put j k v = (case json_assign j k v of Inr j' \<Rightarrow> j' | Inl _ \<Rightarrow> j)"

definition object_erase :: "json \<Rightarrow> string \<Rightarrow> json" where
  "object_erase j k = (case erase_key j k of Inr (n, j') \<Rightarrow> j' | Inl _ \<Rightarrow> j)"

lemmas object_ops = object_get_def object_put_def object_erase_def

fun object_ok :: "json \<Rightarrow> bool" where
  "object_ok (JObject kvs) = map_ordered kvs"
| "object_ok _ = False"

lemma json_assign_object: "map_ordered kvs \<Longrightarrow> \<exists>kvs'. json_assign (JObject kvs) k v = Inr (JObject kvs') \<and>
    map_ordered kvs' \<and> map_of kvs' = (map_of kvs)(k \<mapsto> v)"
  by (auto simp: json_assign_def map_ordered_set map_of_set fun_eq_iff split: option.splits)

interpretation json_members: erasable_map object_get object_put "JObject []" object_ok object_erase
proof unfold_locales
  fix m k k' and v :: json
  assume "object_ok m"
  then obtain kvs where m: "m = JObject kvs" "map_ordered kvs"
    by (cases m) auto
  then show "object_ok (object_put m k v)"
    and "object_get (object_put m k v) k' = (if k' = k then Some v else object_get m k')"
    using json_assign_object [of kvs k v] by (auto simp: object_ops split: option.splits)
  show "object_ok (object_erase m k)"
    and "object_get (object_erase m k) k' = (if k' = k then None else object_get m k')"
    using m by (auto simp: object_ops map_ordered_erase map_of_erase split: option.splits)
qed (simp_all add: object_ops map_ordered_def)

text \<open>A program that assigns and erases members, as the code runs it.\<close>

fun json_run :: "(string, json) map_call list \<Rightarrow> json \<Rightarrow> json result" where
  "json_run [] j = Inr j"
| "json_run (Put k v # cs) j = rbind (json_assign j k v) (json_run cs)"
| "json_run (Erase k # cs) j = rbind (erase_key j k) (\<lambda>(n, j'). json_run cs j')"

lemma json_run_calls: "object_ok j \<Longrightarrow> json_run cs j = Inr (json_members.run_calls cs j)"
proof (induction cs j rule: json_run.induct)
  case (2 k v cs j)
  then obtain j' where "json_assign j k v = Inr j'"
    using json_assign_object [of _ k v] by (cases j) fastforce+
  moreover from this have "object_put j k v = j'"
    by (simp add: object_put_def)
  ultimately show ?case
    using 2 json_members.inv_put [OF 2(2), of k v] by (simp add: json_members.run_calls.simps)
next
  case (3 k cs j)
  then obtain n j' where "erase_key j k = Inr (n, j')"
    by (cases j) auto
  moreover from this have "object_erase j k = j'"
    by (simp add: object_erase_def)
  ultimately show ?case
    using 3 json_members.inv_erase [OF 3(2), of k] by (simp add: json_members.run_calls.simps)
qed (simp add: json_members.run_calls.simps)

text \<open>
  C33. A JSON object is a finite map: any series of assignments \<open>j[k] = v\<close> and of \<open>erase(k)\<close> that starts with an
  empty object ends without an exception in an object with ordered keys. A key whose last call is an
  assignment is found by \<open>at\<close>, \<open>count\<close> and \<open>find\<close> with the value of that call; for any other key \<open>at\<close>
  throws \<open>out_of_range\<close>, \<open>count\<close> is 0 and \<open>find\<close> is the end.
\<close>

theorem json_object_map:
  "case json_run cs (JObject []) of
     Inl _ \<Rightarrow> False
   | Inr j \<Rightarrow> object_ok j \<and>
       (case map_effect cs Map.empty k of
          Some v \<Rightarrow> at_key j k = Inr v \<and> json_count j k = 1 \<and> iterator_deref j (json_find j k) = Inr v
        | None \<Rightarrow> at_key j k = Inl (Uncaught out_of_range) \<and> json_count j k = 0 \<and> json_find j k = set_end j)"
proof -
  let ?j = "json_members.run_calls cs (JObject [])"
  have "object_get (JObject []) = Map.empty"
    by (simp add: fun_eq_iff object_get_def)
  then have "object_ok ?j" "object_get ?j = map_effect cs Map.empty"
    using json_members.run_calls_effect [of "JObject []" cs] by (simp_all add: map_ordered_def)
  moreover from this obtain kvs where j: "?j = JObject kvs"
    by (cases ?j) auto
  moreover have "object_get (JObject kvs) = map_of kvs"
    by (simp add: fun_eq_iff object_get_def split: option.splits)
  moreover have "json_run cs (JObject []) = Inr ?j"
    by (rule json_run_calls) (simp add: map_ordered_def)
  ultimately show ?thesis
    using map_find_nth [of kvs k] map_find_none [of kvs k] by (auto split: option.split)
qed

end
