(* ===== verification/JsonOrder.thy ===== *)
theory JsonOrder
  imports JsonOps
begin

text \<open>
  The order of JSON values (\<open>external/json.hpp\<close>, \<open>operator<\<close> on types and on values, and the operators made
  of it). Arrays and objects compare lexicographically, member by member; values of different types compare by
  their types, except that integers are converted to compare with floating-point numbers. Without
  floating-point numbers the order is total: it is the order of an encoding of values as lists of
  integers. With them it is not even a weak order.
\<close>

section \<open>The operators\<close>

fun type_order :: "value_t \<Rightarrow> nat" where
  "type_order value_null = 0"
| "type_order value_object = 3"
| "type_order value_array = 4"
| "type_order value_string = 5"
| "type_order value_boolean = 1"
| "type_order value_integer = 2"
| "type_order value_float = 2"
| "type_order value_discarded = 0"

definition type_less :: "value_t \<Rightarrow> value_t \<Rightarrow> bool" where
  "type_less a b \<longleftrightarrow>
     (if a = value_discarded \<or> b = value_discarded then False else type_order a < type_order b)"

definition double_less :: "bool \<times> rat \<Rightarrow> bool \<times> rat \<Rightarrow> bool" where
  "double_less a b \<longleftrightarrow> with_sign (fst a) (snd a) < with_sign (fst b) (snd b)"

text \<open>\<open>std::vector\<close>, \<open>std::map\<close> and \<open>std::pair\<close> compare with \<open><\<close> of their elements only.\<close>

function json_less :: "json \<Rightarrow> json \<Rightarrow> bool" and array_less :: "json list \<Rightarrow> json list \<Rightarrow> bool"
  and object_less :: "(string \<times> json) list \<Rightarrow> (string \<times> json) list \<Rightarrow> bool" where
  "json_less i j =
     (case (i, j) of
        (JArray xs, JArray ys) \<Rightarrow> array_less xs ys
      | (JObject kvs, JObject kvs') \<Rightarrow> object_less kvs kvs'
      | (JNull, JNull) \<Rightarrow> False
      | (JString s, JString t) \<Rightarrow> s < t
      | (JBool a, JBool b) \<Rightarrow> a < b
      | (JInt m, JInt n) \<Rightarrow> sint m < sint n
      | (JFloat a p, JFloat b q) \<Rightarrow> double_less (a, p) (b, q)
      | (JInt n, JFloat b q) \<Rightarrow> double_less (int_to_double n) (b, q)
      | (JFloat a p, JInt n) \<Rightarrow> double_less (a, p) (int_to_double n)
      | _ \<Rightarrow> type_less (json_type i) (json_type j))"
| "array_less xs [] = False"
| "array_less [] (y # ys) = True"
| "array_less (x # xs) (y # ys) = (json_less x y \<or> \<not> json_less y x \<and> array_less xs ys)"
| "object_less m [] = False"
| "object_less [] (y # ys) = True"
| "object_less ((k, v) # m) ((k', v') # m') =
     ((k < k' \<or> \<not> k' < k \<and> json_less v v') \<or>
      \<not> (k' < k \<or> \<not> k < k' \<and> json_less v' v) \<and> object_less m m')"
  by pat_completeness auto

termination
  by (relation "measure (\<lambda>c. case c of
        Inl (i, j) \<Rightarrow> 2 * (size i + size j)
      | Inr (Inl (xs, ys)) \<Rightarrow> 2 * (size_list size xs + size_list size ys) + 1
      | Inr (Inr (m, m')) \<Rightarrow> 2 * (size_list (size_prod (\<lambda>_. 0) size) m + size_list (size_prod (\<lambda>_. 0) size) m') + 1)")
    auto

declare json_less.simps [simp del]

lemmas json_less_cons = json_less.simps [of JNull] json_less.simps [of "JBool a" for a] json_less.simps [of "JInt n" for n]
  json_less.simps [of "JFloat a p" for a p] json_less.simps [of "JString s" for s]
  json_less.simps [of "JArray xs" for xs] json_less.simps [of "JObject kvs" for kvs]

definition json_le :: "json \<Rightarrow> json \<Rightarrow> bool" where
  "json_le i j \<longleftrightarrow> \<not> json_less j i"

definition json_greater :: "json \<Rightarrow> json \<Rightarrow> bool" where
  "json_greater i j \<longleftrightarrow> \<not> json_le i j"

definition json_ge :: "json \<Rightarrow> json \<Rightarrow> bool" where
  "json_ge i j \<longleftrightarrow> \<not> json_less i j"

section \<open>The order without floating-point numbers\<close>

definition letter_code :: "char \<Rightarrow> int" where
  "letter_code c = 1 + int (of_char c)"

lemma letter_code_simps [simp]:
  "letter_code c < letter_code d \<longleftrightarrow> c < d" "letter_code c = letter_code d \<longleftrightarrow> c = d" "0 < letter_code c"
  "\<not> letter_code c < 0" "letter_code c \<noteq> 0" "0 \<noteq> letter_code c"
  by (simp_all add: letter_code_def less_char_def del: of_nat_of_char)

definition string_code :: "string \<Rightarrow> int list" where
  "string_code s = map letter_code s @ [0]"

fun json_code :: "json \<Rightarrow> int list" where
  "json_code JNull = [0]"
| "json_code (JBool b) = [1, of_bool b]"
| "json_code (JInt n) = [2, sint n]"
| "json_code (JFloat neg q) = [2]"
| "json_code (JObject kvs) = 3 # concat (map (\<lambda>kv. 1 # string_code (fst kv) @ json_code (snd kv)) kvs) @ [0]"
| "json_code (JArray xs) = 4 # concat (map (\<lambda>x. 1 # json_code x) xs) @ [0]"
| "json_code (JString s) = 5 # string_code s"

lemma string_code_less: "string_code s @ r < string_code t @ u \<longleftrightarrow> s < t \<or> s = t \<and> r < u"
  unfolding string_code_def
proof (induction s arbitrary: t)
  case Nil
  then show ?case
    by (cases t) simp_all
next
  case (Cons c s)
  then show ?case
    by (cases t) auto
qed

text \<open>The code of a value compares as the value does and no code is the beginning of another.\<close>

definition codes_compare :: "json \<Rightarrow> json \<Rightarrow> bool" where
  "codes_compare i j \<longleftrightarrow> (\<forall>r s. json_code i @ r < json_code j @ s \<longleftrightarrow> json_less i j \<or> i = j \<and> r < s)"

lemma less_append: "xs < xs @ [x]"
  by (induction xs) simp_all

lemma codes_compareD:
  assumes "codes_compare i j" "codes_compare j i"
  shows "json_less i j \<longleftrightarrow> json_code i < json_code j" and "i = j \<longleftrightarrow> json_code i = json_code j"
proof -
  have less: "json_code i @ r < json_code j @ s \<longleftrightarrow> json_less i j \<or> i = j \<and> r < s" for r s
    using assms(1) by (simp add: codes_compare_def)
  from less [of "[]" "[]"] show ij: "json_less i j \<longleftrightarrow> json_code i < json_code j"
    by simp
  show "i = j \<longleftrightarrow> json_code i = json_code j"
    using less [of "[]" "[0]"] ij less_append [of "json_code j" 0] by auto
qed

lemma array_code_less:
  "(\<And>x y. x \<in> set xs \<Longrightarrow> y \<in> set ys \<Longrightarrow> codes_compare x y \<and> codes_compare y x) \<Longrightarrow>
     concat (map (\<lambda>x. 1 # json_code x) xs) @ 0 # r < concat (map (\<lambda>x. 1 # json_code x) ys) @ 0 # s \<longleftrightarrow>
     array_less xs ys \<or> xs = ys \<and> r < s"
proof (induction xs ys rule: list_induct2')
  case (4 x xs y ys)
  have "codes_compare x y" "codes_compare y x"
    using 4(2) by simp_all
  note xy = codes_compareD [OF this] codes_compareD [OF this(2) this(1)]
  show ?case
    using 4 xy \<open>codes_compare x y\<close> by (auto simp: codes_compare_def)
qed auto

lemma object_code_less:
  "(\<And>kv kv'. kv \<in> set m \<Longrightarrow> kv' \<in> set m' \<Longrightarrow>
       codes_compare (snd kv) (snd kv') \<and> codes_compare (snd kv') (snd kv)) \<Longrightarrow>
     concat (map (\<lambda>kv. 1 # string_code (fst kv) @ json_code (snd kv)) m) @ 0 # r <
     concat (map (\<lambda>kv. 1 # string_code (fst kv) @ json_code (snd kv)) m') @ 0 # s \<longleftrightarrow>
     object_less m m' \<or> m = m' \<and> r < s"
proof (induction m m' rule: list_induct2')
  case (4 x xs y ys)
  obtain k v k' v' where x: "x = (k, v)" "y = (k', v')"
    by (metis prod.exhaust)
  have "codes_compare v v'" "codes_compare v' v"
    using 4(2) [of x y] x by simp_all
  note xy = codes_compareD [OF this] codes_compareD [OF this(2) this(1)]
  show ?case
    using 4 xy \<open>codes_compare v v'\<close> unfolding x by (auto simp: codes_compare_def string_code_less)
qed auto

lemma compare_arrays:
  assumes "\<And>x y. x \<in> set xs \<Longrightarrow> y \<in> set ys \<Longrightarrow> codes_compare x y \<and> codes_compare y x"
  shows "codes_compare (JArray xs) (JArray ys)"
  using array_code_less [of xs ys] assms by (simp add: codes_compare_def json_less_cons)

lemma compare_objects:
  assumes "\<And>kv kv'. kv \<in> set m \<Longrightarrow> kv' \<in> set m' \<Longrightarrow>
    codes_compare (snd kv) (snd kv') \<and> codes_compare (snd kv') (snd kv)"
  shows "codes_compare (JObject m) (JObject m')"
  using object_code_less [of m m'] assms by (simp add: codes_compare_def json_less_cons)

lemma compare_types:
  "json_exact i \<Longrightarrow> json_exact j \<Longrightarrow> json_type i \<noteq> json_type j \<Longrightarrow> codes_compare i j"
  by (cases i; cases j) (simp_all add: codes_compare_def json_less_cons type_less_def)

lemma compare_scalars:
  "json_exact i \<Longrightarrow> json_type i = json_type j \<Longrightarrow> \<not> is_structured i \<Longrightarrow> codes_compare i j"
  by (cases i; cases j) (auto simp: codes_compare_def json_less_cons is_structured_def string_code_less of_bool_def
      intro: signed_word_eqI)

lemma codes_compare_exact: "json_exact i \<Longrightarrow> json_exact j \<Longrightarrow> codes_compare i j \<and> codes_compare j i"
proof (induction i arbitrary: j)
  case (JArray xs)
  show ?case
  proof (cases "\<exists>ys. j = JArray ys")
    case True
    then show ?thesis
      using JArray by (auto simp: list_all_iff intro!: compare_arrays)
  next
    case False
    then have "json_type (JArray xs) \<noteq> json_type j"
      by (cases j) simp_all
    then show ?thesis
      using JArray(2,3) compare_types by metis
  qed
next
  case (JObject kvs)
  show ?case
  proof (cases "\<exists>kvs'. j = JObject kvs'")
    case True
    then obtain kvs' where j: "j = JObject kvs'"
      by blast
    have "codes_compare (snd kv) (snd kv') \<and> codes_compare (snd kv') (snd kv)"
      if "kv \<in> set kvs" "kv' \<in> set kvs'" for kv kv'
      using that JObject(2,3) by (intro JObject(1) [of kv]) (auto simp: j list_all_iff snds.simps)
    then show ?thesis
      unfolding j by (blast intro: compare_objects)
  next
    case False
    then have "json_type (JObject kvs) \<noteq> json_type j"
      by (cases j) simp_all
    then show ?thesis
      using JObject(2,3) compare_types by metis
  qed
qed (metis compare_types compare_scalars is_structured_def value_t.distinct json_type.simps)+

lemma json_less_code: "json_exact i \<Longrightarrow> json_exact j \<Longrightarrow> json_less i j \<longleftrightarrow> json_code i < json_code j"
  using codes_compare_exact codes_compareD(1) by blast

lemma json_code_inj: "json_exact i \<Longrightarrow> json_exact j \<Longrightarrow> i = j \<longleftrightarrow> json_code i = json_code j"
  using codes_compare_exact codes_compareD(2) by blast

text \<open>
  On values without floating-point numbers the operators are those of one total order, in which \<open>==\<close> is the
  equality: of two values that are not equal one is less, the order is transitive, and \<open><=\<close>, \<open>>\<close> and
  \<open>>=\<close> are what their names say.
\<close>

theorem json_less_total:
  assumes "json_exact i" "json_exact j" "json_exact k"
  shows "(json_less i j \<and> \<not> json_eq i j \<and> \<not> json_less j i) \<or>
         (\<not> json_less i j \<and> json_eq i j \<and> \<not> json_less j i) \<or>
         (\<not> json_less i j \<and> \<not> json_eq i j \<and> json_less j i)"
    and "json_less i j \<Longrightarrow> json_less j k \<Longrightarrow> json_less i k"
    and "json_le i j \<longleftrightarrow> json_less i j \<or> json_eq i j"
    and "json_greater i j \<longleftrightarrow> json_less j i"
    and "json_ge i j \<longleftrightarrow> json_greater i j \<or> json_eq i j"
  using assms by (auto simp: json_less_code json_eq_exact json_code_inj json_le_def json_greater_def json_ge_def)

section \<open>The order with floating-point numbers\<close>

lemma log2_nat_53: "log2_nat 9007199254740992 = 53" "log2_nat 9007199254740993 = 53"
  by (simp_all add: log2_nat.simps)

lemma half_53: "\<lfloor>9007199254740993 / 2 :: rat\<rfloor> = 4503599627370496"
  by (simp add: floor_eq_iff)

lemma to_double_53: "to_double 9007199254740992 = 9007199254740992" "to_double 9007199254740993 = 9007199254740992"
  using exponent_of_nat [of 9007199254740992] exponent_of_nat [of 9007199254740993]
  by (simp_all add: to_double_def round_float_def round_half_even_def log2_nat_53 half_53 Let_def)

lemma int_to_double_53:
  "int_to_double 9007199254740992 = (False, 9007199254740992)"
  "int_to_double 9007199254740993 = (False, 9007199254740992)"
  by (simp_all add: int_to_double_def to_double_53)

text \<open>
  A floating-point number is equal to two different integers, of which one is less than the other: \<open>==\<close> is not
  transitive, and \<open><\<close> is not a strict weak order, which the ordered containers and the sorting
  algorithms of C++ require.
\<close>

theorem json_less_floats:
  "let a = JInt (2 ^ 53); b = JInt (2 ^ 53 + 1); x = JFloat False (2 ^ 53)
   in json_eq a x \<and> json_eq x b \<and> \<not> json_eq a b \<and>
      \<not> json_less a x \<and> \<not> json_less x a \<and> \<not> json_less b x \<and> \<not> json_less x b \<and> json_less a b"
  by (simp add: Let_def json_less_cons double_eq_def approx_def double_less_def int_to_double_53 with_sign_def)

end
