(* ===== verification/Spec2Isabelle.thy ===== *)
theory Spec2Isabelle
  imports AllocatorProps HeapLimits ExampleApp Layers HashMap SpinLock Threads Diff ObjUtils Transport Logging Startup Wire RaftRace JsonGrammar JsonUnicode JsonOrder
begin

text \<open>
  A verification development for gallocy, a library that replaces the memory allocator of a C++
  program by heaps of its own and keeps the nodes that run it in agreement by the Raft protocol over
  HTTP. The program has four parts.

  \<^item> The heap layers (\<open>heaplayers/\<close>, \<open>allocators/\<close>, \<open>libgallocy.cpp\<close>, \<open>wrapper.cpp\<close>) stack a first-fit free
    list on size headers, on arenas, on one 32 MB zone from \<open>mmap\<close>, under a lock. Three such stacks serve
    the application, the library itself and SQLite.
  \<^item> The node (\<open>consensus/\<close>) keeps the Raft state and log, a timer, a state machine that starts elections
    and heartbeats, a client that sends them, and a server whose handlers answer them.
  \<^item> The HTTP part (\<open>http/\<close>, \<open>external/restclient-cpp\<close>, \<open>external/json.hpp\<close>) parses requests, routes them,
    prints responses, sends requests through libcurl, and writes and reads the JSON bodies.
  \<^item> The rest is utilities (strings, configuration, logging, models, diff, threads) and the entry point
    that brings a node up.

  Theories and sources. Every theory names the code it models; operations have the names of the code,
  with a prefix where several classes share a name (\<open>ff_malloc\<close> is \<open>FirstFitHeap::malloc\<close>).

  \<^item> \<open>Prelude\<close>: machine integers, the ways a run can stop early (\<open>crash\<close>), operations on a state. \<open>Memory\<close>
    and \<open>Cells\<close>: bytes at addresses, mapped regions, lists of cells in memory.
  \<^item> \<open>Constants\<close> (\<open>utils/constants.cpp\<close>), \<open>SourceHeap\<close>, \<open>ZoneHeap\<close>, \<open>SizeHeap\<close>, \<open>FirstFitHeap\<close>, \<open>StdlibHeap\<close>
    (the headers of the same names; \<open>LockedHeap\<close> and \<open>Guard\<close> are in the last): each layer extends the
    record of the one below. Their invariants and the proofs that every operation keeps them are in
    \<open>HeapInv\<close>, \<open>ZoneInv\<close>, \<open>SizeInv\<close>, \<open>FirstFitInv\<close>, \<open>StdlibInv\<close> and \<open>LockedInv\<close>.
  \<^item> \<open>AllocatorSpec\<close>: what an allocator promises, as a locale over a map from addresses to contents, with
    the lemma that any program that is safe against the promise runs as the promise says. \<open>Allocators\<close>:
    the entry points \<open>internal_*\<close>, \<open>custom_*\<close> and \<open>sqlite_*\<close>, and the interpretations of the locale on them.
    \<open>HeapProps\<close>, \<open>AllocatorProps\<close> and \<open>HeapLimits\<close>: disjointness, first fit, progress, reuse, the entry points,
    and what goes wrong outside the limits (oversized and shrinking requests, reset, stale sizes).
  \<^item> \<open>Wrapper\<close> (\<open>wrapper.cpp\<close>), \<open>ExampleApp\<close> (the loop of \<open>bin/server.cpp\<close> on these heaps), \<open>Layers\<close> (free list, add, debug, page table and singleton heaps, STL allocator),
    \<open>HashMap\<close> (\<open>myhashmap.h\<close>), \<open>SpinLock\<close> (\<open>spinlock.h\<close>, as interleaved steps of any number of threads),
    \<open>Threads\<close> (\<open>threads.cpp\<close>), \<open>Diff\<close> (\<open>utils/diff.cpp\<close>), \<open>Logging\<close>, \<open>StringUtils\<close>, \<open>ObjUtils\<close>, \<open>Config\<close>, \<open>Models\<close>.
  \<^item> The JSON library, \<open>external/json.hpp\<close>: \<open>JsonLexer\<close> (the scanner, one function per label of its state
    machine), \<open>JsonNumber\<close> (the standard library's conversions of numbers), \<open>Json\<close> (values, construction and
    access), \<open>JsonDump\<close> (printing; escaping in place), \<open>JsonParser\<close>, \<open>JsonIter\<close> (iterators, equality),
    \<open>JsonOps\<close> (the container operations; objects as finite maps), \<open>JsonOrder\<close> (the order of values).
    \<open>JsonText\<close>: what is printed is read back. \<open>JsonSafety\<close>: what the parser can do on any text. \<open>JsonGrammar\<close>:
    the grammar of JSON, which the parser decides. \<open>JsonUnicode\<close>: the escapes against UTF-16 and UTF-8.
  \<^item> \<open>Peer\<close>, \<open>StdMap\<close> (\<open>std::map\<close>, and the locales of maps that also the hash map and JSON objects meet), \<open>HttpMessage\<close>, \<open>Router\<close> (which
    paths a route matches, with any number of variables, and which routes are lost), \<open>RestClient\<close>, \<open>HttpClient\<close>, \<open>Transport\<close>: the HTTP part.
  \<^item> \<open>RaftLog\<close>, \<open>RaftTimer\<close>, \<open>RaftState\<close>, \<open>RaftClient\<close>, \<open>RaftServer\<close>, \<open>RaftMachine\<close>: the node, one theory per
    class. \<open>RaftProps\<close> and \<open>ServerProps\<close>: votes, replication, dispatch, remote calls. \<open>RaftOrder\<close>: the
    locale of steps that keep an order, for the growth of the log and of the term. \<open>Cluster\<close> and
    \<open>ClusterProps\<close>: several nodes as a step relation, and what holds in every reachable cluster. A turn of a
    node and the handling of a request are single steps there; \<open>RaftRace\<close> lets another thread come between the
    accesses of \<open>try_grant_vote\<close>.
  \<^item> \<open>Startup\<close> (\<open>worker.h\<close>, \<open>entrypoint.cpp\<close>, the loops of the daemons) and \<open>Wire\<close> (a remote call as text).
    This theory holds the property that spans the node, the HTTP part and the client library.

  Parameters. The kernel (\<open>mmap\<close>, sockets, threads, files, time), libcurl and SQLite are arguments of the
  definitions that use them. What the proofs rely on is stated as \<open>mmap_spec\<close> (fresh, page-aligned,
  non-wrapping memory), \<open>sendto_datagram\<close> (a datagram is accepted whole or refused) and \<open>joins\<close> (\<open>pthread_join\<close>
  waits for the end of the thread's function), and has instances that meet it. Numbers are those of x86-64: \<open>long double\<close> has
  64 bits of precision, so that every \<open>int64_t\<close> is exact in it.

  Loops. Walks through lists in memory are partial functions whose value says whether they return, and
  are proved to return on well-formed heaps. The two walks of \<open>diff\<close> have the sum of the lengths as fuel,
  which bounds every path through the matrix. The parser starts with twice the length of the text and
  four as fuel: each of its calls but every other one reads a token, and it is proved never to run out.
  Loops that wait for the outside (sockets, timers,
  transfers) consume a list of what the outside does; theorems hold for all lists.

  Not modelled. The data race of a heap used by several threads beyond its lock, and the interleaving of the node's
  threads other than around \<open>try_grant_vote\<close>; weak memory; the memory
  of C++ containers and of the objects of the node, which are values here; the tables that make the
  dynamic linker use the wrapper and the zone functions that do nothing; construction
  and destruction in the STL allocator; printing of maps, which does not compile; the rest of the example programs; of the
  JSON library the input streams, parser callbacks, reverse iterators and conversions between containers of
  other types and JSON, which gallocy does not use; and SQLite, which is vendored.
\<close>

section \<open>A vote from the candidate's state to the voter's state and back\<close>

text \<open>
  C14. A vote over the network, byte by byte. The candidate's request goes through the HTTP client, the
  client library and libcurl; the server reads its text in whatever pieces it arrives, parses it,
  routes it, decodes the JSON body and lets \<open>try_grant_vote\<close> decide; the text of its response comes back
  through libcurl's callbacks. When no byte is lost, the voter has changed as the decision says, and
  the candidate counts exactly that vote, stepping down if the voter knows a later term.
\<close>

theorem vote_over_wire:
  assumes "curl_easy_init curl" and "r \<in> set (vote_requests s)"
    and "try_grant_vote (Peer_sockaddr name) (commit_index s) (current_term s) (last_applied s) v = (granted, v')"
    and "header_fields_ok hs"
    and "arrives chunks (wire ''POST'' (uri r) ''HTTP/1.1'' hs (raw_body r))"
    and "rsp = json_response (json_dump (json_object [(''term'', JInt (current_term v')), (''vote_granted'', JBool granted)]))"
    and "delivers (curl_easy_perform curl
           (post_options junk (c_str (get_url r)) ''application/json'' (c_str (raw_body r)))) rsp"
  shows "handle (server_table ex) chunks name v = Inr (response_str rsp, v') \<and>
    (\<exists>rsp'. curl_request curl junk r = Inr rsp' \<and>
       request_vote_callback rsp' s =
         Inr (granted, if current_term s < current_term v'
                       then set_state FOLLOWER (set_current_term (current_term v') s) else s))"
proof
  let ?j = "request_vote_json (current_term s) (last_applied s) (commit_index s)"
  obtain p where r: "r = Request_post ''POST'' p ''/raft/request_vote'' (json_dump ?j) json_headers"
    using assms(2) by (auto simp: vote_requests_def raft_getters Let_def)
  obtain req req' where "handle (server_table ex) chunks name v =
      rbind (route_request_vote [] req v) (\<lambda>(rsp, s'). Inr (response_str rsp, s'))"
    "req_peer req = Peer_sockaddr name" "get_json req = Inr (?j, req')"
    by (rule handle_json_post [OF request_vote_json_def r request_jsons_exact(1) plain_path(1) _ assms(4,5) server_match(2)])
      auto
  then show "handle (server_table ex) chunks name v = Inr (response_str rsp, v')"
    using assms(3) by (auto simp: route_vote_json assms(6))
  have "req_method r = ''POST''"
    by (simp add: r Request_post_def)
  then obtain rsp' where c: "curl_request curl junk r = Inr rsp'" "status_code rsp' = 200"
    "body rsp' = c_str (json_dump (json_object [(''term'', JInt (current_term v')), (''vote_granted'', JBool granted)]) @ crlf @ crlf)"
    using curl_request_reply [OF assms(1) _ assms(7) [unfolded assms(6)]] by blast
  then show "\<exists>rsp'. curl_request curl junk r = Inr rsp' \<and> request_vote_callback rsp' s =
      Inr (granted, if current_term s < current_term v' then set_state FOLLOWER (set_current_term (current_term v') s) else s)"
    by (simp add: request_vote_callback_def json_fields get_current_term_def)
qed

theorem vote_over_wire_witness:
  "\<exists>r curl chunks out v' rsp'. r \<in> set (vote_requests (GallocyState True False [Peer 2 8080])) \<and>
     handle (server_table silence) chunks (get_socket (Peer 1 8080)) (GallocyState True False [Peer 1 8080]) =
       Inr (out, v') \<and> voted_for v' = Peer_sockaddr (get_socket (Peer 1 8080)) \<and>
     curl_request curl (0, False) r = Inr rsp' \<and>
     request_vote_callback rsp' (GallocyState True False [Peer 2 8080]) =
       Inr (True, GallocyState True False [Peer 2 8080])"
proof -
  let ?s = "GallocyState True False [Peer 2 8080]" and ?v = "GallocyState True False [Peer 1 8080]"
  let ?name = "get_socket (Peer 1 8080)"
  let ?j = "request_vote_json (current_term ?s) (last_applied ?s) (commit_index ?s)"
  define r where "r = Request_post ''POST'' (Peer 2 8080) ''/raft/request_vote'' (json_dump ?j) json_headers"
  have r: "r \<in> set (vote_requests ?s)"
    by (simp add: vote_requests_def raft_getters Let_def r_def) (simp add: GallocyState_def)
  obtain v' where v': "try_grant_vote (Peer_sockaddr ?name) (commit_index ?s) (current_term ?s) (last_applied ?s) ?v = (True, v')"
    "current_term v' = 0" "voted_for v' = Peer_sockaddr ?name"
    by (simp add: vote_granted GallocyState_def)
  have "nul \<notin> set ''/raft/request_vote''"
    by (simp add: nul_def)
  from vote_over_wire [where junk = "(0, False)" and ex = silence, OF delivering(1) r v'(1) example_headers_ok
      example_arrives [OF r_def request_jsons_exact(1) this] refl delivering(2)]
  show ?thesis
    using r v'(2,3) by (auto simp: GallocyState_def) blast
qed

section \<open>Entries from the leader to a follower and back\<close>

text \<open>
  C19. Entries over the network, byte by byte. The leader's request, with the entries in its JSON body,
  arrives in whatever pieces; the follower replicates as \<open>try_replicate_log\<close> says, whatever characters
  other than null the commands have, and its response comes back. When no byte is lost, the follower has changed as that
  says, and the leader moves the indices of this peer up or down, or steps down when the follower knows
  a later term.
\<close>

theorem append_over_wire:
  assumes "curl_easy_init curl" and "append_requests es s = Inr reqs" and "r \<in> set reqs"
    and "\<forall>e \<in> set es. fresh_entry e"
    and "get_previous_log_index (log s) = Inr prev_idx" and "get_previous_log_term (log s) = Inr pt"
    and "try_replicate_log (Peer_sockaddr name) es (commit_index s) prev_idx pt (current_term s) v = Inr (success, v')"
    and "header_fields_ok hs"
    and "arrives chunks (wire ''POST'' (uri r) ''HTTP/1.1'' hs (raw_body r))"
    and "rsp = json_response (json_dump (json_object [(''term'', JInt (current_term v')), (''success'', JBool success)]))"
    and "delivers (curl_easy_perform curl
           (post_options junk (c_str (get_url r)) ''application/json'' (c_str (raw_body r)))) rsp"
  shows "handle (server_table ex) chunks name v = Inr (response_str rsp, v') \<and>
    (\<exists>rsp'. curl_request curl junk r = Inr rsp' \<and>
       append_entries_callback rsp' s =
         (if current_term s < current_term v' then Inr (False, set_current_term (current_term v') (set_state FOLLOWER s))
          else if success
          then Inr (True, snd (increment_match_index (req_peer r) (snd (increment_next_index (req_peer r) s))))
          else Inr (False, snd (decrement_next_index (req_peer r) s))))"
proof
  let ?j = "append_entries_json es (commit_index s) prev_idx pt (current_term s)"
  obtain p where r: "r = Request_post ''POST'' p ''/raft/append_entries'' (json_dump ?j) json_headers"
    using assms(2,3,5,6) by (auto simp: append_requests_def raft_getters)
  obtain req req' where "handle (server_table ex) chunks name v =
      rbind (route_append_entries [] req v) (\<lambda>(rsp, s'). Inr (response_str rsp, s'))"
    "req_peer req = Peer_sockaddr name" "get_json req = Inr (?j, req')"
    by (rule handle_json_post [OF append_entries_json_def r request_jsons_exact(2) plain_path(2) _ assms(8,9) server_match(3)])
      auto
  then show "handle (server_table ex) chunks name v = Inr (response_str rsp, v')"
    using assms(7) route_append_json [OF assms(4)] by (simp add: assms(10) seq_def)
  have "req_method r = ''POST''"
    by (simp add: r Request_post_def)
  then obtain rsp' where c: "curl_request curl junk r = Inr rsp'" "status_code rsp' = 200" "rsp_peer rsp' = req_peer r"
    "body rsp' = c_str (json_dump (json_object [(''term'', JInt (current_term v')), (''success'', JBool success)]) @ crlf @ crlf)"
    using curl_request_reply [OF assms(1) _ assms(11) [unfolded assms(10)]] by blast
  then show "\<exists>rsp'. curl_request curl junk r = Inr rsp' \<and> append_entries_callback rsp' s =
      (if current_term s < current_term v' then Inr (False, set_current_term (current_term v') (set_state FOLLOWER s))
       else if success
       then Inr (True, snd (increment_match_index (req_peer r) (snd (increment_next_index (req_peer r) s))))
       else Inr (False, snd (decrement_next_index (req_peer r) s)))"
    by (simp add: append_entries_callback_def json_fields get_current_term_def)
qed

theorem append_over_wire_witness:
  "\<exists>r curl chunks out v' rsp' s'.
     append_requests [LogEntry (Command ''x'') 0] (GallocyState True False [Peer 2 8080]) = Inr [r] \<and>
     handle (server_table silence) chunks (get_socket (Peer 1 8080)) (GallocyState True False [Peer 1 8080]) =
       Inr (out, v') \<and> log v' = [LogEntry (Command ''x'') 0] \<and>
     curl_request curl (0, False) r = Inr rsp' \<and>
     append_entries_callback rsp' (GallocyState True False [Peer 2 8080]) = Inr (True, s')"
proof -
  let ?s = "GallocyState True False [Peer 2 8080]" and ?v = "GallocyState True False [Peer 1 8080]"
  let ?name = "get_socket (Peer 1 8080)" and ?e = "LogEntry (Command ''x'') 0"
  let ?j = "append_entries_json [?e] (commit_index ?s) 0 0 (current_term ?s)"
  define r where "r = Request_post ''POST'' (Peer 2 8080) ''/raft/append_entries'' (json_dump ?j) json_headers"
  have fresh: "\<forall>e \<in> set [?e]. fresh_entry e"
    by (simp add: fresh_entry_def LogEntry_def c_str_def char_code_def)
  have l: "log ?s = []" "peer_list ?s = [Peer 2 8080]" "current_term ?s = 0" "commit_index ?s = 0"
    by (simp_all add: GallocyState_def)
  have prev: "get_previous_log_index (log ?s) = Inr 0" "get_previous_log_term (log ?s) = Inr 0"
    by (simp_all add: l get_previous_log_index_def get_previous_log_term_def)
  have reqs: "append_requests [?e] ?s = Inr [r]"
    unfolding append_requests_def prev by (simp add: r_def raft_getters l(2))
  obtain v' where v': "try_replicate_log (Peer_sockaddr ?name) [?e] (commit_index ?s) 0 0 (current_term ?s) ?v = Inr (True, v')"
    "current_term v' = 0" "log v' = [?e]"
    by (simp add: try_replicate_log_def get_current_term_def l append_entry_def follow_leader_fields)
      (simp add: GallocyState_def follow_leader_fields append_entry_def)
  have "nul \<notin> set ''/raft/append_entries''"
    by (simp add: nul_def)
  from append_over_wire [where junk = "(0, False)" and ex = silence, OF delivering(1) reqs list.set_intros(1) fresh prev
      v'(1) example_headers_ok example_arrives [OF r_def request_jsons_exact(2) this] refl delivering(2)]
  show ?thesis
    using reqs v'(2,3) l(3) by auto blast
qed

end
